(* ===== verification/GoLib.thy ===== *)
theory GoLib
  imports Main "HOL-Library.Char_ord" "HOL-Library.List_Lexorder" "HOL-Library.Sublist"
    "HOL-Library.AList" "HOL-Library.Multiset" "HOL-Library.Word"
begin

text \<open>
  The prelude: what the program uses of the Go language and its standard library, and the
  generic facts the component theories share.

  A Go string is a sequence of bytes and is modelled by \<^typ>\<open>string\<close>, a list of 8-bit
  characters. Case-insensitive operations work on runes, so UTF-8 decoding is modelled byte
  for byte (an invalid byte is the rune U+FFFD, as in \<^verbatim>\<open>utf8.DecodeRune\<close>); the Unicode
  tables for runes outside ASCII are a parameter (\<open>utab\<close>), and every theorem holds for any
  such table. A Go error is its text plus what \<^verbatim>\<open>errors.Is\<close>/\<^verbatim>\<open>errors.As\<close> can find in its
  chain; a \<^verbatim>\<open>time.Time\<close> is an integer number of nanoseconds since the Unix epoch.
\<close>

section \<open>Collections of facts\<close>

named_theorems go_simps \<open>equations of the library operations\<close>
named_theorems frame_simps \<open>what an operation leaves unchanged\<close>

section \<open>Errors\<close>

record goerr =
  emsg :: string        \<comment> \<open>Error()\<close>
  eeof :: bool          \<comment> \<open>errors.Is(err, io.EOF)\<close>
  eclosed :: bool       \<comment> \<open>errors.Is(err, net.ErrClosed)\<close>
  enet :: bool          \<comment> \<open>errors.As(err, *net.Error)\<close>

type_synonym 'a result = "goerr + 'a"

text \<open>An error made by \<^verbatim>\<open>errors.New\<close> or a \<^verbatim>\<open>fmt.Errorf\<close> without \<^verbatim>\<open>%w\<close>.\<close>

definition errnew :: "string \<Rightarrow> goerr" where
  "errnew s = \<lparr>emsg = s, eeof = False, eclosed = False, enet = False\<rparr>"

text \<open>\<^verbatim>\<open>fmt.Errorf("<prefix>%w", err)\<close>: the text is extended, the chain is kept.\<close>

definition wrapf :: "string \<Rightarrow> goerr \<Rightarrow> goerr" where
  "wrapf p e = e\<lparr>emsg := p @ emsg e\<rparr>"

lemma wrapf_sel [simp]:
  "emsg (wrapf p e) = p @ emsg e" "eeof (wrapf p e) = eeof e"
  "eclosed (wrapf p e) = eclosed e" "enet (wrapf p e) = enet e"
  by (simp_all add: wrapf_def)

lemma errnew_sel [simp]:
  "emsg (errnew s) = s" "\<not> eeof (errnew s)" "\<not> eclosed (errnew s)" "\<not> enet (errnew s)"
  by (simp_all add: errnew_def)

section \<open>Strings\<close>

abbreviation bv :: "char \<Rightarrow> nat" where "bv c \<equiv> of_char c"

definition crlf :: string where "crlf = [CHR 0x0D, CHR 0x0A]"

definition bslash :: "string \<Rightarrow> string" where "bslash s = CHR 0x5C # s"

text \<open>\<^verbatim>\<open>strings.Index\<close>.\<close>

fun str_index :: "string \<Rightarrow> string \<Rightarrow> nat option" where
  "str_index p [] = (if p = [] then Some 0 else None)"
| "str_index p (c # s) = (if prefix p (c # s) then Some 0 else map_option Suc (str_index p s))"

lemma str_index_bound: "str_index p s = Some i \<Longrightarrow> i + length p \<le> length s"
proof (induction s arbitrary: i)
  case (Cons c s)
  then show ?case
    by (auto split: if_splits dest: prefix_length_le)
qed (auto split: if_splits)

lemma str_index_split: "str_index p s = Some i \<Longrightarrow> s = take i s @ p @ drop (i + length p) s"
proof (induction s arbitrary: i)
  case (Cons c s)
  then show ?case
    by (auto split: if_splits elim!: prefixE simp: Cons_eq_append_conv)
qed (auto split: if_splits)

text \<open>\<^verbatim>\<open>strings.Contains\<close>.\<close>

definition str_contains :: "string \<Rightarrow> string \<Rightarrow> bool" where
  "str_contains s sub = (str_index sub s \<noteq> None)"

lemma str_contains_append: "str_contains s sub \<Longrightarrow> str_contains (p @ s) sub"
  by (induction p) (auto simp: str_contains_def)

text \<open>\<^verbatim>\<open>strings.Cut\<close> at a one-byte separator.\<close>

definition str_cut :: "char \<Rightarrow> string \<Rightarrow> (string \<times> string) option" where
  "str_cut c s = (if c \<in> set s then Some (takeWhile ((\<noteq>) c) s, drop 1 (dropWhile ((\<noteq>) c) s)) else None)"

lemma str_cut_append: "c \<notin> set a \<Longrightarrow> str_cut c (a @ c # b) = Some (a, b)"
  by (induction a) (auto simp: str_cut_def)

text \<open>\<^verbatim>\<open>strings.Split\<close> at a one-byte separator and \<^verbatim>\<open>strings.Join\<close>.\<close>

fun split_char :: "char \<Rightarrow> string \<Rightarrow> string list" where
  "split_char c [] = [[]]"
| "split_char c (x # s) = (if x = c then [] # split_char c s
     else (case split_char c s of [] \<Rightarrow> [[x]] | w # ws \<Rightarrow> (x # w) # ws))"

fun str_join :: "string \<Rightarrow> string list \<Rightarrow> string" where
  "str_join sep [] = []"
| "str_join sep [w] = w"
| "str_join sep (w # v # ws) = w @ sep @ str_join sep (v # ws)"

lemma split_char_nonempty [simp]: "split_char c s \<noteq> []"
  by (cases s) (auto split: list.splits)

lemma split_char_no_sep: "c \<notin> set s \<Longrightarrow> split_char c s = [s]"
  by (induction s) auto

lemma split_char_append: "c \<notin> set w \<Longrightarrow> split_char c (w @ c # s) = w # split_char c s"
  by (induction w) auto

lemma split_char_join:
  "ws \<noteq> [] \<Longrightarrow> \<forall>w\<in>set ws. c \<notin> set w \<Longrightarrow> split_char c (str_join [c] ws) = ws"
  by (induction "[c]" ws rule: str_join.induct) (auto simp: split_char_no_sep split_char_append)

lemma str_join_split_char: "str_join [c] (split_char c s) = s"
proof (induction s)
  case (Cons x s)
  show ?case
  proof (cases "split_char c s")
    case (Cons w ws)
    then show ?thesis using Cons.IH by (cases ws) auto
  qed auto
qed simp

text \<open>\<^verbatim>\<open>strings.Split\<close> at a longer separator; \<^verbatim>\<open>strings.ReplaceAll\<close> of a non-empty text.\<close>

function split_str :: "string \<Rightarrow> string \<Rightarrow> string list" where
  "split_str sep s = (if sep = [] then [s] else (case str_index sep s of None \<Rightarrow> [s]
     | Some i \<Rightarrow> take i s # split_str sep (drop (i + length sep) s)))"
  by pat_completeness auto
termination
proof (relation "measure (\<lambda>(sep, s). length s)")
  fix sep s i assume "sep \<noteq> []" "str_index sep s = Some i"
  then show "((sep, drop (i + length sep) s), sep, s) \<in> measure (\<lambda>(sep, s). length s)"
    using str_index_bound [of sep s i] by (cases sep) auto
qed simp

declare split_str.simps [simp del]

definition replace_char :: "char \<Rightarrow> char \<Rightarrow> string \<Rightarrow> string" where
  "replace_char a b s = map (\<lambda>c. if c = a then b else c) s"

definition replace_str :: "string \<Rightarrow> string \<Rightarrow> string \<Rightarrow> string" where
  "replace_str old new s = str_join new (split_str old s)"

lemma str_index_first: "c \<notin> set w \<Longrightarrow> str_index [c] (w @ c # r) = Some (length w)"
  by (induction w) auto

lemma str_index_char_None: "str_index [c] s = None \<longleftrightarrow> c \<notin> set s"
  by (induction s) auto

lemma str_contains_char: "str_contains s [c] \<longleftrightarrow> c \<in> set s"
  using str_index_char_None [of c s] by (auto simp: str_contains_def)


lemma split_str_char: "split_str [c] s = split_char c s"
proof (induction s rule: length_induct)
  case (1 s)
  show ?case
  proof (cases "c \<in> set s")
    case False
    then have "str_index [c] s = None" by (simp add: str_index_char_None)
    then show ?thesis using False by (subst split_str.simps) (simp add: split_char_no_sep)
  next
    case True
    then obtain w r where s: "s = w @ c # r" "c \<notin> set w"
      by (metis split_list_first)
    then show ?thesis
      using 1 by (subst split_str.simps) (simp add: str_index_first split_char_append)
  qed
qed

lemma str_join_head: "str_join sep ((x # w) # ws) = x # str_join sep (w # ws)"
  by (cases ws) auto

lemma str_join_Nil_head: "ws \<noteq> [] \<Longrightarrow> str_join sep ([] # ws) = sep @ str_join sep ws"
  by (cases ws) auto

lemma replace_str_char: "replace_str [c] [d] s = map (\<lambda>x. if x = c then d else x) s"
  unfolding replace_str_def split_str_char
  by (induction c s rule: split_char.induct) (auto simp: str_join_head str_join_Nil_head split: list.split)

text \<open>\<^verbatim>\<open>strings.Trim(s, cutset)\<close> and \<^verbatim>\<open>strings.TrimLeft\<close> for ASCII cutsets.\<close>

definition trim_chars :: "char set \<Rightarrow> string \<Rightarrow> string" where
  "trim_chars cs s = rev (dropWhile (\<lambda>c. c \<in> cs) (rev (dropWhile (\<lambda>c. c \<in> cs) s)))"

abbreviation blank_chars :: "char set" where "blank_chars \<equiv> {CHR '' '', CHR 0x09}"

section \<open>White space\<close>

text \<open>The UTF-8 encodings of the runes for which \<^verbatim>\<open>unicode.IsSpace\<close> holds.\<close>

definition space_seqs :: "string list" where
  "space_seqs = [[CHR 0x09], [CHR 0x0A], [CHR 0x0B], [CHR 0x0C], [CHR 0x0D], [CHR 0x20],
     [CHR 0xC2, CHR 0x85], [CHR 0xC2, CHR 0xA0], [CHR 0xE1, CHR 0x9A, CHR 0x80],
     [CHR 0xE2, CHR 0x80, CHR 0x80], [CHR 0xE2, CHR 0x80, CHR 0x81], [CHR 0xE2, CHR 0x80, CHR 0x82],
     [CHR 0xE2, CHR 0x80, CHR 0x83], [CHR 0xE2, CHR 0x80, CHR 0x84], [CHR 0xE2, CHR 0x80, CHR 0x85],
     [CHR 0xE2, CHR 0x80, CHR 0x86], [CHR 0xE2, CHR 0x80, CHR 0x87], [CHR 0xE2, CHR 0x80, CHR 0x88],
     [CHR 0xE2, CHR 0x80, CHR 0x89], [CHR 0xE2, CHR 0x80, CHR 0x8A], [CHR 0xE2, CHR 0x80, CHR 0xA8],
     [CHR 0xE2, CHR 0x80, CHR 0xA9], [CHR 0xE2, CHR 0x80, CHR 0xAF], [CHR 0xE2, CHR 0x81, CHR 0x9F],
     [CHR 0xE3, CHR 0x80, CHR 0x80]]"

text \<open>Repeatedly drop a leading member of \<open>qs\<close>.\<close>

function strip_by :: "string list \<Rightarrow> string \<Rightarrow> string" where
  "strip_by qs s = (case find (\<lambda>q. q \<noteq> [] \<and> prefix q s) qs of None \<Rightarrow> s
     | Some q \<Rightarrow> strip_by qs (drop (length q) s))"
  by pat_completeness auto
termination
  by (relation "measure (\<lambda>(qs, s). length s)") (auto simp: find_Some_iff prefix_def)

declare strip_by.simps [simp del]

text \<open>\<^verbatim>\<open>strings.TrimSpace\<close>.\<close>

definition trim_space :: "string \<Rightarrow> string" where
  "trim_space s = rev (strip_by (map rev space_seqs) (rev (strip_by space_seqs s)))"

definition head_in :: "string list \<Rightarrow> string \<Rightarrow> bool" where
  "head_in qs s = (\<exists>q\<in>set qs. q \<noteq> [] \<and> prefix q s)"

lemma head_in_Nil [simp]: "\<not> head_in qs []"
  by (auto simp: head_in_def)

lemma strip_by_fixed: "\<not> head_in qs s \<Longrightarrow> strip_by qs s = s"
proof -
  assume "\<not> head_in qs s"
  then have "find (\<lambda>q. q \<noteq> [] \<and> prefix q s) qs = None"
    by (auto simp: head_in_def find_None_iff)
  then show ?thesis by (subst strip_by.simps) simp
qed

lemma strip_by_head: "\<not> head_in qs (strip_by qs s)"
proof (induction qs s rule: strip_by.induct)
  case (1 qs s)
  show ?case
  proof (cases "find (\<lambda>q. q \<noteq> [] \<and> prefix q s) qs")
    case None
    then have "\<not> head_in qs s" by (auto simp: head_in_def find_None_iff)
    then show ?thesis by (simp add: strip_by_fixed)
  next
    case (Some q)
    with "1" show ?thesis by (subst strip_by.simps) simp
  qed
qed

lemma strip_by_suffix: "suffix (strip_by qs s) s"
proof (induction qs s rule: strip_by.induct)
  case (1 qs s)
  show ?case
  proof (cases "find (\<lambda>q. q \<noteq> [] \<and> prefix q s) qs")
    case None
    then show ?thesis by (subst strip_by.simps) simp
  next
    case (Some q)
    with "1" show ?thesis
      by (subst strip_by.simps) (auto intro: suffix_order.trans suffix_drop)
  qed
qed

lemma head_in_prefix: "prefix s t \<Longrightarrow> head_in qs s \<Longrightarrow> head_in qs t"
  by (auto simp: head_in_def intro: prefix_order.trans)

lemma trim_space_fixed:
  "\<not> head_in space_seqs s \<Longrightarrow> \<not> head_in (map rev space_seqs) (rev s) \<Longrightarrow> trim_space s = s"
  by (simp add: trim_space_def strip_by_fixed)

lemma trim_space_prefix: "prefix (trim_space s) (strip_by space_seqs s)"
  using strip_by_suffix [of "map rev space_seqs" "rev (strip_by space_seqs s)"]
  by (simp add: trim_space_def suffix_to_prefix)

lemma trim_space_no_head: "\<not> head_in space_seqs (trim_space s)"
  using strip_by_head [of space_seqs s] head_in_prefix [OF trim_space_prefix] by blast

lemma trim_space_idem [simp]: "trim_space (trim_space s) = trim_space s"
proof (rule trim_space_fixed)
  show "\<not> head_in space_seqs (trim_space s)" by (rule trim_space_no_head)
  show "\<not> head_in (map rev space_seqs) (rev (trim_space s))"
    by (simp add: trim_space_def strip_by_head)
qed

lemma trim_space_length: "length (trim_space s) \<le> length s"
  using strip_by_suffix [of space_seqs s] trim_space_prefix [of s]
  by (meson order_trans prefix_length_le suffix_length_le)

lemma trim_space_Nil [simp]: "trim_space [] = []"
  using trim_space_length [of "[]"] by simp

text \<open>A string of printable ASCII bytes (hex digests, UIDs) is left alone.\<close>

definition plain_chars :: "string \<Rightarrow> bool" where
  "plain_chars s = (\<forall>c\<in>set s. 33 \<le> bv c \<and> bv c \<le> 126)"

lemma plain_not_space:
  assumes "33 \<le> bv c" "bv c \<le> 126" shows "\<not> head_in space_seqs (c # s)"
    and "\<not> head_in (map rev space_seqs) (c # s)"
  using assms by (auto simp: head_in_def space_seqs_def)

lemma trim_space_plain: "plain_chars s \<Longrightarrow> trim_space s = s"
proof (rule trim_space_fixed)
  assume p: "plain_chars s"
  then show "\<not> head_in space_seqs s"
    by (cases s) (auto simp: plain_chars_def plain_not_space)
  from p show "\<not> head_in (map rev space_seqs) (rev s)"
    by (cases s rule: rev_cases) (auto simp: plain_chars_def plain_not_space)
qed

section \<open>Runes\<close>

definition cont_byte :: "char \<Rightarrow> bool" where
  "cont_byte c = (128 \<le> bv c \<and> bv c \<le> 191)"

text \<open>The length of the valid UTF-8 sequence a string starts with, 0 if there is none.\<close>

definition utf8_len :: "string \<Rightarrow> nat" where
  "utf8_len s = (case s of [] \<Rightarrow> 0 | a # r \<Rightarrow>
     if bv a < 128 then 1
     else if 194 \<le> bv a \<and> bv a \<le> 223 then
       (case r of b # _ \<Rightarrow> if cont_byte b then 2 else 0 | _ \<Rightarrow> 0)
     else if 224 \<le> bv a \<and> bv a \<le> 239 then
       (case r of b # c # _ \<Rightarrow>
          if cont_byte b \<and> (bv a = 224 \<longrightarrow> 160 \<le> bv b) \<and> (bv a = 237 \<longrightarrow> bv b \<le> 159) \<and> cont_byte c
          then 3 else 0
        | _ \<Rightarrow> 0)
     else if 240 \<le> bv a \<and> bv a \<le> 244 then
       (case r of b # c # d # _ \<Rightarrow>
          if cont_byte b \<and> (bv a = 240 \<longrightarrow> 144 \<le> bv b) \<and> (bv a = 244 \<longrightarrow> bv b \<le> 143)
             \<and> cont_byte c \<and> cont_byte d then 4 else 0
        | _ \<Rightarrow> 0)
     else 0)"

definition rune_error :: nat where "rune_error = 0xFFFD"

definition rune_val :: "string \<Rightarrow> nat" where
  "rune_val s = (case s of [a] \<Rightarrow> bv a
     | [a, b] \<Rightarrow> (bv a - 192) * 64 + (bv b - 128)
     | [a, b, c] \<Rightarrow> (bv a - 224) * 4096 + (bv b - 128) * 64 + (bv c - 128)
     | [a, b, c, d] \<Rightarrow> (bv a - 240) * 262144 + (bv b - 128) * 4096 + (bv c - 128) * 64 + (bv d - 128)
     | _ \<Rightarrow> rune_error)"

text \<open>The runes of a string, each with the bytes it was decoded from: \<^verbatim>\<open>for i, r := range s\<close>.\<close>

function runes :: "string \<Rightarrow> (nat \<times> string) list" where
  "runes [] = []"
| "runes (a # r) = (let n = utf8_len (a # r) in
     if n = 0 then (rune_error, [a]) # runes r
     else (rune_val (take n (a # r)), take n (a # r)) # runes (drop n (a # r)))"
  by pat_completeness auto
termination by (relation "measure length") auto

declare runes.simps(2) [simp del]

text \<open>\<^verbatim>\<open>utf8.AppendRune\<close>.\<close>

definition utf8_encode :: "nat \<Rightarrow> string" where
  "utf8_encode r0 = (let r = (if r0 \<ge> 0x110000 \<or> (0xD800 \<le> r0 \<and> r0 \<le> 0xDFFF) then rune_error else r0) in
     if r < 128 then [char_of r]
     else if r < 2048 then [char_of (192 + r div 64), char_of (128 + r mod 64)]
     else if r < 65536 then
       [char_of (224 + r div 4096), char_of (128 + r div 64 mod 64), char_of (128 + r mod 64)]
     else [char_of (240 + r div 262144), char_of (128 + r div 4096 mod 64),
           char_of (128 + r div 64 mod 64), char_of (128 + r mod 64)])"

text \<open>
  The tables of package \<^verbatim>\<open>unicode\<close> for runes of at least 128: \<^verbatim>\<open>unicode.ToLower\<close>, a
  representative of the \<^verbatim>\<open>unicode.SimpleFold\<close> orbit (a lower-case ASCII letter where the
  orbit has one), and \<^verbatim>\<open>strconv.IsPrint\<close>.
\<close>

record utab =
  u_lower :: "nat \<Rightarrow> nat"
  u_fold :: "nat \<Rightarrow> nat"
  u_print :: "nat \<Rightarrow> bool"

definition ascii_lower :: "nat \<Rightarrow> nat" where
  "ascii_lower r = (if 65 \<le> r \<and> r \<le> 90 then r + 32 else r)"

definition lower_rune :: "utab \<Rightarrow> nat \<Rightarrow> nat" where
  "lower_rune ut r = (if r < 128 then ascii_lower r else u_lower ut r)"

definition fold_rune :: "utab \<Rightarrow> nat \<Rightarrow> nat" where
  "fold_rune ut r = (if r < 128 then ascii_lower r else u_fold ut r)"

text \<open>\<^verbatim>\<open>strings.ToLower\<close> and \<^verbatim>\<open>strings.EqualFold\<close>.\<close>

definition to_lower :: "utab \<Rightarrow> string \<Rightarrow> string" where
  "to_lower ut s = concat (map (\<lambda>(r, _). utf8_encode (lower_rune ut r)) (runes s))"

definition fold_key :: "utab \<Rightarrow> string \<Rightarrow> nat list" where
  "fold_key ut s = map (\<lambda>(r, _). fold_rune ut r) (runes s)"

definition equal_fold :: "utab \<Rightarrow> string \<Rightarrow> string \<Rightarrow> bool" where
  "equal_fold ut s t = (fold_key ut s = fold_key ut t)"

lemma equal_fold_equiv [simp]: "equal_fold ut s s"
  and equal_fold_sym: "equal_fold ut s t \<Longrightarrow> equal_fold ut t s"
  and equal_fold_trans: "equal_fold ut s t \<Longrightarrow> equal_fold ut t w \<Longrightarrow> equal_fold ut s w"
  by (simp_all add: equal_fold_def)

definition ascii :: "string \<Rightarrow> bool" where
  "ascii s = (\<forall>c\<in>set s. bv c < 128)"

lemma utf8_len_ascii: "bv a < 128 \<Longrightarrow> utf8_len (a # r) = 1"
  by (simp add: utf8_len_def)

lemma runes_ascii_Cons: "bv a < 128 \<Longrightarrow> runes (a # r) = (bv a, [a]) # runes r"
  by (simp add: runes.simps(2) utf8_len_ascii rune_val_def)

lemma runes_ascii: "ascii s \<Longrightarrow> runes s = map (\<lambda>c. (bv c, [c])) s"
  by (induction s) (auto simp: ascii_def runes_ascii_Cons)

text \<open>An ASCII byte always starts a rune of its own, whatever stands before it.\<close>

lemma utf8_len_app_ascii:
  "bv c < 128 \<Longrightarrow> x \<noteq> [] \<Longrightarrow> utf8_len (x @ c # y) = utf8_len x"
  by (auto simp: utf8_len_def cont_byte_def split: list.splits)

lemma utf8_len_le: "utf8_len s \<le> length s"
  by (auto simp: utf8_len_def split: list.splits)

lemma runes_app_ascii:
  assumes "bv c < 128"
  shows "runes (x @ c # y) = runes x @ (bv c, [c]) # runes y"
proof (induction x rule: runes.induct)
  case 1
  then show ?case by (simp add: runes_ascii_Cons assms)
next
  case (2 a r)
  let ?n = "utf8_len (a # r)"
  have n: "utf8_len (a # r @ c # y) = ?n"
    using utf8_len_app_ascii [OF assms, of "a # r" y] by simp
  have le: "?n \<le> length (a # r)" by (rule utf8_len_le)
  show ?case
  proof (cases "?n = 0")
    case True
    with "2" n show ?thesis by (simp add: runes.simps(2))
  next
    case False
    with "2"(2) [OF refl False] n le show ?thesis
      by (simp add: runes.simps(2) Let_def take_Cons' drop_Cons')
  qed
qed

lemma ascii_in_fold: "c \<in> set s \<Longrightarrow> bv c < 128 \<Longrightarrow> ascii_lower (bv c) \<in> set (fold_key ut s)"
proof -
  assume c: "c \<in> set s" "bv c < 128"
  then obtain a b where s: "s = a @ c # b" by (metis split_list)
  show ?thesis
    using c(2) runes_app_ascii [of c a b] unfolding s fold_key_def by (auto simp: fold_rune_def)
qed

lemma lower_char_fixed: "\<not> (65 \<le> bv c \<and> bv c \<le> 90) \<Longrightarrow> char_of (ascii_lower (bv c)) = c"
  by (auto simp: ascii_lower_def)

lemma to_lower_app_ascii:
  "bv c < 128 \<Longrightarrow> to_lower ut (x @ c # y) =
     to_lower ut x @ char_of (ascii_lower (bv c)) # to_lower ut y"
  by (simp add: to_lower_def runes_app_ascii lower_rune_def utf8_encode_def ascii_lower_def)

lemma to_lower_ascii: "ascii s \<Longrightarrow> to_lower ut s = map (\<lambda>c. char_of (ascii_lower (bv c))) s"
  by (induction s) (auto simp: to_lower_def ascii_def runes_ascii_Cons lower_rune_def
      utf8_encode_def ascii_lower_def)

lemma equal_fold_ascii:
  "ascii s \<Longrightarrow> ascii t \<Longrightarrow>
   equal_fold ut s t = (map (ascii_lower \<circ> of_char) s = map (ascii_lower \<circ> of_char) t)"
  by (auto simp: equal_fold_def fold_key_def runes_ascii fold_rune_def ascii_def o_def
      intro!: arg_cong2 [of _ _ _ _ "(=)"])

lemma runes_concat: "concat (map snd (runes s)) = s"
proof (induction s rule: runes.induct)
  case (2 a r)
  show ?case
  proof (cases "utf8_len (a # r) = 0")
    case True
    with "2" show ?thesis by (simp add: runes.simps(2))
  next
    case False
    with "2"(2) [OF refl False] show ?thesis by (simp add: runes.simps(2) Let_def)
  qed
qed simp

section \<open>Formatting\<close>

fun nat_str :: "nat \<Rightarrow> string" where
  "nat_str n = (if n < 10 then [char_of (48 + n)] else nat_str (n div 10) @ [char_of (48 + n mod 10)])"

declare nat_str.simps [simp del]

text \<open>\<^verbatim>\<open>%d\<close>, \<^verbatim>\<open>strconv.FormatInt(x, 10)\<close>.\<close>

definition itoa :: "int \<Rightarrow> string" where
  "itoa i = (if i < 0 then CHR ''-'' # nat_str (nat (- i)) else nat_str (nat i))"

definition is_digit :: "char \<Rightarrow> bool" where
  "is_digit c = (48 \<le> bv c \<and> bv c \<le> 57)"

text \<open>The number a digit string denotes: the inverse of \<open>nat_str\<close>.\<close>

definition str_nat :: "string \<Rightarrow> nat" where
  "str_nat s = foldl (\<lambda>n c. 10 * n + (bv c - 48)) 0 s"

lemma str_nat_snoc [simp]: "str_nat (s @ [c]) = 10 * str_nat s + (bv c - 48)"
  by (simp add: str_nat_def)

lemma str_nat_nat_str [simp]: "str_nat (nat_str n) = n"
proof (induction n rule: nat_str.induct)
  case (1 n)
  show ?case
  proof (cases "n < 10")
    case True
    then show ?thesis by (simp add: nat_str.simps [of n] str_nat_def)
  next
    case False
    with "1" show ?thesis by (simp add: nat_str.simps [of n])
  qed
qed

lemma nat_str_inject [simp]: "nat_str m = nat_str n \<longleftrightarrow> m = n"
  using str_nat_nat_str by metis

lemma nat_str_digits: "list_all is_digit (nat_str n)"
proof (induction n rule: nat_str.induct)
  case (1 n)
  show ?case
  proof (cases "n < 10")
    case True
    then show ?thesis by (simp add: nat_str.simps [of n] is_digit_def)
  next
    case False
    with "1" show ?thesis by (simp add: nat_str.simps [of n] is_digit_def)
  qed
qed

lemma nat_str_nonempty [simp]: "nat_str n \<noteq> []"
  by (simp add: nat_str.simps [of n])

lemma nat_str_hd: "is_digit (hd (nat_str n))"
  using nat_str_digits [of n] nat_str_nonempty [of n] by (cases "nat_str n") auto

lemma itoa_inject [simp]: "itoa i = itoa j \<longleftrightarrow> i = j"
proof -
  have d: "nat_str n \<noteq> CHR ''-'' # x" for n x
    using nat_str_hd [of n] by (auto simp: is_digit_def)
  show ?thesis using d d [symmetric] by (auto simp: itoa_def)
qed

lemma itoa_chars: "c \<in> set (itoa i) \<Longrightarrow> is_digit c \<or> c = CHR ''-''"
  using nat_str_digits by (auto simp: itoa_def list_all_iff split: if_splits)

definition hex_digit :: "nat \<Rightarrow> char" where
  "hex_digit n = (if n < 10 then char_of (48 + n) else char_of (87 + n))"

text \<open>The last \<open>k\<close> hexadecimal digits of a number.\<close>

fun hex_str :: "nat \<Rightarrow> nat \<Rightarrow> string" where
  "hex_str 0 n = []"
| "hex_str (Suc k) n = hex_str k (n div 16) @ [hex_digit (n mod 16)]"

definition quote_rune :: "utab \<Rightarrow> nat \<times> string \<Rightarrow> string" where
  "quote_rune ut rb = (let r = fst rb; b = snd rb in
     if r = rune_error \<and> length b = 1 then bslash (''x'' @ hex_str 2 (bv (hd b)))
     else if r = 34 \<or> r = 92 then bslash [char_of r]
     else if (if r < 128 then 32 \<le> r \<and> r < 127 else u_print ut r) then utf8_encode r
     else if r = 7 then bslash ''a'' else if r = 8 then bslash ''b'' else if r = 12 then bslash ''f''
     else if r = 10 then bslash ''n'' else if r = 13 then bslash ''r'' else if r = 9 then bslash ''t''
     else if r = 11 then bslash ''v''
     else if r < 32 \<or> r = 127 then bslash (''x'' @ hex_str 2 r)
     else if r < 65536 then bslash (''u'' @ hex_str 4 r)
     else bslash (''U'' @ hex_str 8 r))"

text \<open>\<^verbatim>\<open>%q\<close>, \<^verbatim>\<open>strconv.Quote\<close>.\<close>

definition quote_str :: "utab \<Rightarrow> string \<Rightarrow> string" where
  "quote_str ut s = CHR 0x22 # concat (map (quote_rune ut) (runes s)) @ [CHR 0x22]"

section \<open>Integers and time\<close>

definition int64 :: "int \<Rightarrow> int" where "int64 x = signed_take_bit 63 x"

lemma int64_in_range: "- (2 ^ 63) \<le> x \<Longrightarrow> x < 2 ^ 63 \<Longrightarrow> int64 x = x"
  unfolding int64_def by (rule signed_take_bit_int_eq_self)

type_synonym time = int
type_synonym duration = int

abbreviation second :: int where "second \<equiv> 1000000000"

text \<open>The zero \<^verbatim>\<open>time.Time\<close> is January 1 of year 1, UTC.\<close>

definition zero_time :: time where "zero_time = - 62135596800 * second"

definition unix_sec :: "time \<Rightarrow> int" where "unix_sec t = t div second"
definition unix_nano :: "time \<Rightarrow> int" where "unix_nano t = int64 t"
definition time_unix :: "int \<Rightarrow> time" where "time_unix sec = sec * second"

lemma unix_sec_time_unix [simp]: "unix_sec (time_unix n) = n"
  by (simp add: unix_sec_def time_unix_def)

definition max_dur :: duration where "max_dur = 2 ^ 63 - 1"
definition min_dur :: duration where "min_dur = - (2 ^ 63)"

text \<open>\<^verbatim>\<open>t.Sub(u)\<close>: the difference, saturated at the range of a \<^verbatim>\<open>time.Duration\<close>.\<close>

definition time_sub :: "time \<Rightarrow> time \<Rightarrow> duration" where
  "time_sub t u = max min_dur (min max_dur (t - u))"

section \<open>Lists and tables\<close>

text \<open>
  A SQL table is an association list from its primary key to the other columns. \<open>AList.update\<close>
  is \<^verbatim>\<open>INSERT ... ON CONFLICT DO UPDATE\<close>; \<open>tbl_del\<close> is \<^verbatim>\<open>DELETE ... WHERE\<close> on the key.
\<close>

type_synonym ('k, 'v) table = "('k \<times> 'v) list"

definition tbl_del :: "('k \<Rightarrow> bool) \<Rightarrow> ('k, 'v) table \<Rightarrow> ('k, 'v) table" where
  "tbl_del P t = filter (\<lambda>(k, v). \<not> P k) t"

lemma map_of_tbl_del [simp]: "map_of (tbl_del P t) k = (if P k then None else map_of t k)"
  by (induction t) (auto simp: tbl_del_def)

lemma keys_tbl_del: "fst ` set (tbl_del P t) = {k \<in> fst ` set t. \<not> P k}"
  by (force simp: tbl_del_def)

lemma distinct_tbl_del: "distinct (map fst t) \<Longrightarrow> distinct (map fst (tbl_del P t))"
  by (auto simp: tbl_del_def distinct_map_filter)

lemma map_of_update_table [simp]:
  "map_of (AList.update k v t) k' = (if k = k' then Some v else map_of t k')"
  by (simp add: update_conv')

text \<open>A generator of lists is a permutation: Go leaves the iteration order of a map open.\<close>

definition perm_fun :: "('a list \<Rightarrow> 'a list) \<Rightarrow> bool" where
  "perm_fun f = (\<forall>xs. mset (f xs) = mset xs)"

lemma perm_fun_set: "perm_fun f \<Longrightarrow> set (f xs) = set xs"
  by (metis perm_fun_def set_mset_mset)

lemma find_unique:
  assumes "x \<in> set xs" "P x" "\<And>y. y \<in> set xs \<Longrightarrow> P y \<Longrightarrow> y = x"
  shows "find P xs = Some x"
proof (cases "find P xs")
  case None
  then show ?thesis using assms(1,2) by (auto simp: find_None_iff)
next
  case (Some y)
  then have "y \<in> set xs" "P y" by (auto simp: find_Some_iff)
  then show ?thesis using assms(3) Some by blast
qed

lemma filter_empty_iff: "filter P xs = [] \<longleftrightarrow> (\<forall>x\<in>set xs. \<not> P x)"
  by (induction xs) auto

lemma map_insort_key_comp: "map f (insort_key (\<lambda>x. k (f x)) x xs) = insort_key k (f x) (map f xs)"
  by (induction xs) auto

lemma map_sort_key_comp: "map f (sort_key (\<lambda>x. k (f x)) xs) = sort_key k (map f xs)"
  by (induction xs) (auto simp: map_insort_key_comp)

text \<open>A table for evaluating the model on ASCII examples.\<close>

definition ut_ex :: utab where
  "ut_ex = \<lparr>u_lower = id, u_fold = id, u_print = (\<lambda>_. True)\<rparr>"

end
