(* ===== verification/Message.thy ===== *)
theory Message
  imports GoLib
begin

text \<open>
  Package \<^verbatim>\<open>mailbox\<close>, file \<^verbatim>\<open>internal/mailbox/message.go\<close>: the fields of a message that matter
  for deduplication, the surrogate hash, the match keys and the tag header. The header reader
  of \<^verbatim>\<open>net/mail\<close> is modelled line by line; SHA-256, the MIME word decoder, the address parser
  and the date parser are parameters (\<open>golib\<close>).
\<close>

section \<open>Library functions\<close>

record golib =
  g_ut :: utab
  g_sha256 :: "string \<Rightarrow> string"                \<comment> \<open>the digest as bytes\<close>
  g_decode_words :: "string \<Rightarrow> string option"   \<comment> \<open>mime.WordDecoder.DecodeHeader, None on error\<close>
  g_parse_addr :: "string \<Rightarrow> string option"     \<comment> \<open>mail.ParseAddress: the bare address\<close>
  g_parse_date :: "string \<Rightarrow> time option"       \<comment> \<open>mail.ParseDate\<close>

definition hex_encode :: "string \<Rightarrow> string" where
  "hex_encode s = concat (map (\<lambda>c. hex_str 2 (bv c)) s)"

section \<open>net/mail: reading a header block\<close>

text \<open>\<^verbatim>\<open>textproto.Reader.ReadLine\<close>: lines end at LF, one CR before it is dropped.\<close>

definition strip_cr :: "string \<Rightarrow> string" where
  "strip_cr l = (if l \<noteq> [] \<and> last l = CHR 0x0D then butlast l else l)"

definition read_lines :: "string \<Rightarrow> string list" where
  "read_lines s = (let ps = split_char (CHR 0x0A) s in
     map strip_cr (butlast ps) @ (if last ps = [] then [] else [last ps]))"

definition starts_blank :: "string \<Rightarrow> bool" where
  "starts_blank s = (s \<noteq> [] \<and> hd s \<in> blank_chars)"

text \<open>\<^verbatim>\<open>ReadContinuedLine\<close>: folded lines are joined with a single space.\<close>

definition continued_line :: "string \<Rightarrow> string list \<Rightarrow> string" where
  "continued_line l ls = trim_chars blank_chars l @
     concat (map (\<lambda>c. CHR '' '' # trim_chars blank_chars c) (takeWhile starts_blank ls))"

definition token_char :: "char \<Rightarrow> bool" where
  "token_char c = (is_digit c \<or> (65 \<le> bv c \<and> bv c \<le> 90) \<or> (97 \<le> bv c \<and> bv c \<le> 122)
     \<or> c \<in> set ''!#$%&*+-.^_`|~'' \<or> c = CHR 0x27)"

fun title_case :: "bool \<Rightarrow> string \<Rightarrow> string" where
  "title_case up [] = []"
| "title_case up (c # s) =
     (let d = (if up \<and> 97 \<le> bv c \<and> bv c \<le> 122 then char_of (bv c - 32)
               else if \<not> up \<and> 65 \<le> bv c \<and> bv c \<le> 90 then char_of (bv c + 32) else c)
      in d # title_case (d = CHR ''-'') s)"

text \<open>\<^verbatim>\<open>textproto.CanonicalMIMEHeaderKey\<close>.\<close>

definition canonical_key :: "string \<Rightarrow> string" where
  "canonical_key s = (if list_all token_char s then title_case True s else s)"

type_synonym header = "(string \<times> string) list"

datatype hdr_end = Blank | Eof | Malformed string

function read_header :: "string list \<Rightarrow> header \<Rightarrow> header \<times> hdr_end" where
  "read_header [] m = (m, Eof)"
| "read_header (l # ls) m =
     (if l = [] then (m, Blank)
      else let kv = continued_line l ls; rest = dropWhile starts_blank ls in
        if kv = [] then (m, Blank)
        else case str_cut (CHR '':'') kv of None \<Rightarrow> (m, Malformed kv)
          | Some (k, v) \<Rightarrow>
              (let key = canonical_key k in
               if key = [] then read_header rest m
               else read_header rest (m @ [(key, dropWhile (\<lambda>c. c \<in> blank_chars) v)])))"
  by pat_completeness auto
termination
  by (relation "measure (\<lambda>(ls, m). length ls)")
     (auto simp: less_Suc_eq_le length_dropWhile_le)

declare read_header.simps [simp del]

definition eof_err :: goerr where
  "eof_err = \<lparr>emsg = ''EOF'', eeof = True, eclosed = False, enet = False\<rparr>"

text \<open>\<^verbatim>\<open>mail.ReadMessage\<close>, as far as the header goes.\<close>

definition read_message :: "string \<Rightarrow> header result" where
  "read_message buf =
     (if starts_blank buf then Inl (errnew (''malformed initial line: '' @ hd (read_lines buf)))
      else case read_header (read_lines buf) [] of
        (m, Blank) \<Rightarrow> Inr m
      | (m, Eof) \<Rightarrow> (if m = [] then Inl eof_err else Inr m)
      | (m, Malformed kv) \<Rightarrow> Inl (errnew (''malformed header line: '' @ kv)))"

text \<open>\<^verbatim>\<open>Header.Get\<close>: the first value of the key, or the empty string.\<close>

definition header_get :: "header \<Rightarrow> string \<Rightarrow> string" where
  "header_get h k = (case find (\<lambda>(k', v). k' = canonical_key k) h of None \<Rightarrow> [] | Some (_, v) \<Rightarrow> v)"

section \<open>Fields\<close>

record Fields =
  fMessageID :: string
  fDate :: time
  fSubject :: string
  fFrom :: string
  fHashHdr :: string

definition decodeHeader :: "golib \<Rightarrow> string \<Rightarrow> string" where
  "decodeHeader lib s = (case g_decode_words lib s of None \<Rightarrow> s | Some out \<Rightarrow> out)"

definition trim_prefix :: "string \<Rightarrow> string \<Rightarrow> string" where
  "trim_prefix p s = (if prefix p s then drop (length p) s else s)"

definition trim_suffix :: "string \<Rightarrow> string \<Rightarrow> string" where
  "trim_suffix p s = (if suffix p s then take (length s - length p) s else s)"

definition NormalizeMessageID :: "string \<Rightarrow> string" where
  "NormalizeMessageID s = trim_space (trim_suffix ''>'' (trim_prefix ''<'' (trim_space s)))"

definition NormalizeAddr :: "golib \<Rightarrow> string \<Rightarrow> string" where
  "NormalizeAddr lib s0 = (let s = trim_space (decodeHeader lib s0) in
     case g_parse_addr lib s of
       Some addr \<Rightarrow> to_lower (g_ut lib) (trim_space addr)
     | None \<Rightarrow> to_lower (g_ut lib) s)"

definition fields_of :: "golib \<Rightarrow> header \<Rightarrow> string \<Rightarrow> Fields" where
  "fields_of lib h hashHeader =
     \<lparr>fMessageID = NormalizeMessageID (header_get h ''Message-Id''),
      fDate = (let ds = trim_space (header_get h ''Date'') in
                 if ds = [] then zero_time
                 else case g_parse_date lib ds of Some t \<Rightarrow> t | None \<Rightarrow> zero_time),
      fSubject = trim_space (decodeHeader lib (header_get h ''Subject'')),
      fFrom = NormalizeAddr lib (header_get h ''From''),
      fHashHdr = trim_space (header_get h hashHeader)\<rparr>"

definition parse_buf :: "string \<Rightarrow> string" where
  "parse_buf raw = (if suffix [CHR 0x0A, CHR 0x0A] raw \<or> suffix (crlf @ crlf) raw then raw else raw @ crlf)"

definition ParseFields :: "golib \<Rightarrow> string \<Rightarrow> string \<Rightarrow> Fields result" where
  "ParseFields lib rawHeader hashHeader =
     (case read_message (parse_buf rawHeader) of
        Inl e \<Rightarrow> Inl (wrapf ''parsing message headers: '' e)
      | Inr h \<Rightarrow> Inr (fields_of lib h hashHeader))"

definition SurrogateHash :: "golib \<Rightarrow> Fields \<Rightarrow> string" where
  "SurrogateHash lib f =
     (let unix = (if fDate f = zero_time then 0 else unix_sec (fDate f)) in
      hex_encode (g_sha256 lib (itoa unix @ [CHR 0x00] @ fSubject f @ [CHR 0x00] @ fFrom f)))"

definition Identity :: "golib \<Rightarrow> Fields \<Rightarrow> string" where
  "Identity lib f =
     (if fMessageID f \<noteq> [] then ''mid:'' @ fMessageID f
      else if fHashHdr f \<noteq> [] then ''hash:'' @ fHashHdr f
      else ''hash:'' @ SurrogateHash lib f)"

definition MatchKeysFrom :: "string \<Rightarrow> string \<Rightarrow> string \<Rightarrow> string list" where
  "MatchKeysFrom messageID hashHdr surrogate =
     (let keys = (if messageID \<noteq> [] then [''mid:'' @ messageID] else []);
          keys = (if hashHdr \<noteq> [] then keys @ [''hash:'' @ hashHdr] else keys);
          sur = ''hash:'' @ surrogate
      in if keys = [] \<or> last keys \<noteq> sur then keys @ [sur] else keys)"

definition MatchKeys :: "golib \<Rightarrow> Fields \<Rightarrow> string list" where
  "MatchKeys lib f = MatchKeysFrom (fMessageID f) (fHashHdr f) (SurrogateHash lib f)"

section \<open>The tag header\<close>

definition HasHeader :: "utab \<Rightarrow> string \<Rightarrow> string \<Rightarrow> bool" where
  "HasHeader ut raw name =
     (let prefixLC = to_lower ut name @ '':'';
          headerEnd = (case str_index (crlf @ crlf) raw of Some i \<Rightarrow> i | None \<Rightarrow> length raw)
      in list_ex (\<lambda>line. prefix prefixLC (to_lower ut line)) (split_str crlf (take headerEnd raw)))"

definition tag_line :: "string \<Rightarrow> string \<Rightarrow> string" where
  "tag_line name value = name @ '': '' @ value @ crlf"

definition InjectHashHeader :: "utab \<Rightarrow> string \<Rightarrow> string \<Rightarrow> string \<Rightarrow> string" where
  "InjectHashHeader ut raw hashHeader value =
     (if HasHeader ut raw hashHeader then raw else tag_line hashHeader value @ raw)"

section \<open>Match keys\<close>

lemma surrogate_key_in: "''hash:'' @ sur \<in> set (MatchKeysFrom mid h sur)"
  by (auto simp: MatchKeysFrom_def Let_def)

lemma MatchKeysFrom_nonempty [simp]: "MatchKeysFrom mid h sur \<noteq> []"
  using surrogate_key_in [of sur mid h] by auto

lemma set_MatchKeysFrom:
  "set (MatchKeysFrom mid h sur) =
     (if mid = [] then {} else {''mid:'' @ mid}) \<union> (if h = [] then {} else {''hash:'' @ h})
     \<union> {''hash:'' @ sur}"
  by (auto simp: MatchKeysFrom_def Let_def)

lemma distinct_MatchKeysFrom: "distinct (MatchKeysFrom mid h sur)"
  by (auto simp: MatchKeysFrom_def Let_def)

lemma MatchKeysFrom_tagged: "set (MatchKeysFrom mid sur sur) \<subseteq> set (MatchKeysFrom mid h sur)"
  by (auto simp: set_MatchKeysFrom)

section \<open>Hexadecimal digests\<close>

lemma hex_digit_plain: "n < 16 \<Longrightarrow> 33 \<le> bv (hex_digit n) \<and> bv (hex_digit n) \<le> 126"
  by (auto simp: hex_digit_def)

lemma hex_str_plain: "plain_chars (hex_str k n)"
  by (induction k arbitrary: n) (auto simp: plain_chars_def hex_digit_plain)

lemma hex_encode_plain: "plain_chars (hex_encode s)"
  using hex_str_plain by (auto simp: hex_encode_def plain_chars_def)

lemma hex_encode_length: "length (hex_encode s) = 2 * length s"
  by (induction s) (auto simp: hex_encode_def numeral_2_eq_2)

lemma surrogate_plain: "plain_chars (SurrogateHash lib f)"
  by (simp add: SurrogateHash_def hex_encode_plain)

section \<open>Reading headers\<close>

lemma read_header_acc:
  "read_header ls m = (m @ fst (read_header ls []), snd (read_header ls []))"
proof (induction "length ls" arbitrary: ls m rule: less_induct)
  case less
  show ?case
  proof (cases ls)
    case (Cons l ls')
    have len: "length (dropWhile starts_blank ls') < length ls"
      using Cons by (simp add: length_dropWhile_le less_Suc_eq_le)
    note IH = less [OF len]
    show ?thesis
      unfolding Cons read_header.simps
      by (simp add: Let_def IH [of m] IH [of "m @ [x]" for x] IH [of "[x]" for x] split: option.splits)
  qed (simp add: read_header.simps)
qed

text \<open>Nothing after an empty line matters.\<close>

lemma starts_blank_Nil [simp]: "\<not> starts_blank []"
  by (simp add: starts_blank_def)

lemma read_header_blank:
  "read_header (ls @ [] # xs) m = read_header (ls @ [] # ys) m"
proof (induction "length ls" arbitrary: ls m rule: less_induct)
  case less
  show ?case
  proof (cases ls)
    case Nil
    then show ?thesis by (simp add: read_header.simps)
  next
    case (Cons l ls')
    let ?t = "takeWhile starts_blank" and ?d = "dropWhile starts_blank"
    have t: "?t (ls' @ [] # zs) = ?t ls'" for zs by (induction ls') auto
    have d: "?d (ls' @ [] # zs) = ?d ls' @ [] # zs" for zs by (induction ls') auto
    have len: "length (?d ls') < length ls"
      using Cons by (simp add: length_dropWhile_le less_Suc_eq_le)
    note IH = less [OF len]
    show ?thesis
      unfolding Cons append_Cons read_header.simps continued_line_def t d
      by (simp add: Let_def IH split: option.splits)
  qed
qed

text \<open>How a buffer splits into lines.\<close>

lemma last_split_char_snoc: "split_char c (s @ [c]) = split_char c s @ [[]]"
  by (induction s) (auto split: list.splits)

lemma split_char_app: "split_char c (s @ c # t) = split_char c s @ split_char c t"
  by (induction s) (auto split: list.splits)

lemma read_lines_lf: "read_lines (s @ CHR 0x0A # t) =
   map strip_cr (split_char (CHR 0x0A) s) @ read_lines t"
  by (simp add: read_lines_def split_char_app butlast_append Let_def)

lemma split_crlf_line: "CHR 0x0A \<notin> set l \<Longrightarrow> map strip_cr (split_char (CHR 0x0A) (l @ [CHR 0x0D])) = [l]"
  by (simp add: split_char_no_sep strip_cr_def)

lemma read_lines_line: "CHR 0x0A \<notin> set l \<Longrightarrow> read_lines (l @ crlf @ t) = l # read_lines t"
  using read_lines_lf [of "l @ [CHR 0x0D]" t] split_crlf_line [of l] by (simp add: crlf_def)

lemma lines_end_blank:
  "map strip_cr (split_char (CHR 0x0A) (s @ [CHR 0x0A])) = map strip_cr (split_char (CHR 0x0A) s) @ [[]]"
  "map strip_cr (split_char (CHR 0x0A) (s @ [CHR 0x0A, CHR 0x0D])) = map strip_cr (split_char (CHR 0x0A) s) @ [[]]"
  by (simp_all add: last_split_char_snoc split_char_app strip_cr_def)

text \<open>
  A buffer that holds an empty line reads the same whatever follows that line; both endings
  the code tests for (LF LF and CRLF CRLF) hold one.
\<close>

lemma read_lines_blank_end:
  assumes "e = [CHR 0x0A, CHR 0x0A] \<or> e = crlf @ crlf"
  shows "\<exists>x. \<forall>t. read_lines (s @ e @ t) = x @ [] # read_lines t"
proof (cases "e = crlf @ crlf")
  case True
  then have "s @ e @ t = ((s @ [CHR 0x0D]) @ [CHR 0x0A, CHR 0x0D]) @ CHR 0x0A # t" for t
    by (simp add: crlf_def)
  then show ?thesis
    using read_lines_lf [of "(s @ [CHR 0x0D]) @ [CHR 0x0A, CHR 0x0D]"]
    by (metis lines_end_blank(2) append.assoc append_Cons append_Nil)
next
  case False
  with assms have "s @ e @ t = (s @ [CHR 0x0A]) @ CHR 0x0A # t" for t by simp
  then show ?thesis
    using read_lines_lf [of "s @ [CHR 0x0A]"]
    by (metis lines_end_blank(1) append.assoc append_Cons append_Nil)
qed

lemma read_header_cut:
  assumes "e = [CHR 0x0A, CHR 0x0A] \<or> e = crlf @ crlf"
  shows "read_header (read_lines (s @ e @ t)) m = read_header (read_lines (s @ e)) m"
proof -
  obtain x where x: "\<And>t. read_lines (s @ e @ t) = x @ [] # read_lines t"
    using read_lines_blank_end [OF assms] by blast
  have "read_lines (s @ e) = x @ [[]]"
    using x [of "[]"] by (simp add: read_lines_def)
  then show ?thesis
    using x [of t] read_header_blank [of x "read_lines t" m "[]"] by simp
qed

lemma starts_blank_app: "s \<noteq> [] \<Longrightarrow> starts_blank (s @ t) = starts_blank s"
  by (simp add: starts_blank_def)

lemma crlf_nonempty [simp]: "crlf \<noteq> []"
  by (simp add: crlf_def)

lemma hd_read_lines_cut:
  "s @ e \<noteq> [] \<Longrightarrow> CHR 0x0A \<in> set (s @ e) \<Longrightarrow> hd (read_lines (s @ e @ t)) = hd (read_lines (s @ e))"
proof -
  assume "CHR 0x0A \<in> set (s @ e)"
  then obtain a b where ab: "s @ e = a @ CHR 0x0A # b" by (meson split_list)
  have "s @ e @ t = a @ CHR 0x0A # (b @ t)" using ab by (metis append.assoc append_Cons)
  then show ?thesis by (simp only: ab read_lines_lf) (simp add: hd_append)
qed

text \<open>
  Cutting a message right after its first empty line does not change what
  \<open>read_message\<close> returns.
\<close>

lemma read_message_cut:
  assumes "e = [CHR 0x0A, CHR 0x0A] \<or> e = crlf @ crlf"
  shows "read_message (s @ e @ t) = read_message (s @ e)"
proof -
  have "starts_blank (s @ e @ t) = starts_blank (s @ e)"
    using assms starts_blank_app [of "s @ e" t] by auto
  moreover have "hd (read_lines (s @ e @ t)) = hd (read_lines (s @ e))"
    by (rule hd_read_lines_cut) (use assms in \<open>auto simp: crlf_def\<close>)
  ultimately show ?thesis
    using read_header_cut [OF assms, of s t "[]"] by (simp only: read_message_def)
qed

text \<open>So the line end \<open>ParseFields\<close> adds where it thinks it is missing never does harm.\<close>

lemma read_message_parse_buf: "read_message (parse_buf raw) = read_message (raw @ crlf)"
proof (cases "suffix [CHR 0x0A, CHR 0x0A] raw \<or> suffix (crlf @ crlf) raw")
  case True
  then obtain e s where e: "e = [CHR 0x0A, CHR 0x0A] \<or> e = crlf @ crlf" and "raw = s @ e"
    by (auto simp: suffix_def)
  with read_message_cut [OF e, of s crlf] True show ?thesis
    by (simp add: parse_buf_def)
qed (simp add: parse_buf_def)

lemma ParseFields_cut:
  assumes "e = [CHR 0x0A, CHR 0x0A] \<or> e = crlf @ crlf"
  shows "ParseFields lib (s @ e @ t) hh = ParseFields lib (s @ e) hh"
  using read_message_cut [OF assms, of s "t @ crlf"] read_message_cut [OF assms, of s crlf]
  by (simp add: ParseFields_def read_message_parse_buf)

section \<open>Tagging a copy\<close>

text \<open>A usable tag header: a non-empty token that is none of the headers the hash is made of.\<close>

definition tag_name :: "string \<Rightarrow> bool" where
  "tag_name hh = (hh \<noteq> [] \<and> list_all token_char hh \<and>
     canonical_key hh \<notin> canonical_key ` {''Message-Id'', ''Subject'', ''From'', ''Date''})"

lemma token_char_facts:
  assumes "token_char c"
  shows "c \<noteq> CHR '':''" "c \<noteq> CHR 0x0A" "c \<noteq> CHR 0x0D" "c \<notin> blank_chars" "bv c < 128"
  using assms by (auto simp: token_char_def is_digit_def)

lemma tag_name_no: "tag_name hh \<Longrightarrow> CHR '':'' \<notin> set hh \<and> CHR 0x0A \<notin> set hh \<and> CHR 0x0D \<notin> set hh"
  by (auto simp: tag_name_def list_all_iff dest: token_char_facts)

lemma plain_no: "plain_chars v \<Longrightarrow> CHR 0x0A \<notin> set v \<and> CHR 0x0D \<notin> set v"
  by (auto simp: plain_chars_def)

lemma plain_hd: "plain_chars (c # v) \<Longrightarrow> c \<notin> blank_chars"
  by (auto simp: plain_chars_def)

lemma title_case_eq_Nil [simp]: "title_case b s = [] \<longleftrightarrow> s = []"
  by (cases s) (auto simp: Let_def)

lemma dropWhile_fixed: "\<not> P (hd s) \<Longrightarrow> dropWhile P s = s"
  by (cases s) auto

lemma trim_blank_hd_last:
  "s \<noteq> [] \<Longrightarrow> hd s \<notin> cs \<Longrightarrow> last s \<notin> cs \<Longrightarrow> trim_chars cs s = s"
  by (simp add: trim_chars_def dropWhile_fixed hd_rev)

lemma trim_tag_line:
  assumes "tag_name hh" "plain_chars v"
  shows "trim_chars blank_chars (hh @ '': '' @ v) =
           hh @ CHR '':'' # (if v = [] then [] else CHR '' '' # v)"
proof -
  obtain c cs where hh: "hh = c # cs" and c: "c \<notin> blank_chars"
    using assms(1) by (cases hh) (auto simp: tag_name_def dest: token_char_facts)
  show ?thesis
  proof (cases v rule: rev_cases)
    case Nil
    with hh c show ?thesis by (auto simp: trim_chars_def)
  next
    case (snoc w d)
    then have "d \<notin> blank_chars" using assms(2) by (auto simp: plain_chars_def)
    with snoc hh c show ?thesis by (auto intro!: trim_blank_hd_last)
  qed
qed

lemma read_header_tag:
  assumes "tag_name hh" "plain_chars v" "ls = [] \<or> \<not> starts_blank (hd ls)"
  shows "read_header ((hh @ '': '' @ v) # ls) [] = read_header ls [(canonical_key hh, v)]"
proof -
  have tw: "takeWhile starts_blank ls = []" and dw: "dropWhile starts_blank ls = ls"
    using assms(3) by (cases ls; simp)+
  have key: "canonical_key hh \<noteq> []"
    using assms(1) by (simp add: tag_name_def canonical_key_def)
  have v: "dropWhile (\<lambda>c. c \<in> blank_chars) (if v = [] then [] else CHR '' '' # v) = v"
    using assms(2) by (cases v) (auto dest: plain_hd)
  have cut: "str_cut (CHR '':'') (hh @ CHR '':'' # w) = Some (hh, w)" for w
    using assms(1) by (simp add: str_cut_append tag_name_no)
  have "continued_line (hh @ '': '' @ v) ls = hh @ CHR '':'' # (if v = [] then [] else CHR '' '' # v)"
    by (simp only: continued_line_def tw trim_tag_line [OF assms(1,2)]) simp
  then show ?thesis
    by (subst read_header.simps(2)) (simp only: cut v dw key Let_def option.case prod.case
        append_is_Nil_conv list.distinct append_Nil if_False simp_thms)
qed

lemma header_get_Cons:
  "header_get ((k, v) # h) n = (if k = canonical_key n then v else header_get h n)"
  by (simp add: header_get_def)

lemma fields_of_tag:
  assumes "tag_name hh" "plain_chars v"
  shows "fields_of lib ((canonical_key hh, v) # h) hh = (fields_of lib h hh)\<lparr>fHashHdr := v\<rparr>"
proof -
  have "header_get ((canonical_key hh, v) # h) n = header_get h n"
    if "n \<in> {''Message-Id'', ''Subject'', ''From'', ''Date''}" for n
    using assms(1) that by (auto simp: tag_name_def header_get_Cons)
  then show ?thesis
    by (simp add: fields_of_def header_get_Cons [of "canonical_key hh" v h hh] trim_space_plain assms(2))
qed

lemma read_lines_first:
  assumes "\<not> starts_blank s" shows "read_lines s = [] \<or> \<not> starts_blank (hd (read_lines s))"
proof (cases s)
  case (Cons c r)
  show ?thesis
  proof (cases "CHR 0x0A \<in> set s")
    case True
    then obtain a b where s: "s = a @ CHR 0x0A # b" and a: "CHR 0x0A \<notin> set a"
      by (meson split_list_first)
    have "strip_cr a = [] \<or> hd (strip_cr a) = hd a"
      by (cases a) (auto simp: strip_cr_def)
    then have "\<not> starts_blank (strip_cr a)"
      using assms s by (cases a) (auto simp: starts_blank_def strip_cr_def)
    then show ?thesis using a by (simp add: s read_lines_lf split_char_no_sep)
  next
    case False
    with assms show ?thesis by (auto simp: read_lines_def split_char_no_sep)
  qed
qed (simp add: read_lines_def)

lemma read_message_tag:
  assumes "tag_name hh" "plain_chars v" "read_message buf = Inr h"
  shows "read_message (tag_line hh v @ buf) = Inr ((canonical_key hh, v) # h)"
proof -
  let ?l = "hh @ '': '' @ v"
  have nb: "\<not> starts_blank buf" using assms(3) by (auto simp: read_message_def split: if_splits)
  have lf: "CHR 0x0A \<notin> set ?l"
    using tag_name_no [OF assms(1)] plain_no [OF assms(2)] by auto
  have lines: "read_lines (tag_line hh v @ buf) = ?l # read_lines buf"
    using read_lines_line [OF lf, of buf] by (simp add: tag_line_def)
  have nb': "\<not> starts_blank (tag_line hh v @ buf)"
    using assms(1) by (cases hh) (auto simp: tag_line_def starts_blank_def tag_name_def dest: token_char_facts)
  have rd: "read_header (read_lines (tag_line hh v @ buf)) [] =
      ((canonical_key hh, v) # fst (read_header (read_lines buf) []), snd (read_header (read_lines buf) []))"
    unfolding lines read_header_tag [OF assms(1,2) read_lines_first [OF nb]]
    by (subst read_header_acc) simp
  show ?thesis
    using assms(3) nb nb' unfolding read_message_def rd
    by (auto split: prod.splits hdr_end.splits if_splits)
qed

lemma ParseFields_tag:
  assumes "tag_name hh" "plain_chars v" "ParseFields lib raw hh = Inr f"
  shows "ParseFields lib (tag_line hh v @ raw) hh = Inr (f\<lparr>fHashHdr := v\<rparr>)"
proof -
  obtain h where h: "read_message (raw @ crlf) = Inr h" and f: "f = fields_of lib h hh"
    using assms(3) by (auto simp: ParseFields_def read_message_parse_buf split: sum.splits)
  have "read_message (parse_buf (tag_line hh v @ raw)) = Inr ((canonical_key hh, v) # h)"
    using read_message_tag [OF assms(1,2) h] by (simp add: read_message_parse_buf)
  then show ?thesis
    by (simp add: ParseFields_def f fields_of_tag [OF assms(1,2)])
qed

text \<open>A tagged message is recognised as tagged.\<close>

lemma str_index_skip:
  "x \<notin> set l \<Longrightarrow> str_index (x # q) (l @ s) = map_option ((+) (length l)) (str_index (x # q) s)"
  by (cases "str_index (x # q) s"; induction l) auto

lemma split_str_first: "CHR 0x0D \<notin> set l \<Longrightarrow> split_str crlf (l @ crlf @ t) = l # split_str crlf t"
  using str_index_skip [of "CHR 0x0D" l "[CHR 0x0A]" "crlf @ t"]
  by (subst split_str.simps) (simp add: crlf_def)

lemma split_str_single: "CHR 0x0D \<notin> set l \<Longrightarrow> split_str crlf l = [l]"
  using str_index_skip [of "CHR 0x0D" l "[CHR 0x0A]" "[]"]
  by (subst split_str.simps) (simp add: crlf_def)

lemma tag_line_header_end:
  assumes "CHR 0x0D \<notin> set l"
  shows "l \<in> set (split_str crlf (take (case str_index (crlf @ crlf) (l @ crlf @ raw) of
           Some i \<Rightarrow> i | None \<Rightarrow> length (l @ crlf @ raw)) (l @ crlf @ raw)))"
proof (cases "str_index (crlf @ crlf) (l @ crlf @ raw)")
  case None
  then show ?thesis by (simp only: option.case take_all_iff order_refl take_all split_str_first [OF assms] list.set_intros)
next
  case (Some i)
  let ?j = "str_index (crlf @ crlf) (crlf @ raw)"
  have "str_index (crlf @ crlf) (l @ crlf @ raw) = map_option ((+) (length l)) ?j"
    using str_index_skip [OF assms, of "[CHR 0x0A, CHR 0x0D, CHR 0x0A]" "crlf @ raw"]
    by (simp add: crlf_def)
  with Some obtain j where i: "i = length l + j" and j: "?j = Some j" by auto
  have "j = 0 \<or> (\<exists>k. j = Suc (Suc k))"
    using j by (auto simp: crlf_def split: if_splits)
  then show ?thesis
  proof
    assume "j = 0"
    with i Some assms show ?thesis by (simp add: split_str_single)
  next
    assume "\<exists>k. j = Suc (Suc k)"
    then obtain k where "take i (l @ crlf @ raw) = l @ crlf @ take k raw"
      using i by (auto simp: crlf_def)
    then show ?thesis using Some by (simp only: option.case split_str_first [OF assms] list.set_intros)
  qed
qed

lemma HasHeader_tag:
  assumes "tag_name hh" "plain_chars v"
  shows "HasHeader ut (tag_line hh v @ raw) hh"
proof -
  let ?l = "hh @ '': '' @ v"
  have "CHR 0x0D \<notin> set ?l"
    using tag_name_no [OF assms(1)] plain_no [OF assms(2)] by auto
  note mem = tag_line_header_end [OF this, of raw]
  have "prefix (to_lower ut hh @ '':'') (to_lower ut ?l)"
    using to_lower_app_ascii [of "CHR '':''" ut hh "CHR '' '' # v"] lower_char_fixed [of "CHR '':''"]
    by simp
  with mem show ?thesis
    unfolding HasHeader_def Let_def list_ex_iff tag_line_def append_assoc by blast
qed

lemma SurrogateHash_tag [simp]: "SurrogateHash lib (f\<lparr>fHashHdr := v\<rparr>) = SurrogateHash lib f"
  by (simp add: SurrogateHash_def)

lemma MatchKeys_tag: "set (MatchKeys lib (f\<lparr>fHashHdr := SurrogateHash lib f\<rparr>)) \<subseteq> set (MatchKeys lib f)"
  by (simp add: MatchKeys_def MatchKeysFrom_tagged)

section \<open>Properties\<close>

text \<open>An instance of the library parameters for evaluating the model on concrete messages.\<close>

definition lib_ex :: golib where
  "lib_ex = \<lparr>g_ut = ut_ex, g_sha256 = (\<lambda>s. take 4 (rev s)), g_decode_words = (\<lambda>_. None),
     g_parse_addr = (\<lambda>_. None), g_parse_date = (\<lambda>_. None)\<rparr>"

definition raw_ex :: string where
  "raw_ex = ''Subject: hi'' @ crlf @ ''From: a@b'' @ crlf @ crlf @ ''body''"

definition hh_ex :: string where "hh_ex = ''X-Imapsync-Hash''"

text \<open>C24: Tagging a copy keeps what deduplication reads. If a message parses to the fields f, the
  message that InjectHashHeader makes of it parses to the same fields, except that the tag
  header now holds the surrogate hash of f (or to exactly f when the header was there).\<close>

theorem inject_keeps_fields:
  assumes "tag_name hh" "ParseFields lib raw hh = Inr f"
  shows "ParseFields lib (InjectHashHeader (g_ut lib) raw hh (SurrogateHash lib f)) hh =
           Inr (if HasHeader (g_ut lib) raw hh then f else f\<lparr>fHashHdr := SurrogateHash lib f\<rparr>)"
  using ParseFields_tag [OF assms(1) surrogate_plain assms(2)] assms(2)
  by (simp add: InjectHashHeader_def)

lemma tag_name_ex: "tag_name hh_ex"
  by code_simp

lemma lines_ex: "read_lines (parse_buf raw_ex) = [''Subject: hi'', ''From: a@b'', '''', ''body'']"
  by (simp add: read_lines_def parse_buf_def raw_ex_def crlf_def strip_cr_def suffix_def)

lemma read_ex: "read_message (parse_buf raw_ex) = Inr [(''Subject'', ''hi''), (''From'', ''a@b'')]"
  unfolding read_message_def lines_ex
  by (simp add: parse_buf_def raw_ex_def crlf_def starts_blank_def read_header.simps continued_line_def
      trim_chars_def str_cut_def canonical_key_def token_char_def is_digit_def)

lemma parse_ex: "ParseFields lib_ex raw_ex hh_ex =
   Inr \<lparr>fMessageID = [], fDate = zero_time, fSubject = ''hi'', fFrom = ''a@b'', fHashHdr = []\<rparr>"
  unfolding ParseFields_def read_ex
  by (simp add: fields_of_def header_get_def canonical_key_def token_char_def is_digit_def hh_ex_def
      lib_ex_def decodeHeader_def NormalizeAddr_def NormalizeMessageID_def trim_prefix_def trim_suffix_def
      trim_space_plain plain_chars_def to_lower_ascii ascii_def ascii_lower_def char_of_def bit_0)

theorem inject_keeps_fields_witness:
  "\<exists>f. ParseFields lib_ex raw_ex hh_ex = Inr f \<and>
     ParseFields lib_ex (InjectHashHeader (g_ut lib_ex) raw_ex hh_ex (SurrogateHash lib_ex f)) hh_ex =
       Inr (if HasHeader (g_ut lib_ex) raw_ex hh_ex then f else f\<lparr>fHashHdr := SurrogateHash lib_ex f\<rparr>)"
  using inject_keeps_fields [OF tag_name_ex parse_ex] parse_ex by blast



text \<open>Tagging is idempotent: a message that was tagged once is recognised by HasHeader and is
  returned unchanged by every later InjectHashHeader, whatever value that one would write.\<close>

theorem inject_idempotent:
  assumes "tag_name hh" "plain_chars v"
  shows "HasHeader ut (InjectHashHeader ut raw hh v) hh \<and>
         InjectHashHeader ut (InjectHashHeader ut raw hh v) hh w = InjectHashHeader ut raw hh v"
  using HasHeader_tag [OF assms] by (simp add: InjectHashHeader_def)

end
