(* ===== verification/Config.thy ===== *)
theory Config
  imports GoLib
begin

text \<open>
  Package \<^verbatim>\<open>config\<close> (\<^verbatim>\<open>config/config.go\<close>): the configuration data, its defaults, its validation and
  the TLS settings made from it. The YAML decoder, file reading and the X.509 pool are
  parameters; every \<^verbatim>\<open>fmt.Errorf\<close> of the validation is a constructor of \<open>cfg_error\<close>.
\<close>

section \<open>Data\<close>

definition EndpointIMAP :: string where "EndpointIMAP = ''imap''"
definition EndpointMaildir :: string where "EndpointMaildir = ''maildir''"
definition EndpointEWS :: string where "EndpointEWS = ''ews''"
definition EndpointPST :: string where "EndpointPST = ''pst''"

definition EWSAuthBasic :: string where "EWSAuthBasic = ''basic''"
definition EWSAuthNTLM :: string where "EWSAuthNTLM = ''ntlm''"
definition EWSAuthOAuth2 :: string where "EWSAuthOAuth2 = ''oauth2''"

lemmas endpoint_names = EndpointIMAP_def EndpointMaildir_def EndpointEWS_def EndpointPST_def
  EWSAuthBasic_def EWSAuthNTLM_def EWSAuthOAuth2_def

record Server =
  sType :: string
  sHost :: string
  sPort :: int
  sMasterUser :: string
  sMasterPass :: string
  sRoot :: string
  sEWSUrl :: string
  sMinTLSVersion :: string
  sMaxTLSVersion :: string
  sCACert :: string
  sEWSAuth :: string
  sOAuthTenant :: string
  sOAuthClientID :: string
  sOAuthClientSecret :: string
  sOAuthTokenURL :: string
  sOAuthScope :: string

definition OAuthTokenEndpoint :: "Server \<Rightarrow> string" where
  "OAuthTokenEndpoint s = (let u = trim_space (sOAuthTokenURL s) in
     if u \<noteq> [] then u
     else ''https://login.microsoftonline.com/'' @ trim_space (sOAuthTenant s) @ ''/oauth2/v2.0/token'')"

record FolderPair =
  fpA :: string
  fpB :: string

record User =
  uName :: string
  uUserA :: string
  uUserB :: string
  uPathA :: string
  uPathB :: string

definition ConnectAs :: "User \<Rightarrow> string \<Rightarrow> string" where
  "ConnectAs u side =
     (if side = ''b'' then (if uPathB u \<noteq> [] then uPathB u else uUserB u)
      else if uPathA u \<noteq> [] then uPathA u else uUserA u)"

definition SourceYAML :: string where "SourceYAML = ''yaml''"
definition SourceSQLite :: string where "SourceSQLite = ''sqlite''"

definition DirectionBoth :: string where "DirectionBoth = ''both''"
definition DirectionAToB :: string where "DirectionAToB = ''a-to-b''"
definition DirectionBToA :: string where "DirectionBToA = ''b-to-a''"

lemmas source_names = SourceYAML_def SourceSQLite_def
lemmas direction_names = DirectionBoth_def DirectionAToB_def DirectionBToA_def

record Config =
  cServerA :: Server
  cServerB :: Server
  cSource :: string
  cSQLitePath :: string
  cFolders :: "FolderPair list"
  cUsers :: "User list"
  cSyncAllFolders :: bool
  cFolderExclude :: "string list"
  cWorkers :: int
  cSyncInterval :: duration
  cStatsInterval :: duration
  cPerUserTimeout :: duration
  cDialTimeout :: duration
  cIOTimeout :: duration
  cFetchBatchSize :: int
  cInsecureTLS :: bool
  cDebug :: bool
  cConnectRetries :: int
  cRetryBackoff :: duration
  cFullResyncEvery :: duration
  cMaxFailStreak :: int
  cHashHeader :: string
  cStateCache :: bool
  cDirection :: string

section \<open>Defaults\<close>

abbreviation minute :: int where "minute \<equiv> 60 * second"

definition dflt :: "int \<Rightarrow> int \<Rightarrow> int" where
  "dflt d x = (if x = 0 then d else x)"

definition dflt_str :: "string \<Rightarrow> string \<Rightarrow> string" where
  "dflt_str d x = (if x = [] then d else x)"

definition applyDefaults :: "Config \<Rightarrow> Config" where
  "applyDefaults c = c\<lparr>
     cServerA := (cServerA c)\<lparr>sPort := dflt 993 (sPort (cServerA c))\<rparr>,
     cServerB := (cServerB c)\<lparr>sPort := dflt 993 (sPort (cServerB c))\<rparr>,
     cWorkers := dflt 4 (cWorkers c),
     cSyncInterval := dflt (5 * minute) (cSyncInterval c),
     cStatsInterval := dflt minute (cStatsInterval c),
     cPerUserTimeout := dflt (10 * minute) (cPerUserTimeout c),
     cDialTimeout := dflt (30 * second) (cDialTimeout c),
     cIOTimeout := dflt (5 * minute) (cIOTimeout c),
     cFetchBatchSize := dflt 200 (cFetchBatchSize c),
     cHashHeader := dflt_str ''X-Imapsync-Hash'' (cHashHeader c),
     cSource := dflt_str SourceYAML (cSource c),
     cDirection := dflt_str DirectionBoth (cDirection c),
     cConnectRetries := dflt 3 (cConnectRetries c),
     cRetryBackoff := dflt (5 * second) (cRetryBackoff c),
     cFullResyncEvery := dflt (24 * 60 * minute) (cFullResyncEvery c),
     cMaxFailStreak := dflt 10 (cMaxFailStreak c)\<rparr>"

section \<open>Validation\<close>

datatype cfg_error =
    HostUnset string | BadPort string int | MasterUserUnset string | MasterPassUnset string
  | RootUnset string string | EWSUrlUnset string
  | OAuthUnexpected string | EWSMasterUnset string | OAuthClientUnset string
  | OAuthTenantUnset string | BadEWSAuth string string
  | BadType string string | EWSOnlySettings string
  | MinTLS string cfg_error | MaxTLS string cfg_error | TLSOrder string string string
  | SSLUnsupported string | UnknownTLS string
  | CACertError string goerr
  | SQLitePathUnset string | UnknownSource string | UnknownDirection string
  | BothReadOnly string | ReadOnlyTarget string string string
  | NotDiscoverable string string | BadWorkers int | BadBatch int
  | NoFolders | EmptyFolder nat string string | NoUsers | EmptyUserName nat
  | EmptyUserAddr nat string | PathNotAllowed nat string string | DuplicateUser nat string
  | TooManyWorkers int nat
  | ReadFailed goerr | ParseFailed goerr | NothingToImport

text \<open>\<^verbatim>\<open>crypto/tls\<close> version constants; 0 is no bound.\<close>

definition ParseTLSVersion :: "utab \<Rightarrow> string \<Rightarrow> cfg_error + nat" where
  "ParseTLSVersion ut raw = (let s = to_lower ut (trim_space raw) in
     if s = [] then Inr 0
     else if s \<in> {''1.0'', ''tls1.0'', ''tls1''} then Inr 0x0301
     else if s \<in> {''1.1'', ''tls1.1''} then Inr 0x0302
     else if s \<in> {''1.2'', ''tls1.2''} then Inr 0x0303
     else if s \<in> {''1.3'', ''tls1.3''} then Inr 0x0304
     else if s \<in> {''ssl'', ''ssl3'', ''ssl3.0'', ''sslv3''} then Inl (SSLUnsupported raw)
     else Inl (UnknownTLS raw))"

text \<open>File reading and the X.509 pool, as used by \<^verbatim>\<open>loadCACertPool\<close>.\<close>

record 'p certlib =
  cl_read :: "string \<Rightarrow> string result"            \<comment> \<open>os.ReadFile\<close>
  cl_system :: "'p option"                        \<comment> \<open>x509.SystemCertPool, None on error or nil\<close>
  cl_new :: 'p                                    \<comment> \<open>x509.NewCertPool\<close>
  cl_append :: "'p \<Rightarrow> string \<Rightarrow> 'p option"         \<comment> \<open>AppendCertsFromPEM, None for false\<close>

definition loadCACertPool :: "'p certlib \<Rightarrow> string \<Rightarrow> 'p result" where
  "loadCACertPool cl path =
     (case cl_read cl path of
        Inl e \<Rightarrow> Inl (wrapf (''reading '' @ path @ '': '') e)
      | Inr raw \<Rightarrow>
          (let pool = (case cl_system cl of Some p \<Rightarrow> p | None \<Rightarrow> cl_new cl) in
           case cl_append cl pool raw of
             None \<Rightarrow> Inl (errnew (path @ '': no PEM certificate found''))
           | Some p \<Rightarrow> Inr p))"

definition hasOAuth :: "Server \<Rightarrow> bool" where
  "hasOAuth s = (sOAuthTenant s \<noteq> [] \<or> sOAuthClientID s \<noteq> [] \<or> sOAuthClientSecret s \<noteq> []
     \<or> sOAuthTokenURL s \<noteq> [] \<or> sOAuthScope s \<noteq> [])"

definition validateEWSAuth :: "string \<Rightarrow> Server \<Rightarrow> cfg_error option" where
  "validateEWSAuth name s =
     (if sEWSAuth s \<in> {[], EWSAuthBasic, EWSAuthNTLM} then
        (if hasOAuth s then Some (OAuthUnexpected name)
         else if trim_space (sMasterUser s) = [] \<or> trim_space (sMasterPass s) = [] then Some (EWSMasterUnset name)
         else None)
      else if sEWSAuth s = EWSAuthOAuth2 then
        (if trim_space (sOAuthClientID s) = [] \<or> trim_space (sOAuthClientSecret s) = []
         then Some (OAuthClientUnset name)
         else if trim_space (sOAuthTenant s) = [] \<and> trim_space (sOAuthTokenURL s) = []
         then Some (OAuthTenantUnset name)
         else None)
      else Some (BadEWSAuth name (sEWSAuth s)))"

text \<open>The \<^verbatim>\<open>switch s.Type\<close> of \<^verbatim>\<open>validateServer\<close>.\<close>

definition validateServerType :: "string \<Rightarrow> Server \<Rightarrow> cfg_error option" where
  "validateServerType name s =
     (if sType s \<in> {[], EndpointIMAP} then
        (if trim_space (sHost s) = [] then Some (HostUnset name)
         else if sPort s < 1 \<or> sPort s > 65535 then Some (BadPort name (sPort s))
         else if trim_space (sMasterUser s) = [] then Some (MasterUserUnset name)
         else if trim_space (sMasterPass s) = [] then Some (MasterPassUnset name)
         else None)
      else if sType s = EndpointMaildir then
        (if trim_space (sRoot s) = [] then Some (RootUnset name EndpointMaildir) else None)
      else if sType s = EndpointPST then
        (if trim_space (sRoot s) = [] then Some (RootUnset name EndpointPST) else None)
      else if sType s = EndpointEWS then
        (if trim_space (sEWSUrl s) = [] \<and> trim_space (sHost s) = [] then Some (EWSUrlUnset name)
         else validateEWSAuth name s)
      else Some (BadType name (sType s)))"

definition validateServer :: "utab \<Rightarrow> 'p certlib \<Rightarrow> string \<Rightarrow> Server \<Rightarrow> cfg_error option" where
  "validateServer ut cl name s =
     (case validateServerType name s of Some e \<Rightarrow> Some e | None \<Rightarrow>
      if sType s \<noteq> EndpointEWS \<and> (sEWSAuth s \<noteq> [] \<or> hasOAuth s) then Some (EWSOnlySettings name)
      else case ParseTLSVersion ut (sMinTLSVersion s) of Inl e \<Rightarrow> Some (MinTLS name e) | Inr minV \<Rightarrow>
      (case ParseTLSVersion ut (sMaxTLSVersion s) of Inl e \<Rightarrow> Some (MaxTLS name e) | Inr maxV \<Rightarrow>
       if minV \<noteq> 0 \<and> maxV \<noteq> 0 \<and> minV > maxV
       then Some (TLSOrder name (sMinTLSVersion s) (sMaxTLSVersion s))
       else if trim_space (sCACert s) \<noteq> [] then
         (case loadCACertPool cl (sCACert s) of Inl e \<Rightarrow> Some (CACertError name e) | Inr _ \<Rightarrow> None)
       else None))"

definition readOnlyType :: "string \<Rightarrow> bool" where "readOnlyType t = (t = EndpointPST)"

definition pathOverridable :: "string \<Rightarrow> bool" where
  "pathOverridable t = (t = EndpointMaildir \<or> t = EndpointPST)"

definition folderDiscoverable :: "string \<Rightarrow> bool" where
  "folderDiscoverable t = (t = [] \<or> t = EndpointIMAP \<or> t = EndpointMaildir \<or> t = EndpointPST)"

definition validateBase :: "utab \<Rightarrow> 'p certlib \<Rightarrow> Config \<Rightarrow> cfg_error option" where
  "validateBase ut cl c =
     (case validateServer ut cl ''server_a'' (cServerA c) of Some e \<Rightarrow> Some e | None \<Rightarrow>
      case validateServer ut cl ''server_b'' (cServerB c) of Some e \<Rightarrow> Some e | None \<Rightarrow>
      if cSource c \<noteq> SourceYAML \<and> cSource c \<noteq> SourceSQLite then Some (UnknownSource (cSource c))
      else if cSource c = SourceSQLite \<and> trim_space (cSQLitePath c) = [] then Some (SQLitePathUnset ''source'')
      else if cStateCache c \<and> trim_space (cSQLitePath c) = [] then Some (SQLitePathUnset ''state_cache'')
      else if cDirection c \<notin> {DirectionBoth, DirectionAToB, DirectionBToA}
      then Some (UnknownDirection (cDirection c))
      else if readOnlyType (sType (cServerA c)) \<and> readOnlyType (sType (cServerB c))
      then Some (BothReadOnly (sType (cServerA c)))
      else if readOnlyType (sType (cServerA c)) \<and> cDirection c = DirectionBToA
      then Some (ReadOnlyTarget ''server_a'' (sType (cServerA c)) DirectionBToA)
      else if readOnlyType (sType (cServerB c)) \<and> cDirection c = DirectionAToB
      then Some (ReadOnlyTarget ''server_b'' (sType (cServerB c)) DirectionAToB)
      else if cSyncAllFolders c \<and> \<not> folderDiscoverable (sType (cServerA c))
      then Some (NotDiscoverable ''server_a'' (sType (cServerA c)))
      else if cSyncAllFolders c \<and> \<not> folderDiscoverable (sType (cServerB c))
      then Some (NotDiscoverable ''server_b'' (sType (cServerB c)))
      else if cWorkers c < 1 then Some (BadWorkers (cWorkers c))
      else if cFetchBatchSize c < 1 then Some (BadBatch (cFetchBatchSize c))
      else None)"

fun check_folders :: "nat \<Rightarrow> FolderPair list \<Rightarrow> cfg_error option" where
  "check_folders i [] = None"
| "check_folders i (f # fs) =
     (if trim_space (fpA f) = [] \<or> trim_space (fpB f) = [] then Some (EmptyFolder i (fpA f) (fpB f))
      else check_folders (Suc i) fs)"

fun check_users :: "Config \<Rightarrow> nat \<Rightarrow> string set \<Rightarrow> User list \<Rightarrow> cfg_error option" where
  "check_users c i seen [] = None"
| "check_users c i seen (u # us) =
     (if trim_space (uName u) = [] then Some (EmptyUserName i)
      else if trim_space (uUserA u) = [] \<or> trim_space (uUserB u) = [] then Some (EmptyUserAddr i (uName u))
      else if uPathA u \<noteq> [] \<and> \<not> pathOverridable (sType (cServerA c)) then Some (PathNotAllowed i (uName u) ''path_a'')
      else if uPathB u \<noteq> [] \<and> \<not> pathOverridable (sType (cServerB c)) then Some (PathNotAllowed i (uName u) ''path_b'')
      else if uName u \<in> seen then Some (DuplicateUser i (uName u))
      else check_users c (Suc i) (insert (uName u) seen) us)"

definition ValidateEntities :: "Config \<Rightarrow> cfg_error option" where
  "ValidateEntities c =
     (if cFolders c = [] \<and> \<not> cSyncAllFolders c then Some NoFolders
      else case check_folders 0 (cFolders c) of Some e \<Rightarrow> Some e | None \<Rightarrow>
      if cUsers c = [] then Some NoUsers
      else case check_users c 0 {} (cUsers c) of Some e \<Rightarrow> Some e | None \<Rightarrow>
      if cWorkers c \<ge> int (length (cUsers c)) \<and> length (cUsers c) > 1
      then Some (TooManyWorkers (cWorkers c) (length (cUsers c)))
      else None)"

section \<open>Loading\<close>

definition Load :: "utab \<Rightarrow> 'p certlib \<Rightarrow> (string \<Rightarrow> Config result) \<Rightarrow> string \<Rightarrow> cfg_error + Config" where
  "Load ut cl decode path =
     (case cl_read cl path of Inl e \<Rightarrow> Inl (ReadFailed e) | Inr raw \<Rightarrow>
      case decode raw of Inl e \<Rightarrow> Inl (ParseFailed e) | Inr cfg0 \<Rightarrow>
      (let cfg = applyDefaults cfg0 in
       case validateBase ut cl cfg of Some e \<Rightarrow> Inl e | None \<Rightarrow>
       if cSource cfg = SourceYAML
       then (case ValidateEntities cfg of Some e \<Rightarrow> Inl e | None \<Rightarrow> Inr cfg)
       else Inr cfg))"

definition LoadEntitiesOnly :: "'p certlib \<Rightarrow> (string \<Rightarrow> Config result) \<Rightarrow> string \<Rightarrow> cfg_error + Config" where
  "LoadEntitiesOnly cl decode path =
     (case cl_read cl path of Inl e \<Rightarrow> Inl (ReadFailed e) | Inr raw \<Rightarrow>
      case decode raw of Inl e \<Rightarrow> Inl (ParseFailed e) | Inr cfg \<Rightarrow>
      if cFolders cfg = [] \<and> cUsers cfg = [] then Inl NothingToImport else Inr cfg)"

section \<open>Connection settings\<close>

record 'p tls_config =
  tServerName :: string
  tInsecureSkipVerify :: bool
  tMinVersion :: nat
  tMaxVersion :: nat
  tRootCAs :: "'p option"

definition TLSConfig :: "utab \<Rightarrow> 'p certlib \<Rightarrow> Server \<Rightarrow> bool \<Rightarrow> cfg_error + 'p tls_config" where
  "TLSConfig ut cl s insecureTLS =
     (case ParseTLSVersion ut (sMinTLSVersion s) of Inl e \<Rightarrow> Inl (MinTLS [] e) | Inr minV \<Rightarrow>
      case ParseTLSVersion ut (sMaxTLSVersion s) of Inl e \<Rightarrow> Inl (MaxTLS [] e) | Inr maxV \<Rightarrow>
      (let cfg = \<lparr>tServerName = sHost s, tInsecureSkipVerify = insecureTLS,
                  tMinVersion = minV, tMaxVersion = maxV, tRootCAs = None\<rparr> in
       if trim_space (sCACert s) \<noteq> [] then
         (case loadCACertPool cl (sCACert s) of
            Inl e \<Rightarrow> Inl (CACertError [] e)
          | Inr pool \<Rightarrow> Inr (cfg\<lparr>tRootCAs := Some pool\<rparr>))
       else Inr cfg))"

definition Addr :: "Server \<Rightarrow> string" where
  "Addr s =
     (if sType s = EndpointMaildir then ''maildir:'' @ sRoot s
      else if sType s = EndpointPST then ''pst:'' @ sRoot s
      else if sType s = EndpointEWS then (if sEWSUrl s \<noteq> [] then sEWSUrl s else ''ews:'' @ sHost s)
      else sHost s @ '':'' @ itoa (sPort s))"

section \<open>What an accepted configuration guarantees\<close>

text \<open>The entity checks as predicates on the lists, instead of loops that stop at the first error.\<close>

definition folder_ok :: "FolderPair \<Rightarrow> bool" where
  "folder_ok f = (trim_space (fpA f) \<noteq> [] \<and> trim_space (fpB f) \<noteq> [])"

definition user_ok :: "Config \<Rightarrow> User \<Rightarrow> bool" where
  "user_ok c u = (trim_space (uName u) \<noteq> [] \<and> trim_space (uUserA u) \<noteq> [] \<and> trim_space (uUserB u) \<noteq> []
     \<and> (uPathA u \<noteq> [] \<longrightarrow> pathOverridable (sType (cServerA c)))
     \<and> (uPathB u \<noteq> [] \<longrightarrow> pathOverridable (sType (cServerB c))))"

lemma check_folders_None:
  "check_folders i fs = None \<longleftrightarrow> list_all folder_ok fs"
  by (induction i fs rule: check_folders.induct) (auto simp: folder_ok_def)

lemma check_users_None:
  "check_users c i seen us = None \<longleftrightarrow>
     list_all (user_ok c) us \<and> distinct (map uName us) \<and> seen \<inter> uName ` set us = {}"
  by (induction c i seen us rule: check_users.induct) (auto simp: user_ok_def)

lemma dflt_idem [simp]: "d \<noteq> 0 \<Longrightarrow> dflt d (dflt d x) = dflt d x"
  by (simp add: dflt_def)

lemma dflt_str_idem [simp]: "d \<noteq> [] \<Longrightarrow> dflt_str d (dflt_str d x) = dflt_str d x"
  by (simp add: dflt_str_def)

lemma applyDefaults_idem: "applyDefaults (applyDefaults c) = applyDefaults c"
  by (simp add: applyDefaults_def source_names direction_names)

lemma ParseTLSVersion_range:
  "ParseTLSVersion ut raw = Inr v \<Longrightarrow> v \<in> {0, 0x0301, 0x0302, 0x0303, 0x0304}"
  by (auto simp: ParseTLSVersion_def Let_def split: if_splits)

lemma loadCACertPool_ok:
  "loadCACertPool cl path = Inr pool \<Longrightarrow>
     \<exists>raw base. cl_read cl path = Inr raw \<and> base = (case cl_system cl of Some p \<Rightarrow> p | None \<Rightarrow> cl_new cl)
       \<and> cl_append cl base raw = Some pool"
  by (auto simp: loadCACertPool_def Let_def split: sum.splits option.splits)

lemma validateBase_ok:
  assumes "validateBase ut cl c = None"
  shows "validateServer ut cl ''server_a'' (cServerA c) = None"
    "validateServer ut cl ''server_b'' (cServerB c) = None"
    "cSource c \<in> {SourceYAML, SourceSQLite}"
    "cSource c = SourceSQLite \<or> cStateCache c \<Longrightarrow> trim_space (cSQLitePath c) \<noteq> []"
    "cDirection c \<in> {DirectionBoth, DirectionAToB, DirectionBToA}"
    "cWorkers c \<ge> 1" "cFetchBatchSize c \<ge> 1"
    "cSyncAllFolders c \<Longrightarrow> folderDiscoverable (sType (cServerA c)) \<and> folderDiscoverable (sType (cServerB c))"
    "\<not> (readOnlyType (sType (cServerA c)) \<and> readOnlyType (sType (cServerB c)))"
    "readOnlyType (sType (cServerA c)) \<Longrightarrow> cDirection c \<noteq> DirectionBToA"
    "readOnlyType (sType (cServerB c)) \<Longrightarrow> cDirection c \<noteq> DirectionAToB"
  using assms unfolding validateBase_def by (simp_all split: option.splits if_splits) blast

text \<open>A configuration that passes the base validation always leaves at least one direction in which a
  copy is both asked for and possible: the direction setting allows it and its target is not a
  read-only kind of endpoint.\<close>
theorem validated_direction:
  assumes "validateBase ut cl c = None"
  shows "cDirection c \<noteq> DirectionBToA \<and> \<not> readOnlyType (sType (cServerB c))
       \<or> cDirection c \<noteq> DirectionAToB \<and> \<not> readOnlyType (sType (cServerA c))"
  using validateBase_ok(5,9,10,11) [OF assms] by (auto simp: direction_names)


text \<open>the server settings that passed validation give a TLS configuration: \<open>TLSConfig\<close> does not fail on
  them, its version bounds are 0 (no bound) or TLS 1.0 to 1.3 and are not contradictory, the
  certificate check is switched off only by \<^verbatim>\<open>insecure_tls\<close>, and a private root set is installed exactly
  when \<^verbatim>\<open>ca_cert\<close> is set.\<close>
theorem validated_TLSConfig:
  assumes "validateServer ut cl name s = None"
  shows "\<exists>t. TLSConfig ut cl s insec = Inr t
    \<and> tMinVersion t \<in> {0, 0x0301, 0x0302, 0x0303, 0x0304}
    \<and> tMaxVersion t \<in> {0, 0x0301, 0x0302, 0x0303, 0x0304}
    \<and> (tMinVersion t = 0 \<or> tMaxVersion t = 0 \<or> tMinVersion t \<le> tMaxVersion t)
    \<and> tServerName t = sHost s \<and> tInsecureSkipVerify t = insec
    \<and> (tRootCAs t \<noteq> None) = (trim_space (sCACert s) \<noteq> [])"
proof -
  obtain minV maxV where v:
    "ParseTLSVersion ut (sMinTLSVersion s) = Inr minV" "ParseTLSVersion ut (sMaxTLSVersion s) = Inr maxV"
    "minV = 0 \<or> maxV = 0 \<or> minV \<le> maxV"
    "trim_space (sCACert s) \<noteq> [] \<longrightarrow> (\<exists>pool. loadCACertPool cl (sCACert s) = Inr pool)"
    using assms unfolding validateServer_def
    by (fastforce split: option.splits if_splits sum.splits)
  note ranges = ParseTLSVersion_range [OF v(1)] ParseTLSVersion_range [OF v(2)]
  show ?thesis
  proof (cases "trim_space (sCACert s) = []")
    case True
    then show ?thesis
      using v(1-3) ranges by (simp add: TLSConfig_def Let_def)
  next
    case False
    then obtain pool where "loadCACertPool cl (sCACert s) = Inr pool"
      using v(4) by blast
    then show ?thesis
      using v(1-3) ranges False by (simp add: TLSConfig_def Let_def)
  qed
qed

text \<open>What \<open>Load\<close> returns: a configuration in which the defaults are already applied, with at least one
  worker and a positive batch size, a database path whenever one is needed, and, when the lists come
  from the file itself, entities that pass \<open>ValidateEntities\<close>.\<close>
theorem Load_ok:
  assumes "Load ut cl decode path = Inr c"
  shows "applyDefaults c = c \<and> validateBase ut cl c = None
    \<and> cWorkers c \<ge> 1 \<and> cFetchBatchSize c \<ge> 1 \<and> cHashHeader c \<noteq> []
    \<and> (trim_space (cSQLitePath c) \<noteq> [] \<or> cSource c = SourceYAML \<and> \<not> cStateCache c)
    \<and> (ValidateEntities c = None \<or> cSource c = SourceSQLite)"
proof -
  obtain c0 where c: "c = applyDefaults c0" and base: "validateBase ut cl c = None"
    and ents: "cSource c = SourceYAML \<Longrightarrow> ValidateEntities c = None"
    using assms unfolding Load_def Let_def by (auto split: sum.splits option.splits if_splits)
  have "cHashHeader c \<noteq> []"
    by (simp add: c applyDefaults_def dflt_str_def)
  then show ?thesis
    using validateBase_ok(3,4,6,7) [OF base] applyDefaults_idem base ents unfolding c by auto
qed

text \<open>No loaded configuration has zero connection retries or a zero full-resync period: a zero written
  in the file is replaced by the default (3 retries, 24 hours), so the documented meanings of 0
  (\<^verbatim>\<open>no retries\<close>, \<^verbatim>\<open>never\<close>) cannot be configured; the other values are kept.\<close>
theorem Load_zero_is_default:
  "cConnectRetries (applyDefaults c) \<noteq> 0 \<and> cFullResyncEvery (applyDefaults c) \<noteq> 0
   \<and> cConnectRetries (applyDefaults c) = (if cConnectRetries c = 0 then 3 else cConnectRetries c)
   \<and> cFullResyncEvery (applyDefaults c) = (if cFullResyncEvery c = 0 then 86400 * second else cFullResyncEvery c)"
  by (simp add: applyDefaults_def dflt_def)

section \<open>Examples\<close>

definition srv_ex :: "string \<Rightarrow> Server" where
  "srv_ex t = \<lparr>sType = t, sHost = ''h'', sPort = 993, sMasterUser = ''m'', sMasterPass = ''p'', sRoot = ''r'',
     sEWSUrl = [], sMinTLSVersion = ''1.2'', sMaxTLSVersion = ''1.3'', sCACert = [], sEWSAuth = [],
     sOAuthTenant = [], sOAuthClientID = [], sOAuthClientSecret = [], sOAuthTokenURL = [], sOAuthScope = []\<rparr>"

definition cfg_ex :: Config where
  "cfg_ex = \<lparr>cServerA = srv_ex ''pst'', cServerB = srv_ex ''maildir'', cSource = [], cSQLitePath = [],
     cFolders = [\<lparr>fpA = ''i'', fpB = ''j''\<rparr>],
     cUsers = [\<lparr>uName = ''u'', uUserA = ''a'', uUserB = ''b'', uPathA = [], uPathB = []\<rparr>],
     cSyncAllFolders = False, cFolderExclude = [], cWorkers = 1, cSyncInterval = 0, cStatsInterval = 0,
     cPerUserTimeout = 0, cDialTimeout = 0, cIOTimeout = 0, cFetchBatchSize = 0, cInsecureTLS = False,
     cDebug = False, cConnectRetries = 0, cRetryBackoff = 0, cFullResyncEvery = 0, cMaxFailStreak = 0,
     cHashHeader = [], cStateCache = False, cDirection = []\<rparr>"

definition certs_ex :: "nat certlib" where
  "certs_ex = \<lparr>cl_read = \<lambda>_. Inr ''c'', cl_system = None, cl_new = 0, cl_append = \<lambda>p _. Some (Suc p)\<rparr>"

lemma validate_srv_ex [simp]:
  "t \<in> {''pst'', ''maildir''} \<Longrightarrow> validateServer ut_ex certs_ex nm (srv_ex t) = None"
  by (auto simp: validateServer_def validateServerType_def srv_ex_def endpoint_names hasOAuth_def ParseTLSVersion_def
      trim_space_plain plain_chars_def to_lower_ascii ascii_def ascii_lower_def Let_def ut_ex_def char_of_def bit_0)

lemma srv_ex_sel [simp]: "sType (srv_ex t) = t" "sPort (srv_ex t) = 993" "(srv_ex t)\<lparr>sPort := 993\<rparr> = srv_ex t"
  by (simp_all add: srv_ex_def)

lemma validate_cfg_ex: "validateBase ut_ex certs_ex (applyDefaults cfg_ex) = None"
  by (simp add: validateBase_def applyDefaults_def cfg_ex_def dflt_def dflt_str_def readOnlyType_def
      direction_names source_names endpoint_names)

lemma entities_cfg_ex: "ValidateEntities (applyDefaults cfg_ex) = None"
  by (simp add: ValidateEntities_def applyDefaults_def cfg_ex_def
      trim_space_plain plain_chars_def char_of_def bit_0 dflt_def)

lemma load_cfg_ex: "Load ut_ex certs_ex (\<lambda>_. Inr cfg_ex) ''f'' = Inr (applyDefaults cfg_ex)"
proof -
  have "cl_read certs_ex ''f'' = Inr ''c''"
    by (simp add: certs_ex_def)
  then show ?thesis
    by (simp add: Load_def Let_def validate_cfg_ex entities_cfg_ex)
qed


end
