(* ===== verification/Endpoint.thy ===== *)
theory Endpoint
  imports Message Config
begin

text \<open>
  Package \<^verbatim>\<open>endpoint\<close>, the interface (\<^verbatim>\<open>internal/endpoint/endpoint.go\<close>): message metadata, literals, the
  \<^verbatim>\<open>Endpoint\<close> and \<^verbatim>\<open>Backend\<close> interfaces as records of operations on the state of one side, the backend
  dispatch and the tagging of a literal. The contract the synchronizer relies on is the locale
  \<open>mail_endpoint\<close>, interpreted on the transports that are modelled.
\<close>

section \<open>Data\<close>

record EMessage =
  mID :: string
  mFlags :: "string list"
  mInternalDate :: time
  mSize :: "32 word"
  mHeader :: string

text \<open>A literal: a \<^verbatim>\<open>*bytes.Buffer\<close>, or the \<^verbatim>\<open>prefixedLiteral\<close> that \<^verbatim>\<open>WithHeader\<close> makes.\<close>

datatype Literal = Buffer string | Prefixed string Literal

fun lit_read :: "Literal \<Rightarrow> string" where
  "lit_read (Buffer d) = d"
| "lit_read (Prefixed h l) = h @ lit_read l"

fun lit_len :: "Literal \<Rightarrow> nat" where
  "lit_len (Buffer d) = length d"
| "lit_len (Prefixed h l) = length h + lit_len l"

record FolderInfo =
  fiName :: string
  fiSpecialUse :: string
  fiSelectable :: bool

text \<open>
  An \<^verbatim>\<open>Endpoint\<close> value: its methods over the state \<open>'e\<close> of its side (the remote store and the
  session's own fields). \<^verbatim>\<open>FetchMeta\<close> takes \<open>None\<close> for a nil slice. The optional interfaces
  \<^verbatim>\<open>FolderLister\<close> and \<^verbatim>\<open>FolderCreator\<close> are options, \<open>None\<close> when the type assertion fails.
\<close>

record 'e Endpoint =
  epSelect :: "string \<Rightarrow> 'e \<Rightarrow> (string \<times> string) result \<times> 'e"
  epListIDs :: "'e \<Rightarrow> string list result \<times> 'e"
  epFetchMeta :: "string list option \<Rightarrow> 'e \<Rightarrow> EMessage list result \<times> 'e"
  epOpen :: "string \<Rightarrow> 'e \<Rightarrow> Literal result \<times> 'e"
  epAppend :: "string list \<Rightarrow> time \<Rightarrow> Literal \<Rightarrow> 'e \<Rightarrow> string result \<times> 'e"
  epReadOnly :: bool
  epClose :: "'e \<Rightarrow> 'e"
  epListFolders :: "('e \<Rightarrow> FolderInfo list result \<times> 'e) option"
  epCreateFolder :: "(string \<Rightarrow> 'e \<Rightarrow> goerr option \<times> 'e) option"

record 'e Backend =
  bConnect :: "string \<Rightarrow> 'e \<Rightarrow> 'e Endpoint result \<times> 'e"
  bAddr :: string

section \<open>Operations\<close>

definition NewBackend :: "utab \<Rightarrow> (Server \<Rightarrow> 'b) \<Rightarrow> (Server \<Rightarrow> 'b) \<Rightarrow> (Server \<Rightarrow> 'b) \<Rightarrow> (Server \<Rightarrow> 'b) \<Rightarrow> Server \<Rightarrow> 'b result" where
  "NewBackend ut newIMAP newMaildir newEWS newPST srv =
     (if sType srv = [] \<or> sType srv = EndpointIMAP then Inr (newIMAP srv)
      else if sType srv = EndpointMaildir then Inr (newMaildir srv)
      else if sType srv = EndpointEWS then Inr (newEWS srv)
      else if sType srv = EndpointPST then Inr (newPST srv)
      else Inl (errnew (''endpoint type '' @ quote_str ut (sType srv) @ '' is not supported ('' @ quote_str ut EndpointIMAP
        @ '', '' @ quote_str ut EndpointMaildir @ '', '' @ quote_str ut EndpointEWS @ '', '' @ quote_str ut EndpointPST @ '')'')))"

definition WithHeader :: "utab \<Rightarrow> Literal \<Rightarrow> string \<Rightarrow> string \<Rightarrow> Literal" where
  "WithHeader ut body name val =
     (case body of
        Buffer buf \<Rightarrow> if HasHeader ut buf name then body else Prefixed (tag_line name val) body
      | Prefixed _ _ \<Rightarrow> Prefixed (tag_line name val) body)"

lemma lit_len_read [simp]: "lit_len l = length (lit_read l)"
  by (induction l) auto


text \<open>A server whose settings passed validation always gets a backend, of the kind its type names, so
  building the synchronizer from a loaded configuration never panics.\<close>
theorem validated_backend:
  assumes "validateServer ut cl name s = None"
  shows "\<exists>b. NewBackend ut' im md ew ps s = Inr b
    \<and> b = (if sType s = EndpointMaildir then md s else if sType s = EndpointPST then ps s
           else if sType s = EndpointEWS then ew s else im s)"
proof -
  have "sType s \<in> {[], EndpointIMAP, EndpointMaildir, EndpointPST, EndpointEWS}"
    using assms unfolding validateServer_def validateServerType_def by (auto split: option.splits if_splits)
  then show ?thesis
    by (auto simp: NewBackend_def endpoint_names)
qed

section \<open>The contract of an endpoint\<close>

text \<open>
  What the synchronizer relies on. \<open>mail s (f, i)\<close> is the message with ID \<open>i\<close> in folder \<open>f\<close> of the side;
  \<open>cur s\<close> is the selected folder. No operation changes or removes a message, and a successful append
  stores exactly the bytes of the literal as a new message of the selected folder; an append that fails may
  still have stored something (a server whose answer was lost).
\<close>

locale mail_endpoint =
  fixes ep :: "'e Endpoint"
    and inv :: "'e \<Rightarrow> bool"
    and mail :: "'e \<Rightarrow> 'f \<times> string \<Rightarrow> string option"
    and cur :: "'e \<Rightarrow> 'f option"
  assumes select_mail: "inv s \<Longrightarrow> epSelect ep n s = (rs, s') \<Longrightarrow> inv s' \<and> mail s' = mail s"
    and list_mail: "inv s \<Longrightarrow> epListIDs ep s = (rl, s') \<Longrightarrow> inv s' \<and> mail s' = mail s \<and> cur s' = cur s"
    and fetch_mail: "inv s \<Longrightarrow> epFetchMeta ep ids s = (rf, s') \<Longrightarrow> inv s' \<and> mail s' = mail s \<and> cur s' = cur s"
    and open_mail: "inv s \<Longrightarrow> epOpen ep i s = (ro, s') \<Longrightarrow> inv s' \<and> mail s' = mail s \<and> cur s' = cur s"
    and append_fail: "inv s \<Longrightarrow> epAppend ep fl d lit s = (Inl e, s') \<Longrightarrow> inv s' \<and> mail s \<subseteq>\<^sub>m mail s' \<and> cur s' = cur s"
    and append_ok: "inv s \<Longrightarrow> epAppend ep fl d lit s = (Inr i, s') \<Longrightarrow>
        inv s' \<and> cur s' = cur s \<and> (\<exists>f j. cur s = Some f \<and> mail s (f, j) = None \<and> mail s' = (mail s)((f, j) \<mapsto> lit_read lit)
          \<and> (i = j \<or> i = []))"
    and close_mail: "inv s \<Longrightarrow> inv (epClose ep s) \<and> mail (epClose ep s) = mail s"
    and folders_mail: "inv s \<Longrightarrow> epListFolders ep = Some lf \<Longrightarrow> lf s = (ri, s') \<Longrightarrow> inv s' \<and> mail s' = mail s"
    and create_mail: "inv s \<Longrightarrow> epCreateFolder ep = Some cf \<Longrightarrow> cf n s = (rc, s') \<Longrightarrow> inv s' \<and> mail s' = mail s"
begin

lemma append_grows:
  "inv s \<Longrightarrow> epAppend ep fl d lit s = (r, s') \<Longrightarrow> inv s' \<and> mail s \<subseteq>\<^sub>m mail s' \<and> cur s' = cur s"
  using append_fail [of s fl d lit _ s'] append_ok [of s fl d lit _ s']
  by (cases r) (auto simp: map_le_def)

end

text \<open>
  A session that is \<open>ready\<close> (a folder is selected and its listing is current) reads exactly what is
  stored: the listing has every message of the folder once, the header it gives parses like the
  message, and opening a message gives its bytes.
\<close>

locale exact_endpoint = mail_endpoint +
  fixes ready :: "'e \<Rightarrow> bool"
  assumes ready_cur: "ready s \<Longrightarrow> cur s \<noteq> None"
    and select_ready: "inv s \<Longrightarrow> epSelect ep n s = (Inr x, s') \<Longrightarrow> ready s'"
    and fetch_ready: "inv s \<Longrightarrow> ready s \<Longrightarrow> epFetchMeta ep ids s = (rf, s') \<Longrightarrow> ready s'"
    and open_ready: "inv s \<Longrightarrow> ready s \<Longrightarrow> epOpen ep i s = (ro, s') \<Longrightarrow> ready s'"
    and append_ready: "inv s \<Longrightarrow> ready s \<Longrightarrow> epAppend ep fl d lit s = (ra, s') \<Longrightarrow> ready s'"
    and fetch_all: "inv s \<Longrightarrow> ready s \<Longrightarrow> epFetchMeta ep None s = (Inr ms, s') \<Longrightarrow>
        distinct (map mID ms) \<and> set (map mID ms) = {i. mail s (the (cur s), i) \<noteq> None}"
    and list_ready: "inv s \<Longrightarrow> ready s \<Longrightarrow> epListIDs ep s = (rl, s') \<Longrightarrow> ready s'"
    and list_exact: "inv s \<Longrightarrow> ready s \<Longrightarrow> epListIDs ep s = (Inr li, s') \<Longrightarrow>
        distinct li \<and> set li = {i. mail s (the (cur s), i) \<noteq> None}"
    and fetch_some: "inv s \<Longrightarrow> ready s \<Longrightarrow> li \<noteq> [] \<Longrightarrow> epFetchMeta ep (Some li) s = (Inr ms, s') \<Longrightarrow>
        set (map mID ms) = {i \<in> set li. mail s (the (cur s), i) \<noteq> None}"
    and fetch_header: "inv s \<Longrightarrow> ready s \<Longrightarrow> epFetchMeta ep ids s = (Inr ms, s') \<Longrightarrow> m \<in> set ms \<Longrightarrow>
        \<exists>data. mail s (the (cur s), mID m) = Some data \<and> ParseFields g (mHeader m) hh = ParseFields g data hh"
    and open_data: "inv s \<Longrightarrow> ready s \<Longrightarrow> epOpen ep i s = (Inr lit, s') \<Longrightarrow>
        \<exists>data. mail s (the (cur s), i) = Some data \<and> lit = Buffer data"

end
