(* ===== verification/Dedup.thy ===== *)
theory Dedup
  imports Endpoint
begin

text \<open>
  Package \<^verbatim>\<open>dedup\<close> (\<^verbatim>\<open>internal/dedup/index.go\<close>): the index of a folder by match keys and the two deltas.
  The lemmas describe an index by its entries, whose key sets are pairwise disjoint, and show what a
  second delta finds after copies have been added to either side.
\<close>

section \<open>Data and operations\<close>

record Entry =
  enID :: string
  enFlags :: "string list"
  enInternalDate :: time
  enSize :: "32 word"
  enMsgID :: string
  enSurrogate :: string
  enKeys :: "string list"

record Input =
  inID :: string
  inFlags :: "string list"
  inInternalDate :: time
  inSize :: "32 word"
  inMsgID :: string
  inXHash :: string
  inSurrogate :: string
  inKeys :: "string list"

record Index =
  ixByKey :: "string \<rightharpoonup> Entry"
  ixEntries :: "Entry list"
  ixDups :: nat

definition Len :: "Index \<Rightarrow> nat" where "Len idx = length (ixEntries idx)"

definition Dups :: "Index \<Rightarrow> nat" where "Dups idx = ixDups idx"

fun has :: "Index \<Rightarrow> string list \<Rightarrow> bool" where
  "has idx [] = False"
| "has idx (k # ks) = (case ixByKey idx k of Some _ \<Rightarrow> True | None \<Rightarrow> has idx ks)"

definition ParseMessage :: "golib \<Rightarrow> EMessage \<Rightarrow> string \<Rightarrow> Input result" where
  "ParseMessage g m hashHeader =
     (case ParseFields g (mHeader m) hashHeader of
        Inl e \<Rightarrow> Inl (wrapf (''message id='' @ mID m @ '': '') e)
      | Inr f \<Rightarrow>
          (let sur = SurrogateHash g f in
           Inr \<lparr>inID = mID m, inFlags = mFlags m, inInternalDate = mInternalDate m, inSize = mSize m,
                inMsgID = fMessageID f, inXHash = fHashHdr f, inSurrogate = sur,
                inKeys = MatchKeysFrom (fMessageID f) (fHashHdr f) sur\<rparr>))"

definition Keys :: "string \<Rightarrow> string \<Rightarrow> string \<Rightarrow> string list" where
  "Keys msgID xhash surrogate = MatchKeysFrom msgID xhash surrogate"

definition entry_of :: "Input \<Rightarrow> Entry" where
  "entry_of i = \<lparr>enID = inID i, enFlags = inFlags i, enInternalDate = inInternalDate i, enSize = inSize i,
     enMsgID = inMsgID i, enSurrogate = inSurrogate i, enKeys = inKeys i\<rparr>"

fun put_keys :: "Entry \<Rightarrow> string list \<Rightarrow> (string \<rightharpoonup> Entry) \<Rightarrow> (string \<rightharpoonup> Entry)" where
  "put_keys e [] m = m"
| "put_keys e (k # ks) m = put_keys e ks (m(k \<mapsto> e))"

definition idx_step :: "Index \<Rightarrow> Input \<Rightarrow> Index" where
  "idx_step idx i =
     (if has idx (inKeys i) then idx\<lparr>ixDups := ixDups idx + 1\<rparr>
      else let e = entry_of i in
        idx\<lparr>ixEntries := ixEntries idx @ [e], ixByKey := put_keys e (enKeys e) (ixByKey idx)\<rparr>)"

definition empty_index :: Index where
  "empty_index = \<lparr>ixByKey = (\<lambda>_. None), ixEntries = [], ixDups = 0\<rparr>"

definition BuildFrom :: "Input list \<Rightarrow> Index" where
  "BuildFrom inputs = foldl idx_step empty_index inputs"

fun parse_all :: "golib \<Rightarrow> string \<Rightarrow> EMessage list \<Rightarrow> Input list \<times> goerr list" where
  "parse_all g hh [] = ([], [])"
| "parse_all g hh (m # ms) =
     (let (ins, errs) = parse_all g hh ms in
      case ParseMessage g m hh of Inl e \<Rightarrow> (ins, e # errs) | Inr i \<Rightarrow> (i # ins, errs))"

definition Build :: "golib \<Rightarrow> EMessage list \<Rightarrow> string \<Rightarrow> Index \<times> goerr list" where
  "Build g msgs hashHeader = (let (inputs, errs) = parse_all g hashHeader msgs in (BuildFrom inputs, errs))"

definition Missing :: "Index \<Rightarrow> Index \<Rightarrow> Entry list" where
  "Missing src dst = filter (\<lambda>e. \<not> has dst (enKeys e)) (ixEntries src)"

definition Delta :: "Index \<Rightarrow> Index \<Rightarrow> Entry list \<times> Entry list" where
  "Delta a b = (Missing a b, Missing b a)"

section \<open>The index invariant\<close>

definition ekeys :: "Entry \<Rightarrow> string set" where "ekeys e = set (enKeys e)"

definition keys_of :: "Entry list \<Rightarrow> string set" where "keys_of es = (\<Union>e\<in>set es. ekeys e)"

text \<open>No two positions of the list share a key.\<close>

fun disjoint_keys :: "Entry list \<Rightarrow> bool" where
  "disjoint_keys [] = True"
| "disjoint_keys (e # es) = ((\<forall>x\<in>set es. ekeys e \<inter> ekeys x = {}) \<and> disjoint_keys es)"

definition index_inv :: "Index \<Rightarrow> bool" where
  "index_inv idx = (dom (ixByKey idx) = keys_of (ixEntries idx)
     \<and> (\<forall>k e. ixByKey idx k = Some e \<longrightarrow> e \<in> set (ixEntries idx) \<and> k \<in> ekeys e)
     \<and> disjoint_keys (ixEntries idx))"

lemma keys_of_simps [simp]:
  "keys_of [] = {}" "keys_of (e # es) = ekeys e \<union> keys_of es" "keys_of (es @ fs) = keys_of es \<union> keys_of fs"
  by (auto simp: keys_of_def)

lemma has_iff: "has idx ks \<longleftrightarrow> set ks \<inter> dom (ixByKey idx) \<noteq> {}"
  by (induction idx ks rule: has.induct) (auto split: option.splits)

lemma put_keys_apply: "put_keys e ks m k = (if k \<in> set ks then Some e else m k)"
  by (induction ks arbitrary: m) auto

lemma disjoint_keys_append:
  "disjoint_keys (es @ fs) \<longleftrightarrow> disjoint_keys es \<and> disjoint_keys fs \<and> keys_of es \<inter> keys_of fs = {}"
  by (induction es) (auto simp: keys_of_def)

lemma disjoint_keysD:
  "disjoint_keys es \<Longrightarrow> x \<in> set es \<Longrightarrow> y \<in> set es \<Longrightarrow> x \<noteq> y \<Longrightarrow> ekeys x \<inter> ekeys y = {}"
  by (induction es) (auto simp: disjoint_iff)

lemma disjoint_keys_mset:
  "mset es = mset fs \<Longrightarrow> disjoint_keys es \<Longrightarrow> disjoint_keys fs"
proof (induction es arbitrary: fs)
  case Nil
  then show ?case by simp
next
  case (Cons e es)
  then have "e \<in> set fs"
    by (metis list.set_intros(1) set_mset_mset)
  then obtain f1 f2 where fs: "fs = f1 @ e # f2"
    by (auto simp: in_set_conv_decomp)
  have m: "mset es = mset (f1 @ f2)"
    using Cons.prems(1) by (simp add: fs)
  then have "disjoint_keys (f1 @ f2)"
    using Cons.IH Cons.prems(2) by simp
  moreover have "\<forall>x\<in>set (f1 @ f2). ekeys e \<inter> ekeys x = {}"
    using Cons.prems(2) m by (metis disjoint_keys.simps(2) set_mset_mset)
  ultimately show ?case
    by (auto simp: fs disjoint_keys_append keys_of_def)
qed

lemma entry_of_keys [simp]: "enKeys (entry_of i) = inKeys i" "ekeys (entry_of i) = set (inKeys i)"
  by (simp_all add: entry_of_def ekeys_def)

lemma idx_step_inv: "index_inv idx \<Longrightarrow> index_inv (idx_step idx i)"
  unfolding index_inv_def idx_step_def Let_def
  by (auto simp: has_iff put_keys_apply disjoint_keys_append dom_def split: if_splits)

lemma empty_index_inv: "index_inv empty_index"
  by (simp add: index_inv_def empty_index_def dom_def)

lemma foldl_idx_step_inv: "index_inv idx \<Longrightarrow> index_inv (foldl idx_step idx is)"
  by (induction "is" arbitrary: idx) (auto simp: idx_step_inv)

lemma BuildFrom_inv: "index_inv (BuildFrom is)"
  by (simp add: BuildFrom_def foldl_idx_step_inv empty_index_inv)

lemma has_keys_of: "index_inv idx \<Longrightarrow> has idx ks \<longleftrightarrow> set ks \<inter> keys_of (ixEntries idx) \<noteq> {}"
  by (simp add: has_iff index_inv_def)

lemma BuildFrom_append: "BuildFrom (xs @ ys) = foldl idx_step (BuildFrom xs) ys"
  by (simp add: BuildFrom_def)

lemma Missing_eq:
  "index_inv dst \<Longrightarrow> Missing src dst = filter (\<lambda>e. ekeys e \<inter> keys_of (ixEntries dst) = {}) (ixEntries src)"
  by (simp add: Missing_def has_keys_of ekeys_def)

text \<open>Inputs that share no key with the index or with each other are all added.\<close>

lemma foldl_disjoint:
  assumes "index_inv idx" and "disjoint_keys (ixEntries idx @ map entry_of is)"
  shows "ixEntries (foldl idx_step idx is) = ixEntries idx @ map entry_of is \<and> ixDups (foldl idx_step idx is) = ixDups idx"
  using assms
proof (induction "is" arbitrary: idx)
  case Nil
  then show ?case by simp
next
  case (Cons i "is")
  have "\<not> has idx (inKeys i)"
    using Cons.prems by (auto simp: has_keys_of disjoint_keys_append)
  then have step: "ixEntries (idx_step idx i) = ixEntries idx @ [entry_of i]" "ixDups (idx_step idx i) = ixDups idx"
    by (simp_all add: idx_step_def Let_def)
  show ?case
    using Cons.IH [OF idx_step_inv [OF Cons.prems(1), of i]] Cons.prems(2) step by simp
qed

lemma BuildFrom_disjoint:
  "disjoint_keys (map entry_of is) \<Longrightarrow> ixEntries (BuildFrom is) = map entry_of is \<and> Dups (BuildFrom is) = 0"
  using foldl_disjoint [OF empty_index_inv, of "is"] by (simp add: BuildFrom_def empty_index_def Dups_def)

lemma BuildFrom_count: "Len (BuildFrom is) + Dups (BuildFrom is) = length is"
proof -
  have "length (ixEntries (foldl idx_step idx is)) + ixDups (foldl idx_step idx is)
      = length (ixEntries idx) + ixDups idx + length is" for idx
    by (induction "is" arbitrary: idx) (auto simp: idx_step_def Let_def)
  then show ?thesis
    by (simp add: BuildFrom_def Len_def Dups_def empty_index_def)
qed

lemma foldl_entries_subset:
  "set (ixEntries (foldl idx_step idx is)) \<subseteq> set (ixEntries idx) \<union> entry_of ` set is"
proof (induction "is" arbitrary: idx)
  case (Cons i "is")
  show ?case
    using Cons [of "idx_step idx i"] by (auto simp: idx_step_def Let_def split: if_splits)
qed simp

lemma BuildFrom_entries_subset: "set (ixEntries (BuildFrom is)) \<subseteq> entry_of ` set is"
  using foldl_entries_subset [of empty_index "is"] by (simp add: BuildFrom_def empty_index_def)

section \<open>What the deltas find\<close>

text \<open>
  A copy of an entry, as the synchronizer makes it: it carries at least one key and only keys of the
  original. \<open>copies f es\<close> are the copies of the entries for which \<open>f\<close> made one.
\<close>

definition copy_ok :: "(Entry \<Rightarrow> Input option) \<Rightarrow> Entry list \<Rightarrow> bool" where
  "copy_ok f es = (\<forall>e\<in>set es. case f e of None \<Rightarrow> True | Some c \<Rightarrow> inKeys c \<noteq> [] \<and> set (inKeys c) \<subseteq> ekeys e)"

definition copies :: "(Entry \<Rightarrow> Input option) \<Rightarrow> Entry list \<Rightarrow> Input list" where
  "copies f es = List.map_filter f es"

lemma copies_simps [simp]:
  "copies f [] = []"
  "copies f (e # es) = (case f e of None \<Rightarrow> copies f es | Some c \<Rightarrow> c # copies f es)"
  by (simp_all add: copies_def List.map_filter_simps split: option.splits)

lemma set_copies: "set (copies f es) = {c. \<exists>e\<in>set es. f e = Some c}"
  by (induction es) (auto split: option.splits)

lemma copy_okD:
  "copy_ok f es \<Longrightarrow> e \<in> set es \<Longrightarrow> f e = Some c \<Longrightarrow> inKeys c \<noteq> [] \<and> set (inKeys c) \<subseteq> ekeys e"
  by (auto simp: copy_ok_def split: option.splits)

lemma copy_meets:
  assumes "copy_ok f es" "c \<in> set (copies f es)" "set es \<subseteq> set EB"
  shows "set (inKeys c) \<inter> keys_of EB \<noteq> {}"
proof -
  obtain e where e: "e \<in> set es" "f e = Some c"
    using assms(2) by (auto simp: set_copies)
  then show ?thesis
    using copy_okD [OF assms(1) e] assms(3) by (fastforce simp: keys_of_def neq_Nil_conv)
qed

lemma copies_keys: "copy_ok f es \<Longrightarrow> keys_of (map entry_of (copies f es)) \<subseteq> keys_of es"
  by (fastforce simp: keys_of_def set_copies dest: copy_okD)

lemma copies_disjoint:
  "disjoint_keys es \<Longrightarrow> copy_ok f es \<Longrightarrow> disjoint_keys (map entry_of (copies f es))"
proof (induction es)
  case (Cons e es)
  then have ok: "copy_ok f es"
    by (simp add: copy_ok_def)
  show ?case
  proof (cases "f e")
    case (Some c)
    have "set (inKeys c) \<subseteq> ekeys e"
      using Cons.prems(2) Some by (auto dest: copy_okD)
    moreover have "ekeys e \<inter> keys_of es = {}"
      using Cons.prems(1) by (auto simp: keys_of_def)
    moreover have "keys_of (map entry_of (copies f es)) \<subseteq> keys_of es"
      by (rule copies_keys [OF ok])
    ultimately have "\<forall>x\<in>set (map entry_of (copies f es)). set (inKeys c) \<inter> ekeys x = {}"
      by (fastforce simp: keys_of_def)
    then show ?thesis
      using Cons ok Some by simp
  qed (use Cons ok in simp)
qed simp

lemma disjoint_keys_filter: "disjoint_keys es \<Longrightarrow> disjoint_keys (filter P es)"
  by (induction es) auto

text \<open>The entries of a side after the copies arrived, and what is missing then.\<close>

lemma missing_after_core:
  assumes EA: "set EA' = set EA \<union> entry_of ` set (copies fA mA)"
    and EB: "set EB' = set EB \<union> entry_of ` set (copies fB mB)"
    and mA: "mA = filter (\<lambda>e. ekeys e \<inter> keys_of EA = {}) EB"
    and mB: "mB = filter (\<lambda>e. ekeys e \<inter> keys_of EB = {}) EA"
    and ok: "copy_ok fA mA" "copy_ok fB mB"
    and disj: "disjoint_keys EA"
    and e: "e \<in> set EA'"
  shows "ekeys e \<inter> keys_of EB' = {} \<longleftrightarrow> e \<in> set mB \<and> fB e = None"
proof -
  have keys': "keys_of EB' = keys_of EB \<union> keys_of (map entry_of (copies fB mB))"
    using EB by (auto simp: keys_of_def)
  consider (old) "e \<in> set EA" | (new) c m where "m \<in> set mA" "fA m = Some c" "e = entry_of c"
    using e EA by (auto simp: set_copies)
  then show ?thesis
  proof cases
    case new
    then have "m \<in> set EB" "inKeys c \<noteq> []" "set (inKeys c) \<subseteq> ekeys m"
      using mA copy_okD [OF ok(1)] by auto
    then have "ekeys e \<inter> keys_of EB' \<noteq> {}"
      using new keys' by (fastforce simp: keys_of_def neq_Nil_conv)
    moreover have "e \<notin> set mB"
      using \<open>m \<in> set EB\<close> \<open>inKeys c \<noteq> []\<close> \<open>set (inKeys c) \<subseteq> ekeys m\<close> mB new(3)
      by (fastforce simp: keys_of_def neq_Nil_conv)
    ultimately show ?thesis by blast
  next
    case old
    show ?thesis
    proof (cases "ekeys e \<inter> keys_of EB = {}")
      case False
      then show ?thesis
        using keys' mB by auto
    next
      case True
      then have em: "e \<in> set mB"
        using old mB by simp
      have "ekeys e \<inter> keys_of EB' \<noteq> {}" if "fB e = Some c" for c
        using copy_okD [OF ok(2) em that] that em keys'
        by (fastforce simp: keys_of_def set_copies neq_Nil_conv)
      moreover have "ekeys e \<inter> keys_of EB' = {}" if none: "fB e = None"
      proof -
        have "ekeys e \<inter> ekeys (entry_of c) = {}" if "m \<in> set mB" "fB m = Some c" for m c
        proof -
          have "m \<noteq> e" "m \<in> set EA"
            using that none mB by auto
          then have "ekeys e \<inter> ekeys m = {}"
            using disjoint_keysD [OF disj old] by simp
          then show ?thesis
            using copy_okD [OF ok(2) that] by auto
        qed
        then show ?thesis
          using True keys' by (auto simp: keys_of_def set_copies)
      qed
      ultimately show ?thesis
        using em by (cases "fB e") auto
    qed
  qed
qed

lemma Delta_BuildFrom:
  "Delta (BuildFrom A) (BuildFrom B) = (mB, mA) \<longleftrightarrow>
     mB = filter (\<lambda>e. ekeys e \<inter> keys_of (ixEntries (BuildFrom B)) = {}) (ixEntries (BuildFrom A))
     \<and> mA = filter (\<lambda>e. ekeys e \<inter> keys_of (ixEntries (BuildFrom A)) = {}) (ixEntries (BuildFrom B))"
  by (auto simp: Delta_def Missing_eq BuildFrom_inv)

lemma copies_entries:
  assumes "mA = filter (\<lambda>e. ekeys e \<inter> keys_of EA = {}) EB" "copy_ok fA mA" "disjoint_keys EA" "disjoint_keys EB"
  shows "disjoint_keys (EA @ map entry_of (copies fA mA))"
proof -
  have "disjoint_keys mA" "keys_of mA \<inter> keys_of EA = {}"
    using assms(1,4) by (auto simp: disjoint_keys_filter keys_of_def)
  then show ?thesis
    using assms(2,3) copies_disjoint copies_keys by (fastforce simp: disjoint_keys_append)
qed

lemma BuildFrom_add_copies:
  assumes "Delta (BuildFrom A) (BuildFrom B) = (mB, mA)" "copy_ok fA mA"
  shows "ixEntries (BuildFrom (A @ copies fA mA)) = ixEntries (BuildFrom A) @ map entry_of (copies fA mA)"
  using foldl_disjoint [OF BuildFrom_inv [of A]] copies_entries [OF _ assms(2)] assms(1) BuildFrom_inv
  unfolding BuildFrom_append Delta_BuildFrom by (metis index_inv_def)

lemma missing_after_list:
  assumes d: "Delta (BuildFrom A) (BuildFrom B) = (mB, mA)" and ok: "copy_ok fA mA" "copy_ok fB mB"
  shows "Missing (BuildFrom (A @ copies fA mA)) (BuildFrom (B @ copies fB mB)) = filter (\<lambda>e. fB e = None) mB"
proof -
  define EA where "EA = ixEntries (BuildFrom A)"
  define EB where "EB = ixEntries (BuildFrom B)"
  define cA where "cA = map entry_of (copies fA mA)"
  define EB' where "EB' = EB @ map entry_of (copies fB mB)"
  have m: "mB = filter (\<lambda>e. ekeys e \<inter> keys_of EB = {}) EA" "mA = filter (\<lambda>e. ekeys e \<inter> keys_of EA = {}) EB"
    using d by (simp_all add: Delta_BuildFrom EA_def EB_def)
  have d': "Delta (BuildFrom B) (BuildFrom A) = (mA, mB)"
    using d by (simp add: Delta_def)
  have disj: "disjoint_keys EA" "disjoint_keys EB"
    using BuildFrom_inv by (simp_all add: EA_def EB_def index_inv_def)
  have core: "e \<in> set (EA @ cA) \<Longrightarrow> ekeys e \<inter> keys_of EB' = {} \<longleftrightarrow> e \<in> set mB \<and> fB e = None" for e
    by (rule missing_after_core [where EA' = "EA @ cA", OF _ _ m(2,1) ok disj(1)]) (auto simp: cA_def EB'_def)
  have "set mA \<subseteq> set EB"
    using m(2) by auto
  then have new: "e \<in> set cA \<Longrightarrow> e \<notin> set mB" for e
    using m(1) copy_meets [OF ok(1)] by (fastforce simp: cA_def)
  have "Missing (BuildFrom (A @ copies fA mA)) (BuildFrom (B @ copies fB mB))
      = filter (\<lambda>e. ekeys e \<inter> keys_of EB' = {}) (EA @ cA)"
    unfolding Missing_eq [OF BuildFrom_inv] BuildFrom_add_copies [OF d ok(1)] BuildFrom_add_copies [OF d' ok(2)]
    by (simp add: EA_def EB_def EB'_def cA_def)
  also have "\<dots> = filter (\<lambda>e. e \<in> set mB \<and> fB e = None) (EA @ cA)"
    by (rule filter_cong [OF refl]) (use core in simp)
  also have "\<dots> = filter (\<lambda>e. e \<in> set mB \<and> fB e = None) EA"
    using new by (simp add: filter_empty_conv)
  also have "\<dots> = filter (\<lambda>e. fB e = None) mB"
    unfolding m(1) filter_filter by (rule filter_cong) auto
  finally show ?thesis .
qed

text \<open>C13: each pass of copying removes exactly the copied messages from both deltas, whatever duplicates
  either folder holds: when the copies carry some key and only keys of their originals and arrive
  after the messages that were there, the next delta consists of the entries that were not copied,
  and is empty when every copy succeeded.\<close>
theorem delta_after_copy:
  assumes "Delta (BuildFrom A) (BuildFrom B) = (mB, mA)" and "copy_ok fA mA" and "copy_ok fB mB"
  shows "Delta (BuildFrom (A @ copies fA mA)) (BuildFrom (B @ copies fB mB))
      = (filter (\<lambda>e. fB e = None) mB, filter (\<lambda>e. fA e = None) mA)"
  using missing_after_list [OF assms] missing_after_list [of B A mA mB fB fA] assms by (simp add: Delta_def)

lemma missing_after_set:
  assumes d: "Delta (BuildFrom A) (BuildFrom B) = (mB, mA)" and ok: "copy_ok fA mA" "copy_ok fB mB"
    and nd: "disjoint_keys (map entry_of A)" "disjoint_keys (map entry_of B)"
    and A': "mset A' = mset (A @ copies fA mA)" and B': "mset B' = mset (B @ copies fB mB)"
  shows "set (Missing (BuildFrom A') (BuildFrom B')) = {e \<in> set mB. fB e = None}"
proof -
  have E: "ixEntries (BuildFrom A) = map entry_of A" "ixEntries (BuildFrom B) = map entry_of B"
    using BuildFrom_disjoint [OF nd(1)] BuildFrom_disjoint [OF nd(2)] by simp_all
  have m: "mB = filter (\<lambda>e. ekeys e \<inter> keys_of (map entry_of B) = {}) (map entry_of A)"
    "mA = filter (\<lambda>e. ekeys e \<inter> keys_of (map entry_of A) = {}) (map entry_of B)"
    using d by (simp_all add: Delta_BuildFrom E)
  have "mset (map entry_of A @ map entry_of (copies fA mA)) = mset (map entry_of A')"
    "mset (map entry_of B @ map entry_of (copies fB mB)) = mset (map entry_of B')"
    using A' B' by simp_all
  from disjoint_keys_mset [OF this(1) copies_entries [OF m(2) ok(1) nd]]
    disjoint_keys_mset [OF this(2) copies_entries [OF m(1) ok(2) nd(2,1)]]
  have E': "ixEntries (BuildFrom A') = map entry_of A'" "ixEntries (BuildFrom B') = map entry_of B'"
    using BuildFrom_disjoint by simp_all
  have sets: "set A' = set (A @ copies fA mA)" "set B' = set (B @ copies fB mB)"
    using A' B' by (metis set_mset_mset)+
  have core: "e \<in> set (map entry_of A') \<Longrightarrow>
      ekeys e \<inter> keys_of (map entry_of B') = {} \<longleftrightarrow> e \<in> set mB \<and> fB e = None" for e
    by (rule missing_after_core [where EA' = "map entry_of A'", OF _ _ m(2,1) ok nd(1)]) (auto simp: sets)
  have "set mB \<subseteq> set (map entry_of A')"
    using m(1) by (auto simp: sets)
  then show ?thesis
    using core by (auto simp: Missing_eq BuildFrom_inv E')
qed

text \<open>Without duplicates inside a folder the result does not depend on the order in which the next pass
  lists the messages: the next deltas hold exactly the entries whose copy failed.\<close>
theorem delta_after_copy_any_order:
  assumes "Delta (BuildFrom A) (BuildFrom B) = (mB, mA)" and "copy_ok fA mA" and "copy_ok fB mB"
    and "disjoint_keys (map entry_of A)" and "disjoint_keys (map entry_of B)"
    and "mset A' = mset (A @ copies fA mA)" and "mset B' = mset (B @ copies fB mB)"
  shows "set (fst (Delta (BuildFrom A') (BuildFrom B'))) = {e \<in> set mB. fB e = None}
    \<and> set (snd (Delta (BuildFrom A') (BuildFrom B'))) = {e \<in> set mA. fA e = None}"
proof -
  have "Delta (BuildFrom B) (BuildFrom A) = (mA, mB)"
    using assms(1) by (simp add: Delta_def)
  from missing_after_set [OF this assms(3,2,5,4,7,6)] missing_after_set [OF assms]
  show ?thesis
    by (simp add: Delta_def)
qed

text \<open>the index of a folder keeps the first message of every group of duplicates: its entries come from
  the input, no two of them share a key, the key map holds exactly their keys and leads to an entry
  that has the key, and every message is either an entry or counted as a duplicate.\<close>
theorem BuildFrom_index:
  "disjoint_keys (ixEntries (BuildFrom is))
   \<and> set (ixEntries (BuildFrom is)) \<subseteq> entry_of ` set is
   \<and> dom (ixByKey (BuildFrom is)) = keys_of (ixEntries (BuildFrom is))
   \<and> {(k, e). ixByKey (BuildFrom is) k = Some e} \<subseteq> {(k, e). e \<in> set (ixEntries (BuildFrom is)) \<and> k \<in> ekeys e}
   \<and> Len (BuildFrom is) + Dups (BuildFrom is) = length is"
  using BuildFrom_inv [of "is"] BuildFrom_entries_subset [of "is"] BuildFrom_count [of "is"]
  by (auto simp: index_inv_def)

text \<open>The keys of a duplicate are lost: a folder can hold a message with the very Message-ID of a message
  on the other side, and that message is still reported as missing, because its only match was
  dropped from the index as a duplicate of an earlier message.\<close>
theorem duplicate_keys_forgotten:
  "\<exists>A B. (\<exists>a\<in>set A. \<exists>b\<in>set B. inMsgID a = inMsgID b \<and> inMsgID a \<noteq> [])
     \<and> fst (Delta (BuildFrom A) (BuildFrom B)) \<noteq> []"
proof -
  define msg where "msg = (\<lambda>i mid sur. \<lparr>inID = i, inFlags = [], inInternalDate = 0, inSize = 0,
    inMsgID = mid, inXHash = [], inSurrogate = sur, inKeys = MatchKeysFrom mid [] sur\<rparr>)"
  define A where "A = [msg ''1'' ''x'' ''s'']"
  define B where "B = [msg ''1'' ''y'' ''t'', msg ''2'' ''x'' ''t'']"
  have "fst (Delta (BuildFrom A) (BuildFrom B)) = [entry_of (msg ''1'' ''x'' ''s'')]"
    by (simp add: A_def B_def msg_def Delta_def Missing_def BuildFrom_def idx_step_def empty_index_def
        Let_def entry_of_def MatchKeysFrom_def)
  then show ?thesis
    by (intro exI [of _ A] exI [of _ B]) (simp add: A_def B_def msg_def)
qed

section \<open>Examples\<close>

definition inp_ex :: "string \<Rightarrow> string list \<Rightarrow> Input" where
  "inp_ex i ks = \<lparr>inID = i, inFlags = [], inInternalDate = 0, inSize = 0, inMsgID = [], inXHash = [],
     inSurrogate = [], inKeys = ks\<rparr>"

definition copy_ex :: "Entry \<Rightarrow> Input option" where
  "copy_ex e = Some (inp_ex (enID e @ ''c'') (enKeys e))"

lemmas dedup_eval = Delta_def Missing_def BuildFrom_def idx_step_def empty_index_def entry_of_def inp_ex_def
  copy_ex_def copy_ok_def ekeys_def Let_def

theorem delta_after_copy_witness:
  "Delta (BuildFrom [inp_ex ''1'' [''k''], inp_ex ''2'' [''k'']]) (BuildFrom [inp_ex ''7'' [''m'']])
     = ([entry_of (inp_ex ''1'' [''k''])], [entry_of (inp_ex ''7'' [''m''])])
   \<and> Delta (BuildFrom ([inp_ex ''1'' [''k''], inp_ex ''2'' [''k'']] @ [inp_ex ''7c'' [''m'']]))
       (BuildFrom ([inp_ex ''7'' [''m'']] @ [inp_ex ''1c'' [''k'']])) = ([], [])"
proof -
  have d: "Delta (BuildFrom [inp_ex ''1'' [''k''], inp_ex ''2'' [''k'']]) (BuildFrom [inp_ex ''7'' [''m'']])
     = ([entry_of (inp_ex ''1'' [''k''])], [entry_of (inp_ex ''7'' [''m''])])"
    by (simp add: dedup_eval)
  show ?thesis
    using delta_after_copy [OF d, of copy_ex copy_ex] d by (simp add: dedup_eval)
qed

end
