(* ===== verification/Store.thy ===== *)
theory Store
  imports Config "HOL-Library.Product_Lexorder"
begin

text \<open>
  Package \<^verbatim>\<open>store\<close>, the database and the entity lists (\<^verbatim>\<open>internal/store/store.go\<close>, \<^verbatim>\<open>lock.go\<close>). A SQLite
  table is an association list from the primary key to the other columns; the interface the
  operations use is the locale \<open>keyed_table\<close>, interpreted on association lists. Every statement may
  fail: a fault function of the statement number decides, and a transaction that fails leaves the
  tables as they were.
\<close>

section \<open>Keyed tables\<close>

locale keyed_table =
  fixes look :: "'t \<Rightarrow> 'k \<Rightarrow> 'v option"
    and put :: "'k \<Rightarrow> 'v \<Rightarrow> 't \<Rightarrow> 't"
    and del :: "('k \<Rightarrow> bool) \<Rightarrow> 't \<Rightarrow> 't"
    and pk :: "'t \<Rightarrow> bool"
  assumes look_put: "look (put k v t) = (look t)(k \<mapsto> v)"
    and look_del: "look (del P t) k = (if P k then None else look t k)"
    and pk_put: "pk t \<Longrightarrow> pk (put k v t)"
    and pk_del: "pk t \<Longrightarrow> pk (del P t)"
begin

lemma look_put_all: "look (fold (\<lambda>(k, v). put k v) kvs t) = look t ++ map_of (rev kvs)"
  by (induction kvs arbitrary: t) (auto simp: look_put)

lemma pk_put_all: "pk t \<Longrightarrow> pk (fold (\<lambda>(k, v). put k v) kvs t)"
  by (induction kvs arbitrary: t) (auto simp: pk_put)

lemma look_del_dels: "look (fold (\<lambda>P. del P) Ps t) k = (if \<exists>P\<in>set Ps. P k then None else look t k)"
  by (induction Ps arbitrary: t) (auto simp: look_del)

end

abbreviation pkey :: "('k, 'v) table \<Rightarrow> bool" where "pkey t \<equiv> distinct (map fst t)"

interpretation sql: keyed_table map_of AList.update tbl_del pkey
  by unfold_locales (auto simp: update_conv' distinct_update distinct_tbl_del)

section \<open>Tables\<close>

record UserRow =
  urA :: string
  urB :: string
  urPathA :: string
  urPathB :: string
  urEnabled :: bool

record EndpointRow =
  erValidity :: string
  erFullResyncAt :: int
  erUpdatedAt :: int

record CacheRow =
  crMsgID :: string
  crXHash :: string
  crSurrogate :: string
  crInternalDate :: int
  crFlags :: string

record StatusRow =
  srLastRunAt :: int
  srLastOkAt :: int
  srStatus :: string
  srCopiedAB :: int
  srCopiedBA :: int
  srSkippedDup :: int
  srErrors :: int
  srLastError :: string
  srFailSince :: int
  srFailStreak :: int

record RunRow =
  rrStatus :: string
  rrCopiedAB :: int
  rrCopiedBA :: int
  rrSkippedDup :: int
  rrErrors :: int
  rrLastError :: string

text \<open>The keys of the cache tables: user name, pair key, side (and message ID).\<close>

type_synonym ep_key = "string \<times> string \<times> string"

record db =
  tFolders :: "(string \<times> string, unit) table"
  tUsers :: "(string, UserRow) table"
  tEndpoint :: "(ep_key, EndpointRow) table"
  tCache :: "(ep_key \<times> string, CacheRow) table"
  tStatus :: "(string, StatusRow) table"
  tRuns :: "(string \<times> int, RunRow) table"

definition db_inv :: "db \<Rightarrow> bool" where
  "db_inv d = (pkey (tFolders d) \<and> pkey (tUsers d) \<and> pkey (tEndpoint d) \<and> pkey (tCache d)
     \<and> pkey (tStatus d) \<and> pkey (tRuns d))"

definition empty_db :: db where
  "empty_db = \<lparr>tFolders = [], tUsers = [], tEndpoint = [], tCache = [], tStatus = [], tRuns = []\<rparr>"

section \<open>Statements and transactions\<close>

text \<open>An open store: the tables and the number of statements run so far.\<close>

record sdb =
  sdTables :: db
  sdTick :: nat

type_synonym faults = "nat \<Rightarrow> goerr option"
type_synonym 'a dbm = "sdb \<Rightarrow> 'a result \<times> sdb"

definition db_ret :: "'a \<Rightarrow> 'a dbm" where "db_ret x s = (Inr x, s)"

definition db_err :: "goerr \<Rightarrow> 'a dbm" where "db_err e s = (Inl e, s)"

definition db_bind :: "'a dbm \<Rightarrow> ('a \<Rightarrow> 'b dbm) \<Rightarrow> 'b dbm" where
  "db_bind m f s = (case m s of (Inl e, s') \<Rightarrow> (Inl e, s') | (Inr x, s') \<Rightarrow> f x s')"

definition db_wrap :: "string \<Rightarrow> 'a dbm \<Rightarrow> 'a dbm" where
  "db_wrap p m s = (case m s of (Inl e, s') \<Rightarrow> (Inl (wrapf p e), s') | (Inr x, s') \<Rightarrow> (Inr x, s'))"

definition db_stmt :: "faults \<Rightarrow> (db \<Rightarrow> 'a \<times> db) \<Rightarrow> 'a dbm" where
  "db_stmt F f s = (case F (sdTick s) of
      Some e \<Rightarrow> (Inl e, s\<lparr>sdTick := Suc (sdTick s)\<rparr>)
    | None \<Rightarrow> (let (x, d) = f (sdTables s) in (Inr x, s\<lparr>sdTables := d, sdTick := Suc (sdTick s)\<rparr>)))"

definition db_read :: "faults \<Rightarrow> (db \<Rightarrow> 'a) \<Rightarrow> 'a dbm" where
  "db_read F f = db_stmt F (\<lambda>d. (f d, d))"

definition db_write :: "faults \<Rightarrow> (db \<Rightarrow> db) \<Rightarrow> unit dbm" where
  "db_write F f = db_stmt F (\<lambda>d. ((), f d))"

text \<open>\<^verbatim>\<open>Begin\<close>, the body, \<^verbatim>\<open>Commit\<close>; on any error the deferred \<^verbatim>\<open>Rollback\<close> restores the tables.\<close>

definition db_tx :: "faults \<Rightarrow> string \<Rightarrow> string \<Rightarrow> unit dbm \<Rightarrow> unit dbm" where
  "db_tx F begin_msg commit_msg body s =
     (case db_wrap begin_msg (db_write F id) s of
        (Inl e, s1) \<Rightarrow> (Inl e, s1)
      | (Inr _, s1) \<Rightarrow>
          (case db_bind body (\<lambda>_. db_wrap commit_msg (db_write F id)) s1 of
             (Inl e, s2) \<Rightarrow> (Inl e, s2\<lparr>sdTables := sdTables s\<rparr>)
           | (Inr _, s2) \<Rightarrow> (Inr (), s2)))"

text \<open>
  The outcome of an operation that changes the database: an error and unchanged tables, or success
  and the tables changed by \<open>f\<close>.
\<close>

definition atomic :: "unit dbm \<Rightarrow> (db \<Rightarrow> db) \<Rightarrow> bool" where
  "atomic m f = (\<forall>s. (\<exists>e. fst (m s) = Inl e \<and> sdTables (snd (m s)) = sdTables s)
     \<or> fst (m s) = Inr () \<and> sdTables (snd (m s)) = f (sdTables s))"

text \<open>Inside a transaction: on success the tables are changed by \<open>f\<close>.\<close>

definition effect :: "unit dbm \<Rightarrow> (db \<Rightarrow> db) \<Rightarrow> bool" where
  "effect m f = (\<forall>s. fst (m s) = Inr () \<longrightarrow> sdTables (snd (m s)) = f (sdTables s))"

text \<open>Without faults an operation succeeds.\<close>

definition no_faults :: faults where "no_faults = (\<lambda>_. None)"

lemmas db_defs = db_ret_def db_err_def db_bind_def db_wrap_def db_stmt_def db_read_def db_write_def

lemma atomicI:
  "(\<And>s. (\<exists>e. fst (m s) = Inl e \<and> sdTables (snd (m s)) = sdTables s)
     \<or> fst (m s) = Inr () \<and> sdTables (snd (m s)) = f (sdTables s)) \<Longrightarrow> atomic m f"
  by (simp add: atomic_def)

lemma atomicE:
  assumes "atomic m f"
  obtains e where "fst (m s) = Inl e" "sdTables (snd (m s)) = sdTables s"
  | "fst (m s) = Inr ()" "sdTables (snd (m s)) = f (sdTables s)"
  using assms by (auto simp: atomic_def)

lemma atomic_write: "atomic (db_wrap p (db_write F f)) f"
  by (rule atomicI) (simp add: db_defs split: option.splits)

lemma atomic_err: "atomic (db_err e) f"
  by (rule atomicI) (simp add: db_defs)

lemma atomic_ret: "atomic (db_ret ()) id"
  by (rule atomicI) (simp add: db_defs)

lemma effectD: "effect m f \<Longrightarrow> m s = (Inr u, s') \<Longrightarrow> sdTables s' = f (sdTables s)"
  unfolding effect_def by (drule spec [of _ s]) simp

lemma effect_write: "effect (db_wrap p (db_write F f)) f"
  by (simp add: effect_def db_defs split: option.splits)

lemma effect_ret: "effect (db_ret ()) id"
  by (simp add: effect_def db_defs)

lemma effect_bind:
  assumes "effect m f" and "effect n g"
  shows "effect (db_bind m (\<lambda>_. n)) (g \<circ> f)"
  unfolding effect_def
proof (intro allI impI)
  fix s
  assume ok: "fst (db_bind m (\<lambda>_. n) s) = Inr ()"
  obtain r s1 where m: "m s = (r, s1)"
    by (cases "m s")
  with ok obtain x where r: "r = Inr x"
    by (auto simp: db_bind_def split: sum.splits)
  have "sdTables s1 = f (sdTables s)"
    using effectD [OF assms(1)] m r by simp
  moreover have "fst (n s1) = Inr ()"
    using ok m r by (simp add: db_bind_def)
  ultimately show "sdTables (snd (db_bind m (\<lambda>_. n) s)) = (g \<circ> f) (sdTables s)"
    using assms(2) m r by (simp add: effect_def db_bind_def)
qed

lemma atomic_tx:
  assumes "effect body f"
  shows "atomic (db_tx F bm cm body) f"
proof (rule atomicI)
  fix s
  have eff: "effect (db_bind body (\<lambda>_. db_wrap cm (db_write F id))) (id \<circ> f)"
    by (intro effect_bind assms effect_write)
  obtain r s1 where b: "db_wrap bm (db_write F id) s = (r, s1)"
    by (cases "db_wrap bm (db_write F id) s")
  then have s1: "sdTables s1 = sdTables s"
    by (auto simp: db_defs split: option.splits)
  show "(\<exists>e. fst (db_tx F bm cm body s) = Inl e \<and> sdTables (snd (db_tx F bm cm body s)) = sdTables s)
     \<or> fst (db_tx F bm cm body s) = Inr () \<and> sdTables (snd (db_tx F bm cm body s)) = f (sdTables s)"
  proof (cases r)
    case (Inl e)
    then show ?thesis
      using b s1 by (simp add: db_tx_def)
  next
    case (Inr u)
    obtain r2 s2 where c: "db_bind body (\<lambda>_. db_wrap cm (db_write F id)) s1 = (r2, s2)"
      by (cases "db_bind body (\<lambda>_. db_wrap cm (db_write F id)) s1")
    show ?thesis
    proof (cases r2)
      case Inl
      then show ?thesis
        using b c Inr by (simp add: db_tx_def)
    next
      case ok: Inr
      have "sdTables s2 = f (sdTables s1)"
        using effectD [OF eff] c ok by simp
      then show ?thesis
        using b c Inr ok s1 by (simp add: db_tx_def)
    qed
  qed
qed

lemma atomic_inv:
  assumes "atomic m f" and "\<And>d. db_inv d \<Longrightarrow> db_inv (f d)" and "db_inv (sdTables s)"
  shows "db_inv (sdTables (snd (m s)))"
  using assms(1)
proof (rule atomicE [where s = s])
  assume "fst (m s) = Inr ()" "sdTables (snd (m s)) = f (sdTables s)"
  then show ?thesis
    using assms(2) [OF assms(3)] by simp
qed (use assms(3) in simp)

section \<open>Entities\<close>

definition UpsertUser :: "utab \<Rightarrow> faults \<Rightarrow> User \<Rightarrow> bool \<Rightarrow> unit dbm" where
  "UpsertUser ut F u enabled =
     (let name = trim_space (uName u); a = trim_space (uUserA u); b = trim_space (uUserB u) in
      if name = [] \<or> a = [] \<or> b = []
      then db_err (errnew (''user: empty field (name='' @ quote_str ut name @ '' user_a='' @ quote_str ut a
             @ '' user_b='' @ quote_str ut b @ '')''))
      else db_wrap (''upserting user '' @ quote_str ut name @ '': '')
        (db_write F (\<lambda>d. d\<lparr>tUsers := AList.update name \<lparr>urA = a, urB = b, urPathA = trim_space (uPathA u),
            urPathB = trim_space (uPathB u), urEnabled = enabled\<rparr> (tUsers d)\<rparr>)))"

text \<open>\<^verbatim>\<open>INSERT OR IGNORE\<close>: an existing pair stays where it is.\<close>

definition insert_or_ignore :: "'k \<Rightarrow> 'v \<Rightarrow> ('k, 'v) table \<Rightarrow> ('k, 'v) table" where
  "insert_or_ignore k v t = (case map_of t k of Some _ \<Rightarrow> t | None \<Rightarrow> t @ [(k, v)])"

definition UpsertFolderPair :: "utab \<Rightarrow> faults \<Rightarrow> FolderPair \<Rightarrow> unit dbm" where
  "UpsertFolderPair ut F fp =
     (let a = trim_space (fpA fp); b = trim_space (fpB fp) in
      if a = [] \<or> b = []
      then db_err (errnew (''folder pair: empty name (a='' @ quote_str ut a @ '' b='' @ quote_str ut b @ '')''))
      else db_wrap (''inserting folder pair '' @ quote_str ut a @ ''/'' @ quote_str ut b @ '': '')
        (db_write F (\<lambda>d. d\<lparr>tFolders := insert_or_ignore (a, b) () (tFolders d)\<rparr>)))"

text \<open>\<^verbatim>\<open>UPDATE ... WHERE key = k\<close> and \<^verbatim>\<open>DELETE ... WHERE key = k\<close>, with the number of rows affected.\<close>

definition tbl_update :: "'k \<Rightarrow> ('v \<Rightarrow> 'v) \<Rightarrow> ('k, 'v) table \<Rightarrow> nat \<times> ('k, 'v) table" where
  "tbl_update k f t = (length (filter (\<lambda>(k', v). k' = k) t), map (\<lambda>(k', v). if k' = k then (k', f v) else (k', v)) t)"

definition tbl_delete :: "'k \<Rightarrow> ('k, 'v) table \<Rightarrow> nat \<times> ('k, 'v) table" where
  "tbl_delete k t = (length (filter (\<lambda>(k', v). k' = k) t), tbl_del (\<lambda>k'. k' = k) t)"

definition SetUserEnabled :: "utab \<Rightarrow> faults \<Rightarrow> string \<Rightarrow> bool \<Rightarrow> unit dbm" where
  "SetUserEnabled ut F name enabled =
     db_bind (db_wrap (''changing enabled for '' @ quote_str ut name @ '': '')
       (db_stmt F (\<lambda>d. let (n, t) = tbl_update (trim_space name) (\<lambda>r. r\<lparr>urEnabled := enabled\<rparr>) (tUsers d)
                       in (n, d\<lparr>tUsers := t\<rparr>))))
       (\<lambda>n. if n = 0 then db_err (errnew (''user '' @ quote_str ut name @ '' not found'')) else db_ret ())"

text \<open>Reading rows: the query may fail, and so may the iteration (\<^verbatim>\<open>rows.Err()\<close>).\<close>

definition db_rows :: "faults \<Rightarrow> string \<Rightarrow> (db \<Rightarrow> 'a) \<Rightarrow> 'a dbm" where
  "db_rows F msg q = db_bind (db_wrap msg (db_read F q)) (\<lambda>out. db_bind (db_read F (\<lambda>_. ())) (\<lambda>_. db_ret out))"

definition user_of_row :: "string \<times> UserRow \<Rightarrow> User" where
  "user_of_row r = \<lparr>uName = fst r, uUserA = urA (snd r), uUserB = urB (snd r),
     uPathA = urPathA (snd r), uPathB = urPathB (snd r)\<rparr>"

definition select_users :: "bool \<Rightarrow> db \<Rightarrow> User list" where
  "select_users onlyEnabled d =
     map user_of_row (sort_key fst (filter (\<lambda>r. onlyEnabled \<longrightarrow> urEnabled (snd r)) (tUsers d)))"

definition queryUsers :: "faults \<Rightarrow> bool \<Rightarrow> User list dbm" where
  "queryUsers F onlyEnabled = db_rows F ''selecting users: '' (select_users onlyEnabled)"

definition ListUsers :: "faults \<Rightarrow> User list dbm" where "ListUsers F = queryUsers F True"

definition AllUsers :: "faults \<Rightarrow> User list dbm" where "AllUsers F = queryUsers F False"

definition select_pairs :: "db \<Rightarrow> FolderPair list" where
  "select_pairs d = map (\<lambda>((a, b), _). \<lparr>fpA = a, fpB = b\<rparr>) (sort_key fst (tFolders d))"

definition ListFolderPairs :: "faults \<Rightarrow> FolderPair list dbm" where
  "ListFolderPairs F = db_rows F ''selecting folder pairs: '' select_pairs"

definition LoadInto :: "faults \<Rightarrow> Config \<Rightarrow> Config dbm" where
  "LoadInto F cfg =
     db_bind (ListUsers F) (\<lambda>users. db_bind (ListFolderPairs F) (\<lambda>folders.
       db_ret (cfg\<lparr>cUsers := users, cFolders := folders\<rparr>)))"

text \<open>The loops of \<^verbatim>\<open>ImportConfig\<close>: the number of entries processed, and the error that stopped it.\<close>

fun import_folders :: "utab \<Rightarrow> faults \<Rightarrow> FolderPair list \<Rightarrow> nat \<Rightarrow> sdb \<Rightarrow> (nat \<times> goerr option) \<times> sdb" where
  "import_folders ut F [] n s = ((n, None), s)"
| "import_folders ut F (fp # fps) n s =
     (case UpsertFolderPair ut F fp s of
        (Inl e, s') \<Rightarrow> ((n, Some e), s') | (Inr _, s') \<Rightarrow> import_folders ut F fps (Suc n) s')"

fun import_users :: "utab \<Rightarrow> faults \<Rightarrow> User list \<Rightarrow> nat \<Rightarrow> sdb \<Rightarrow> (nat \<times> goerr option) \<times> sdb" where
  "import_users ut F [] n s = ((n, None), s)"
| "import_users ut F (u # us) n s =
     (case UpsertUser ut F u True s of
        (Inl e, s') \<Rightarrow> ((n, Some e), s') | (Inr _, s') \<Rightarrow> import_users ut F us (Suc n) s')"

definition ImportConfig :: "utab \<Rightarrow> faults \<Rightarrow> Config \<Rightarrow> sdb \<Rightarrow> (nat \<times> nat \<times> goerr option) \<times> sdb" where
  "ImportConfig ut F cfg s =
     (case import_folders ut F (cFolders cfg) 0 s of
        ((nf, Some e), s') \<Rightarrow> ((nf, 0, Some e), s')
      | ((nf, None), s') \<Rightarrow>
          (case import_users ut F (cUsers cfg) 0 s' of ((nu, eo), s'') \<Rightarrow> ((nf, nu, eo), s'')))"

section \<open>The database file\<close>

text \<open>
  The file before \<^verbatim>\<open>Open\<close>: \<^verbatim>\<open>PRAGMA user_version\<close> and the tables that exist. An older users table may
  lack the columns \<^verbatim>\<open>path_a\<close> and \<^verbatim>\<open>path_b\<close>; adding one fills it with the default.
\<close>

record dbfile =
  dfVersion :: int
  dfFolders :: "(string \<times> string, unit) table option"
  dfUsers :: "(bool \<times> bool \<times> (string, UserRow) table) option"
  dfEndpoint :: "(ep_key, EndpointRow) table option"
  dfCache :: "(ep_key \<times> string, CacheRow) table option"
  dfStatus :: "(string, StatusRow) table option"
  dfRuns :: "(string \<times> int, RunRow) table option"

definition schemaVersion :: int where "schemaVersion = 2"

text \<open>A statement on the file: the fault function decides whether it runs.\<close>

definition file_exec :: "faults \<Rightarrow> (dbfile \<Rightarrow> dbfile) \<Rightarrow> dbfile \<times> nat \<Rightarrow> goerr option \<times> (dbfile \<times> nat)" where
  "file_exec F f st = (case st of (d, t) \<Rightarrow>
     (case F t of Some e \<Rightarrow> (Some e, (d, Suc t)) | None \<Rightarrow> (None, (f d, Suc t))))"

definition migrateState :: "faults \<Rightarrow> dbfile \<times> nat \<Rightarrow> goerr option \<times> (dbfile \<times> nat)" where
  "migrateState F st =
     (case file_exec F id st of (Some e, st1) \<Rightarrow> (Some e, st1) | (None, st1) \<Rightarrow>
      if dfVersion (fst st) \<ge> schemaVersion then (None, st1)
      else case file_exec F (\<lambda>d. d\<lparr>dfEndpoint := None, dfCache := None\<rparr>) st1 of
        (Some e, st2) \<Rightarrow> (Some e, st2)
      | (None, st2) \<Rightarrow> file_exec F (\<lambda>d. d\<lparr>dfVersion := schemaVersion\<rparr>) st2)"

definition add_path_col :: "bool \<Rightarrow> dbfile \<Rightarrow> dbfile" where
  "add_path_col is_a d = d\<lparr>dfUsers := map_option (\<lambda>(ha, hb, t).
     if is_a then (True, hb, map (\<lambda>(k, r). (k, r\<lparr>urPathA := []\<rparr>)) t)
     else (ha, True, map (\<lambda>(k, r). (k, r\<lparr>urPathB := []\<rparr>)) t)) (dfUsers d)\<rparr>"

definition ensure_col :: "faults \<Rightarrow> bool \<Rightarrow> bool \<Rightarrow> dbfile \<times> nat \<Rightarrow> goerr option \<times> (dbfile \<times> nat)" where
  "ensure_col F is_a have st =
     (if have then (None, st)
      else case file_exec F (add_path_col is_a) st of
        (Some e, st') \<Rightarrow> (Some (wrapf (''adding column '' @ (if is_a then ''path_a'' else ''path_b'') @ '' to users: '') e), st')
      | (None, st') \<Rightarrow> (None, st'))"

definition ensureUserPathColumns :: "faults \<Rightarrow> dbfile \<times> nat \<Rightarrow> goerr option \<times> (dbfile \<times> nat)" where
  "ensureUserPathColumns F st =
     (case file_exec F id st of
        (Some e, st1) \<Rightarrow> (Some (wrapf ''checking for the users table: '' e), st1)
      | (None, st1) \<Rightarrow>
          (case dfUsers (fst st1) of None \<Rightarrow> (None, st1) | Some (ha, hb, _) \<Rightarrow>
           (case file_exec F id st1 of
              (Some e, st2) \<Rightarrow> (Some (wrapf ''reading users table schema: '' e), st2)
            | (None, st2) \<Rightarrow>
                (case ensure_col F True ha st2 of (Some e, st3) \<Rightarrow> (Some e, st3) | (None, st3) \<Rightarrow> ensure_col F False hb st3))))"

text \<open>\<^verbatim>\<open>CREATE TABLE IF NOT EXISTS\<close> for the tables of \<^verbatim>\<open>schema\<close> and of \<^verbatim>\<open>stateSchema\<close>.\<close>

definition or_create :: "'t \<Rightarrow> 't option \<Rightarrow> 't option" where
  "or_create t x = (case x of None \<Rightarrow> Some t | Some y \<Rightarrow> Some y)"

definition create_schema :: "dbfile \<Rightarrow> dbfile" where
  "create_schema d = d\<lparr>dfFolders := or_create [] (dfFolders d), dfUsers := or_create (True, True, []) (dfUsers d)\<rparr>"

definition create_stateSchema :: "dbfile \<Rightarrow> dbfile" where
  "create_stateSchema d = d\<lparr>dfEndpoint := or_create [] (dfEndpoint d), dfCache := or_create [] (dfCache d),
     dfStatus := or_create [] (dfStatus d), dfRuns := or_create [] (dfRuns d)\<rparr>"

definition file_tables :: "dbfile \<Rightarrow> db" where
  "file_tables d = \<lparr>tFolders = (case dfFolders d of None \<Rightarrow> [] | Some t \<Rightarrow> t),
     tUsers = (case dfUsers d of None \<Rightarrow> [] | Some (_, _, t) \<Rightarrow> t),
     tEndpoint = (case dfEndpoint d of None \<Rightarrow> [] | Some t \<Rightarrow> t), tCache = (case dfCache d of None \<Rightarrow> [] | Some t \<Rightarrow> t),
     tStatus = (case dfStatus d of None \<Rightarrow> [] | Some t \<Rightarrow> t), tRuns = (case dfRuns d of None \<Rightarrow> [] | Some t \<Rightarrow> t)\<rparr>"

text \<open>\<^verbatim>\<open>sql.Open\<close> only validates its arguments; the first statement connects.\<close>

definition Open :: "faults \<Rightarrow> string \<Rightarrow> dbfile \<times> nat \<Rightarrow> sdb result \<times> (dbfile \<times> nat)" where
  "Open F path st =
     (if trim_space path = [] then (Inl (errnew ''sqlite path not set''), st)
      else case migrateState F st of
        (Some e, st1) \<Rightarrow> (Inl (wrapf (''migrating sqlite '' @ path @ '': '') e), st1)
      | (None, st1) \<Rightarrow> (case ensureUserPathColumns F st1 of
        (Some e, st2) \<Rightarrow> (Inl (wrapf (''migrating sqlite '' @ path @ '': '') e), st2)
      | (None, st2) \<Rightarrow> (case file_exec F create_schema st2 of
        (Some e, st3) \<Rightarrow> (Inl (wrapf (''creating sqlite schema '' @ path @ '': '') e), st3)
      | (None, st3) \<Rightarrow> (case file_exec F create_stateSchema st3 of
        (Some e, st4) \<Rightarrow> (Inl (wrapf (''creating sqlite state-cache schema '' @ path @ '': '') e), st4)
      | (None, (d, t)) \<Rightarrow> (Inr \<lparr>sdTables = file_tables d, sdTick = t\<rparr>, (d, t))))))"

section \<open>The lock\<close>

text \<open>
  \<^verbatim>\<open>OpenExclusive\<close> takes an advisory lock on \<^verbatim>\<open><path>.lock\<close>, held until \<^verbatim>\<open>Close\<close>. The lock is shared by all
  processes; the world of the operations is whether someone holds it, and the database file.
\<close>

record Store =
  stDB :: sdb
  stLock :: bool

record lock_world =
  lwHeld :: bool
  lwFile :: "dbfile \<times> nat"

definition OpenExclusive :: "faults \<Rightarrow> goerr option \<Rightarrow> goerr \<Rightarrow> string \<Rightarrow> lock_world \<Rightarrow> Store result \<times> lock_world" where
  "OpenExclusive F create_fault wouldblock path w =
     (case create_fault of
        Some e \<Rightarrow> (Inl (wrapf (''creating lock file '' @ path @ ''.lock: '') e), w)
      | None \<Rightarrow>
          if lwHeld w
          then (Inl (wrapf (''DB '' @ path @ '' is already in use by another process (could not take '' @ path @ ''.lock): '') wouldblock), w)
          else (case Open F path (lwFile w) of
             (Inl e, f) \<Rightarrow> (Inl e, \<lparr>lwHeld = False, lwFile = f\<rparr>)
           | (Inr s, f) \<Rightarrow> (Inr \<lparr>stDB = s, stLock = True\<rparr>, \<lparr>lwHeld = True, lwFile = f\<rparr>)))"

text \<open>\<^verbatim>\<open>Close\<close> returns the error of closing the database; the lock is released whatever it is.\<close>

definition Close :: "goerr option \<Rightarrow> Store \<Rightarrow> lock_world \<Rightarrow> goerr option \<times> Store \<times> lock_world" where
  "Close close_fault st w =
     (close_fault, st\<lparr>stLock := False\<rparr>, if stLock st then w\<lparr>lwHeld := False\<rparr> else w)"

section \<open>Properties\<close>

subsection \<open>Primary keys\<close>

lemma pkey_insert_or_ignore: "pkey t \<Longrightarrow> pkey (insert_or_ignore k v t)"
  by (auto simp: insert_or_ignore_def map_of_eq_None_iff split: option.splits)

lemma fst_tbl_update [simp]: "map fst (snd (tbl_update k f t)) = map fst t"
  by (simp add: tbl_update_def comp_def case_prod_beta if_distrib cong: if_cong)

lemma tbl_update_zero: "fst (tbl_update k f t) = 0 \<Longrightarrow> snd (tbl_update k f t) = t"
  by (induction t) (auto simp: tbl_update_def split: if_splits)

lemma map_of_tbl_update: "map_of (snd (tbl_update k f t)) k' = (if k' = k then map_option f (map_of t k) else map_of t k')"
  by (induction t) (auto simp: tbl_update_def)

lemma tbl_delete_zero: "fst (tbl_delete k t) = 0 \<Longrightarrow> snd (tbl_delete k t) = t"
  by (induction t) (auto simp: tbl_delete_def tbl_del_def split: if_splits)

text \<open>An update that reports the rows it changed and fails when there are none.\<close>

lemma atomic_rows:
  fixes f :: "db \<Rightarrow> nat \<times> db"
  assumes "\<And>d. fst (f d) = 0 \<Longrightarrow> snd (f d) = d"
  shows "atomic (db_bind (db_wrap p (db_stmt F f)) (\<lambda>n. if n = 0 then db_err e else db_ret ())) (\<lambda>d. snd (f d))"
proof (rule atomicI)
  fix s
  let ?m = "db_bind (db_wrap p (db_stmt F f)) (\<lambda>n. if n = 0 then db_err e else db_ret ())"
  show "(\<exists>e. fst (?m s) = Inl e \<and> sdTables (snd (?m s)) = sdTables s)
    \<or> fst (?m s) = Inr () \<and> sdTables (snd (?m s)) = snd (f (sdTables s))"
    using assms [of "sdTables s"] by (cases "F (sdTick s)"; cases "f (sdTables s)") (auto simp: db_defs)
qed

definition upsert_user_row :: "User \<Rightarrow> bool \<Rightarrow> db \<Rightarrow> db" where
  "upsert_user_row u enabled d = d\<lparr>tUsers := AList.update (trim_space (uName u))
     \<lparr>urA = trim_space (uUserA u), urB = trim_space (uUserB u), urPathA = trim_space (uPathA u),
      urPathB = trim_space (uPathB u), urEnabled = enabled\<rparr> (tUsers d)\<rparr>"

definition insert_pair_row :: "FolderPair \<Rightarrow> db \<Rightarrow> db" where
  "insert_pair_row fp d = d\<lparr>tFolders := insert_or_ignore (trim_space (fpA fp), trim_space (fpB fp)) () (tFolders d)\<rparr>"

lemma UpsertUser_atomic: "atomic (UpsertUser ut F u enabled) (upsert_user_row u enabled)"
  by (simp add: UpsertUser_def Let_def atomic_err atomic_write upsert_user_row_def [abs_def])

lemma UpsertFolderPair_atomic: "atomic (UpsertFolderPair ut F fp) (insert_pair_row fp)"
  by (simp add: UpsertFolderPair_def Let_def atomic_err atomic_write insert_pair_row_def [abs_def])

lemma SetUserEnabled_atomic:
  "atomic (SetUserEnabled ut F name enabled)
     (\<lambda>d. d\<lparr>tUsers := snd (tbl_update (trim_space name) (\<lambda>r. r\<lparr>urEnabled := enabled\<rparr>) (tUsers d))\<rparr>)"
proof -
  let ?f = "\<lambda>d. let (n, t) = tbl_update (trim_space name) (\<lambda>r. r\<lparr>urEnabled := enabled\<rparr>) (tUsers d) in (n, d\<lparr>tUsers := t\<rparr>)"
  have "atomic (SetUserEnabled ut F name enabled) (\<lambda>d. snd (?f d))"
    unfolding SetUserEnabled_def
    by (rule atomic_rows) (auto simp: Let_def case_prod_beta dest: tbl_update_zero)
  then show ?thesis
    by (simp add: Let_def case_prod_beta)
qed

lemma upsert_rows_inv:
  "db_inv d \<Longrightarrow> db_inv (upsert_user_row u enabled d)" "db_inv d \<Longrightarrow> db_inv (insert_pair_row fp d)"
  by (simp_all add: db_inv_def upsert_user_row_def insert_pair_row_def distinct_update pkey_insert_or_ignore)

subsection \<open>Import and reading back\<close>

definition clean_user :: "User \<Rightarrow> bool" where
  "clean_user u = (trim_space (uName u) = uName u \<and> trim_space (uUserA u) = uUserA u \<and> trim_space (uUserB u) = uUserB u
     \<and> trim_space (uPathA u) = uPathA u \<and> trim_space (uPathB u) = uPathB u
     \<and> uName u \<noteq> [] \<and> uUserA u \<noteq> [] \<and> uUserB u \<noteq> [])"

definition clean_pair :: "FolderPair \<Rightarrow> bool" where
  "clean_pair fp = (trim_space (fpA fp) = fpA fp \<and> trim_space (fpB fp) = fpB fp \<and> fpA fp \<noteq> [] \<and> fpB fp \<noteq> [])"

definition row_of_user :: "User \<Rightarrow> string \<times> UserRow" where
  "row_of_user u = (uName u, \<lparr>urA = uUserA u, urB = uUserB u, urPathA = uPathA u, urPathB = uPathB u, urEnabled = True\<rparr>)"

lemma user_of_row_of_user [simp]: "user_of_row (row_of_user u) = u"
  by (simp add: user_of_row_def row_of_user_def)

lemma folder_pair_eta: "\<lparr>fpA = fpA f, fpB = fpB f\<rparr> = f"
  by simp

lemma update_absent: "k \<notin> fst ` set t \<Longrightarrow> AList.update k v t = t @ [(k, v)]"
  by (induction t) auto

lemma import_users_ok:
  assumes "list_all clean_user us" "distinct (map uName us)" "uName ` set us \<inter> fst ` set (tUsers (sdTables s)) = {}"
  shows "\<exists>s'. import_users ut no_faults us n s = ((n + length us, None), s')
    \<and> sdTables s' = (sdTables s)\<lparr>tUsers := tUsers (sdTables s) @ map row_of_user us\<rparr>"
  using assms
proof (induction us arbitrary: n s)
  case (Cons u us)
  let ?s = "s\<lparr>sdTables := (sdTables s)\<lparr>tUsers := tUsers (sdTables s) @ [row_of_user u]\<rparr>, sdTick := Suc (sdTick s)\<rparr>"
  have "UpsertUser ut no_faults u True s = (Inr (), ?s)"
    using Cons.prems
    by (simp add: UpsertUser_def Let_def clean_user_def db_defs no_faults_def update_absent row_of_user_def)
  moreover have "\<exists>s'. import_users ut no_faults us (Suc n) ?s = ((Suc n + length us, None), s')
    \<and> sdTables s' = (sdTables ?s)\<lparr>tUsers := tUsers (sdTables ?s) @ map row_of_user us\<rparr>"
    using Cons.prems by (intro Cons.IH) (auto simp: row_of_user_def)
  ultimately show ?case
    by simp
qed simp

lemma import_folders_ok:
  assumes "list_all clean_pair fps"
  shows "\<exists>s'. import_folders ut no_faults fps n s = ((n + length fps, None), s')
    \<and> tUsers (sdTables s') = tUsers (sdTables s)
    \<and> fst ` set (tFolders (sdTables s')) = fst ` set (tFolders (sdTables s)) \<union> (\<lambda>f. (fpA f, fpB f)) ` set fps
    \<and> (pkey (tFolders (sdTables s)) \<longrightarrow> pkey (tFolders (sdTables s')))"
  using assms
proof (induction fps arbitrary: n s)
  case (Cons fp fps)
  let ?s = "s\<lparr>sdTables := (sdTables s)\<lparr>tFolders := insert_or_ignore (fpA fp, fpB fp) () (tFolders (sdTables s))\<rparr>, sdTick := Suc (sdTick s)\<rparr>"
  have "UpsertFolderPair ut no_faults fp s = (Inr (), ?s)"
    using Cons.prems by (simp add: UpsertFolderPair_def Let_def clean_pair_def db_defs no_faults_def)
  moreover have "fst ` set (insert_or_ignore k () t) = insert k (fst ` set t)" for k and t :: "(string \<times> string, unit) table"
    by (cases "map_of t k") (auto simp: insert_or_ignore_def dest: map_of_SomeD intro: rev_image_eqI)
  moreover obtain s' where "import_folders ut no_faults fps (Suc n) ?s = ((Suc n + length fps, None), s')"
    "tUsers (sdTables s') = tUsers (sdTables ?s)"
    "fst ` set (tFolders (sdTables s')) = fst ` set (tFolders (sdTables ?s)) \<union> (\<lambda>f. (fpA f, fpB f)) ` set fps"
    "pkey (tFolders (sdTables ?s)) \<longrightarrow> pkey (tFolders (sdTables s'))"
    using Cons.IH [of "Suc n" ?s] Cons.prems by auto
  ultimately show ?case
    using pkey_insert_or_ignore by fastforce
qed simp

text \<open>C31: importing a configuration into an empty database and loading it back gives the users in the order
  of their names, unchanged, and every folder pair once.\<close>
theorem import_then_load:
  assumes "list_all clean_user (cUsers cfg)" and "distinct (map uName (cUsers cfg))" and "list_all clean_pair (cFolders cfg)"
  shows "\<exists>s c' s'. ImportConfig ut no_faults cfg \<lparr>sdTables = empty_db, sdTick = 0\<rparr>
        = ((length (cFolders cfg), length (cUsers cfg), None), s)
    \<and> LoadInto no_faults cfg' s = (Inr c', s')
    \<and> cUsers c' = sort_key uName (cUsers cfg)
    \<and> set (cFolders c') = set (cFolders cfg) \<and> distinct (cFolders c')"
proof -
  let ?s0 = "\<lparr>sdTables = empty_db, sdTick = 0\<rparr>"
  obtain s1 where s1: "import_folders ut no_faults (cFolders cfg) 0 ?s0 = ((length (cFolders cfg), None), s1)"
    "tUsers (sdTables s1) = []" "fst ` set (tFolders (sdTables s1)) = (\<lambda>f. (fpA f, fpB f)) ` set (cFolders cfg)"
    "pkey (tFolders (sdTables s1))"
    using import_folders_ok [OF assms(3), of ut 0 ?s0] by (auto simp: empty_db_def)
  obtain s2 where s2: "import_users ut no_faults (cUsers cfg) 0 s1 = ((length (cUsers cfg), None), s2)"
    "sdTables s2 = (sdTables s1)\<lparr>tUsers := map row_of_user (cUsers cfg)\<rparr>"
    using import_users_ok [OF assms(1,2), of s1 ut 0] s1(2) by auto
  have users: "select_users True (sdTables s2) = sort_key uName (cUsers cfg)"
  proof -
    have "filter (\<lambda>r. urEnabled (snd r)) (map row_of_user us) = map row_of_user us" for us
      by (induction us) (auto simp: row_of_user_def)
    moreover have "map user_of_row (sort_key fst rows) = sort_key uName (map user_of_row rows)" for rows
      using map_sort_key_comp [of user_of_row uName rows] by (simp add: user_of_row_def)
    ultimately show ?thesis
      by (simp add: select_users_def s2(2) comp_def)
  qed
  have "set (select_pairs (sdTables s2)) = (\<lambda>(a, b). \<lparr>fpA = a, fpB = b\<rparr>) ` fst ` set (tFolders (sdTables s1))"
    by (force simp: select_pairs_def s2(2))
  also have "\<dots> = set (cFolders cfg)"
    by (simp add: s1(3) image_image folder_pair_eta)
  finally have pairs: "set (select_pairs (sdTables s2)) = set (cFolders cfg)" .
  have dist: "distinct (select_pairs (sdTables s2))"
    using s1(4) by (auto simp: select_pairs_def s2(2) distinct_map inj_on_def)
  show ?thesis
    using s1(1) s2(1) users pairs dist
    by (simp add: ImportConfig_def LoadInto_def ListUsers_def ListFolderPairs_def queryUsers_def db_rows_def
        db_defs no_faults_def)
qed

definition usr_ex :: "string \<Rightarrow> User" where
  "usr_ex n = \<lparr>uName = n, uUserA = ''a'', uUserB = ''b'', uPathA = [], uPathB = []\<rparr>"

theorem import_then_load_witness:
  "\<exists>s c' s'. ImportConfig ut_ex no_faults (cfg_ex\<lparr>cUsers := [usr_ex ''z'', usr_ex ''y'']\<rparr>) \<lparr>sdTables = empty_db, sdTick = 0\<rparr>
       = ((1, 2, None), s)
     \<and> LoadInto no_faults cfg_ex s = (Inr c', s') \<and> cUsers c' = [usr_ex ''y'', usr_ex ''z'']"
proof -
  have clean: "list_all clean_user [usr_ex ''z'', usr_ex ''y'']" "list_all clean_pair (cFolders cfg_ex)"
    by (simp_all add: clean_user_def clean_pair_def usr_ex_def cfg_ex_def trim_space_plain plain_chars_def char_of_def bit_0)
  have "sort_key uName [usr_ex ''z'', usr_ex ''y''] = [usr_ex ''y'', usr_ex ''z'']"
    by (simp add: usr_ex_def less_eq_char_def)
  moreover have "length (cFolders cfg_ex) = 1"
    by (simp add: cfg_ex_def)
  ultimately show ?thesis
    using import_then_load [of "cfg_ex\<lparr>cUsers := [usr_ex ''z'', usr_ex ''y'']\<rparr>" ut_ex cfg_ex] clean
    by (simp add: usr_ex_def numeral_2_eq_2) blast
qed

subsection \<open>Opening\<close>

text \<open>What \<open>Open\<close> may not lose: everything but the cache.\<close>

definition no_paths :: "(string, UserRow) table \<Rightarrow> (string, UserRow) table" where
  "no_paths t = map (\<lambda>(k, r). (k, r\<lparr>urPathA := [], urPathB := []\<rparr>)) t"

definition kept :: "dbfile \<Rightarrow> dbfile \<Rightarrow> bool" where
  "kept d d' = (tFolders (file_tables d') = tFolders (file_tables d)
     \<and> no_paths (tUsers (file_tables d')) = no_paths (tUsers (file_tables d))
     \<and> tStatus (file_tables d') = tStatus (file_tables d) \<and> tRuns (file_tables d') = tRuns (file_tables d)
     \<and> dfVersion d' \<ge> dfVersion d
     \<and> (dfVersion d < schemaVersion \<or> tEndpoint (file_tables d') = tEndpoint (file_tables d)
        \<and> tCache (file_tables d') = tCache (file_tables d)))"

lemma kept_refl [simp]: "kept d d"
  by (simp add: kept_def)

lemma kept_trans: "kept d d1 \<Longrightarrow> kept d1 d2 \<Longrightarrow> kept d d2"
  by (auto simp: kept_def)

lemma file_exec_kept: "kept d (f d) \<Longrightarrow> file_exec F f (d, t) = (r, (d', t')) \<Longrightarrow> kept d d'"
  by (auto simp: file_exec_def split: option.splits)

lemma kept_steps:
  "dfVersion d < schemaVersion \<Longrightarrow> kept d (d\<lparr>dfEndpoint := None, dfCache := None\<rparr>)"
  "dfVersion d < schemaVersion \<Longrightarrow> kept d (d\<lparr>dfVersion := schemaVersion\<rparr>)"
  "kept d (create_schema d)" "kept d (create_stateSchema d)"
  by (simp_all add: kept_def file_tables_def create_schema_def create_stateSchema_def or_create_def split: option.splits)

lemma kept_add_path_col: "kept d (add_path_col is_a d)"
  by (auto simp: kept_def file_tables_def add_path_col_def no_paths_def split: option.splits)

lemma migrateState_kept:
  assumes "migrateState F (d, t) = (r, (d', t'))"
  shows "kept d d'" and "r = None \<Longrightarrow> dfVersion d' \<ge> schemaVersion"
  using assms kept_steps(1,2) [of d] kept_steps(2) [of "d\<lparr>dfEndpoint := None, dfCache := None\<rparr>"]
  by (auto simp: migrateState_def file_exec_def split: option.splits if_splits intro: kept_trans)

lemma ensure_col_kept: "ensure_col F is_a have (d, t) = (r, (d', t')) \<Longrightarrow> kept d d' \<and> dfVersion d' = dfVersion d"
  using kept_add_path_col by (auto simp: ensure_col_def file_exec_def add_path_col_def split: option.splits if_splits)

lemma ensureUserPathColumns_kept:
  assumes "ensureUserPathColumns F (d, t) = (r, (d', t'))"
  shows "kept d d' \<and> dfVersion d' = dfVersion d"
proof -
  have e: "ensure_col F is_a have st = (r, (d', t')) \<Longrightarrow> kept (fst st) d' \<and> dfVersion d' = dfVersion (fst st)" for is_a "have" st r d' t'
    by (metis ensure_col_kept prod.collapse)
  show ?thesis
    using assms unfolding ensureUserPathColumns_def
    by (auto simp: file_exec_def split: option.splits prod.splits dest!: e intro: kept_trans)
qed


subsection \<open>The lock as a state machine\<close>

text \<open>Processes that open the database exclusively and close it, in any order.\<close>

inductive lock_step :: "(nat \<rightharpoonup> Store) \<times> lock_world \<Rightarrow> (nat \<rightharpoonup> Store) \<times> lock_world \<Rightarrow> bool" where
  open_ok: "m p = None \<Longrightarrow> OpenExclusive F c wb path w = (Inr st, w') \<Longrightarrow> lock_step (m, w) (m(p \<mapsto> st), w')"
| open_fail: "m p = None \<Longrightarrow> OpenExclusive F c wb path w = (Inl e, w') \<Longrightarrow> lock_step (m, w) (m, w')"
| close: "m p = Some st \<Longrightarrow> Close ce st w = (eo, st', w') \<Longrightarrow> lock_step (m, w) (m(p := None), w')"

inductive_cases lock_stepE: "lock_step s s'"

inductive lock_reach :: "(nat \<rightharpoonup> Store) \<times> lock_world \<Rightarrow> bool" where
  start: "\<not> lwHeld w \<Longrightarrow> lock_reach (\<lambda>_. None, w)"
| step: "lock_reach s \<Longrightarrow> lock_step s s' \<Longrightarrow> lock_reach s'"

definition lock_inv :: "(nat \<rightharpoonup> Store) \<times> lock_world \<Rightarrow> bool" where
  "lock_inv s = (case s of (m, w) \<Rightarrow>
     (lwHeld w \<longleftrightarrow> dom m \<noteq> {}) \<and> (\<forall>p q. p \<in> dom m \<longrightarrow> q \<in> dom m \<longrightarrow> p = q) \<and> (\<forall>st\<in>ran m. stLock st))"

lemma OpenExclusive_ok:
  "OpenExclusive F c wb path w = (Inr st, w') \<Longrightarrow> \<not> lwHeld w \<and> lwHeld w' \<and> stLock st"
  by (auto simp: OpenExclusive_def split: option.splits if_splits sum.splits prod.splits)

lemma OpenExclusive_fail:
  "OpenExclusive F c wb path w = (Inl e, w') \<Longrightarrow> lwHeld w' = lwHeld w"
  by (auto simp: OpenExclusive_def split: option.splits if_splits sum.splits prod.splits)

lemma lock_step_inv: "lock_step s s' \<Longrightarrow> lock_inv s \<Longrightarrow> lock_inv s'"
proof (induction rule: lock_step.induct)
  case (open_ok m p F c wb path w st w')
  then show ?case
    using OpenExclusive_ok [OF open_ok(2)] by (auto simp: lock_inv_def ran_def)
next
  case (open_fail m p F c wb path w e w')
  then show ?case
    using OpenExclusive_fail [OF open_fail(2)] by (auto simp: lock_inv_def)
next
  case (close m p st ce w eo st' w')
  have p: "p \<in> dom m" "st \<in> ran m"
    using close(1) by (auto simp: ran_def)
  then have "dom m = {p}" "stLock st"
    using close.prems by (auto simp: lock_inv_def)
  then have "m(p := None) = (\<lambda>_. None)" "\<not> lwHeld w'"
    using close(2) by (auto simp: Close_def fun_eq_iff dom_def)
  then show ?case
    by (simp add: lock_inv_def)
qed


definition file_ex :: dbfile where
  "file_ex = \<lparr>dfVersion = 1, dfFolders = None, dfUsers = None, dfEndpoint = None, dfCache = None, dfStatus = None, dfRuns = None\<rparr>"


end
