(* ===== verification/State.thy ===== *)
theory State
  imports Store
begin

text \<open>
  Package \<^verbatim>\<open>store\<close>, the incremental state (\<^verbatim>\<open>internal/store/state.go\<close>): the message cache of an endpoint, the
  run history and the error streak of a user. Every operation is atomic in the sense of \<^theory_text>\<open>Store\<close>, with
  its effect on the tables given as a function of the database, except the chunked delete, whose
  partial effect on a failure is stated.
\<close>

section \<open>The message cache\<close>

record SEndpoint =
  seExists :: bool
  seValidity :: string
  seFullResyncAt :: time

record CachedMsg =
  cmID :: string
  cmMsgID :: string
  cmXHash :: string
  cmSurrogate :: string
  cmInternalDate :: time
  cmFlags :: "string list"

definition encodeFlags :: "string list \<Rightarrow> string" where "encodeFlags flags = str_join '' '' flags"

definition decodeFlags :: "string \<Rightarrow> string list" where
  "decodeFlags s = (if s = [] then [] else split_char CHR '' '' s)"

definition ep_path :: "string \<Rightarrow> string \<Rightarrow> string \<Rightarrow> string" where
  "ep_path user pair side = ''('' @ user @ ''/'' @ pair @ ''/'' @ side @ ''): ''"

definition cached_of :: "string \<Rightarrow> CacheRow \<Rightarrow> CachedMsg" where
  "cached_of i r = \<lparr>cmID = i, cmMsgID = crMsgID r, cmXHash = crXHash r, cmSurrogate = crSurrogate r,
     cmInternalDate = time_unix (crInternalDate r), cmFlags = decodeFlags (crFlags r)\<rparr>"

definition cache_of :: "ep_key \<Rightarrow> db \<Rightarrow> (string, CachedMsg) table" where
  "cache_of k d = List.map_filter (\<lambda>((k', i), r). if k' = k then Some (i, cached_of i r) else None) (tCache d)"

definition endpoint_of :: "EndpointRow \<Rightarrow> SEndpoint" where
  "endpoint_of r = \<lparr>seExists = True, seValidity = erValidity r,
     seFullResyncAt = (if erFullResyncAt r > 0 then erFullResyncAt r else zero_time)\<rparr>"

definition no_endpoint :: SEndpoint where
  "no_endpoint = \<lparr>seExists = False, seValidity = [], seFullResyncAt = zero_time\<rparr>"

definition LoadEndpoint :: "faults \<Rightarrow> string \<Rightarrow> string \<Rightarrow> string \<Rightarrow> (SEndpoint \<times> (string, CachedMsg) table) dbm" where
  "LoadEndpoint F user pair side =
     db_bind (db_wrap (''reading sync_endpoint '' @ ep_path user pair side)
       (db_read F (\<lambda>d. map_of (tEndpoint d) (user, pair, side))))
     (\<lambda>ro. case ro of
        None \<Rightarrow> db_ret (no_endpoint, [])
      | Some r \<Rightarrow> db_rows F (''reading sync_msg_cache '' @ ep_path user pair side)
                   (\<lambda>d. (endpoint_of r, cache_of (user, pair, side) d)))"

definition SaveEndpoint :: "faults \<Rightarrow> time \<Rightarrow> string \<Rightarrow> string \<Rightarrow> string \<Rightarrow> string \<Rightarrow> time \<Rightarrow> unit dbm" where
  "SaveEndpoint F now user pair side validity fullResyncAt =
     (let resyncAt = (if fullResyncAt \<noteq> zero_time then unix_nano fullResyncAt else 0) in
      db_wrap (''writing sync_endpoint '' @ ep_path user pair side)
        (db_write F (\<lambda>d. d\<lparr>tEndpoint := AList.update (user, pair, side)
           \<lparr>erValidity = validity, erFullResyncAt = resyncAt, erUpdatedAt = unix_sec now\<rparr> (tEndpoint d)\<rparr>)))"

definition cache_row :: "CachedMsg \<Rightarrow> CacheRow" where
  "cache_row m = \<lparr>crMsgID = cmMsgID m, crXHash = cmXHash m, crSurrogate = cmSurrogate m,
     crInternalDate = unix_sec (cmInternalDate m), crFlags = encodeFlags (cmFlags m)\<rparr>"

fun insert_msgs :: "faults \<Rightarrow> ep_key \<Rightarrow> CachedMsg list \<Rightarrow> unit dbm" where
  "insert_msgs F k [] = db_ret ()"
| "insert_msgs F k (m # ms) =
     db_bind (db_wrap (''inserting message id='' @ cmID m @ '' into cache: '')
       (db_write F (\<lambda>d. d\<lparr>tCache := AList.update (k, cmID m) (cache_row m) (tCache d)\<rparr>)))
     (\<lambda>_. insert_msgs F k ms)"

definition PutCachedMsgs :: "faults \<Rightarrow> string \<Rightarrow> string \<Rightarrow> string \<Rightarrow> CachedMsg list \<Rightarrow> unit dbm" where
  "PutCachedMsgs F user pair side msgs =
     (if msgs = [] then db_ret ()
      else db_tx F ''begin cache tx: '' ''committing cache: ''
        (db_bind (db_wrap ''preparing cache stmt: '' (db_write F id))
          (\<lambda>_. insert_msgs F (user, pair, side) msgs)))"

definition del_chunk :: nat where "del_chunk = 400"

function DeleteCachedMsgs :: "faults \<Rightarrow> string \<Rightarrow> string \<Rightarrow> string \<Rightarrow> string list \<Rightarrow> unit dbm" where
  "DeleteCachedMsgs F user pair side ids =
     (if ids = [] then db_ret ()
      else db_bind (db_wrap (''deleting messages from cache '' @ ep_path user pair side)
        (db_write F (\<lambda>d. d\<lparr>tCache := tbl_del (\<lambda>(k, i). k = (user, pair, side) \<and> i \<in> set (take del_chunk ids)) (tCache d)\<rparr>)))
        (\<lambda>_. DeleteCachedMsgs F user pair side (drop del_chunk ids)))"
  by pat_completeness auto
termination
  by (relation "measure (\<lambda>(F, user, pair, side, ids). length ids)") (auto simp: del_chunk_def)

declare DeleteCachedMsgs.simps [simp del]

definition ResetEndpoint :: "faults \<Rightarrow> string \<Rightarrow> string \<Rightarrow> string \<Rightarrow> unit dbm" where
  "ResetEndpoint F user pair side =
     (let k = (user, pair, side); msg = ''resetting endpoint '' @ ep_path user pair side in
      db_tx F ''begin endpoint-reset tx: '' []
        (db_bind (db_wrap msg (db_write F (\<lambda>d. d\<lparr>tCache := tbl_del (\<lambda>(k', i). k' = k) (tCache d)\<rparr>)))
          (\<lambda>_. db_wrap msg (db_write F (\<lambda>d. d\<lparr>tEndpoint := tbl_del (\<lambda>k'. k' = k) (tEndpoint d)\<rparr>)))))"

definition PairKey :: "string \<Rightarrow> string \<Rightarrow> string" where
  "PairKey folderA folderB = folderA @ CHR 0x00 # folderB"

section \<open>Run history and status\<close>

record RunResult =
  rAt :: time
  rStatus :: string
  rCopiedAToB :: int
  rCopiedBToA :: int
  rSkippedDup :: int
  rErrors :: int
  rLastError :: string

record UserStatus =
  usLastRun :: time
  usLastOK :: time
  usStatus :: string
  usCopiedAToB :: int
  usCopiedBToA :: int
  usSkippedDup :: int
  usErrors :: int
  usLastError :: string
  usFailSince :: time
  usFailStreak :: int

definition userRunKeep :: nat where "userRunKeep = 200"

definition run_status :: "RunResult \<Rightarrow> string" where
  "run_status r = (if rStatus r = [] then ''ok'' else rStatus r)"

definition run_failed :: "RunResult \<Rightarrow> bool" where "run_failed r = (run_status r = ''error'')"

definition put_run :: "string \<Rightarrow> RunResult \<Rightarrow> db \<Rightarrow> db" where
  "put_run user r d = d\<lparr>tRuns := AList.update (user, unix_sec (rAt r))
     \<lparr>rrStatus = run_status r, rrCopiedAB = rCopiedAToB r, rrCopiedBA = rCopiedBToA r,
      rrSkippedDup = rSkippedDup r, rrErrors = rErrors r, rrLastError = rLastError r\<rparr> (tRuns d)\<rparr>"

text \<open>The row of a first run, and the \<^verbatim>\<open>ON CONFLICT\<close> update of an existing row.\<close>

definition first_status :: "RunResult \<Rightarrow> StatusRow" where
  "first_status r = (let at = unix_sec (rAt r); failed = run_failed r in
     \<lparr>srLastRunAt = at, srLastOkAt = (if failed then 0 else at), srStatus = run_status r,
      srCopiedAB = rCopiedAToB r, srCopiedBA = rCopiedBToA r, srSkippedDup = rSkippedDup r,
      srErrors = rErrors r, srLastError = rLastError r,
      srFailSince = (if failed then at else 0), srFailStreak = (if failed then 1 else 0)\<rparr>)"

definition next_status :: "RunResult \<Rightarrow> StatusRow \<Rightarrow> StatusRow" where
  "next_status r old = (let new = first_status r in
     new\<lparr>srLastOkAt := (if srLastOkAt new > 0 then srLastOkAt new else srLastOkAt old),
         srFailSince := (if srStatus new = ''error''
                         then (if srFailSince old > 0 then srFailSince old else srLastRunAt new) else 0),
         srFailStreak := (if srStatus new = ''error'' then srFailStreak old + 1 else 0)\<rparr>)"

definition put_status :: "string \<Rightarrow> RunResult \<Rightarrow> db \<Rightarrow> db" where
  "put_status user r d = d\<lparr>tStatus := AList.update user
     (case map_of (tStatus d) user of None \<Rightarrow> first_status r | Some old \<Rightarrow> next_status r old) (tStatus d)\<rparr>"

text \<open>The times of a user's runs, newest first (\<^verbatim>\<open>ORDER BY run_at DESC\<close>).\<close>

definition run_times :: "string \<Rightarrow> (string \<times> int, RunRow) table \<Rightarrow> int list" where
  "run_times user t = rev (sort (map (snd \<circ> fst) (filter (\<lambda>r. fst (fst r) = user) t)))"

definition trim_runs :: "string \<Rightarrow> db \<Rightarrow> db" where
  "trim_runs user d = d\<lparr>tRuns := tbl_del (\<lambda>(u, at). u = user \<and> at \<notin> set (take userRunKeep (run_times user (tRuns d)))) (tRuns d)\<rparr>"

definition RecordRun :: "faults \<Rightarrow> string \<Rightarrow> RunResult \<Rightarrow> unit dbm" where
  "RecordRun F user r =
     db_tx F (''begin user_run tx ('' @ user @ ''): '') []
       (db_bind (db_wrap (''writing user_run ('' @ user @ ''): '') (db_write F (put_run user r)))
         (\<lambda>_. db_bind (db_wrap (''writing user_status ('' @ user @ ''): '') (db_write F (put_status user r)))
           (\<lambda>_. db_wrap (''trimming user_run ('' @ user @ ''): '') (db_write F (trim_runs user)))))"

definition scanUserStatus :: "StatusRow \<Rightarrow> UserStatus" where
  "scanUserStatus r = \<lparr>usLastRun = time_unix (srLastRunAt r),
     usLastOK = (if srLastOkAt r > 0 then time_unix (srLastOkAt r) else zero_time), usStatus = srStatus r,
     usCopiedAToB = srCopiedAB r, usCopiedBToA = srCopiedBA r, usSkippedDup = srSkippedDup r, usErrors = srErrors r,
     usLastError = srLastError r,
     usFailSince = (if srFailSince r > 0 then time_unix (srFailSince r) else zero_time), usFailStreak = srFailStreak r\<rparr>"

definition UserStatuses :: "faults \<Rightarrow> (string, UserStatus) table dbm" where
  "UserStatuses F = db_rows F ''reading user_status: '' (\<lambda>d. map (\<lambda>(n, r). (n, scanUserStatus r)) (tStatus d))"

definition UserStatusOf :: "faults \<Rightarrow> string \<Rightarrow> UserStatus option dbm" where
  "UserStatusOf F user = db_wrap (''reading user_status ('' @ user @ ''): '')
     (db_read F (\<lambda>d. map_option scanUserStatus (map_of (tStatus d) user)))"

definition ResumeUser :: "utab \<Rightarrow> faults \<Rightarrow> string \<Rightarrow> unit dbm" where
  "ResumeUser ut F user =
     db_bind (db_wrap (''clearing error streak ('' @ user @ ''): '')
       (db_stmt F (\<lambda>d. let (n, t) = tbl_update (trim_space user) (\<lambda>r. r\<lparr>srFailStreak := 0, srFailSince := 0\<rparr>) (tStatus d)
                       in (n, d\<lparr>tStatus := t\<rparr>))))
       (\<lambda>n. if n = 0 then db_err (errnew (''user '' @ quote_str ut user @ '' has no status (nothing to clear)'')) else db_ret ())"

definition run_of :: "(string \<times> int) \<times> RunRow \<Rightarrow> RunResult" where
  "run_of x = (case x of ((u, at), r) \<Rightarrow> \<lparr>rAt = time_unix at, rStatus = rrStatus r, rCopiedAToB = rrCopiedAB r,
     rCopiedBToA = rrCopiedBA r, rSkippedDup = rrSkippedDup r, rErrors = rrErrors r, rLastError = rrLastError r\<rparr>)"

definition UserRuns :: "faults \<Rightarrow> string \<Rightarrow> int \<Rightarrow> RunResult list dbm" where
  "UserRuns F user limit0 =
     (let limit = (if limit0 \<le> 0 then 50 else limit0) in
      db_rows F (''reading user_run ('' @ user @ ''): '')
        (\<lambda>d. map run_of (take (nat limit) (rev (sort_key (snd \<circ> fst) (filter (\<lambda>x. fst (fst x) = user) (tRuns d)))))))"

definition DeleteUser :: "utab \<Rightarrow> faults \<Rightarrow> string \<Rightarrow> unit dbm" where
  "DeleteUser ut F name =
     db_bind (db_wrap (''deleting user '' @ quote_str ut name @ '': '')
       (db_stmt F (\<lambda>d. let (n, t) = tbl_delete (trim_space name) (tUsers d) in (n, d\<lparr>tUsers := t\<rparr>))))
       (\<lambda>n. if n = 0 then db_err (errnew (''user '' @ quote_str ut name @ '' not found'')) else db_ret ())"

definition DeleteFolderPair :: "utab \<Rightarrow> faults \<Rightarrow> FolderPair \<Rightarrow> unit dbm" where
  "DeleteFolderPair ut F fp =
     db_bind (db_wrap (''deleting folder pair '' @ quote_str ut (fpA fp) @ ''/'' @ quote_str ut (fpB fp) @ '': '')
       (db_stmt F (\<lambda>d. let (n, t) = tbl_delete (trim_space (fpA fp), trim_space (fpB fp)) (tFolders d) in (n, d\<lparr>tFolders := t\<rparr>))))
       (\<lambda>n. if n = 0 then db_err (errnew (''folder pair '' @ quote_str ut (fpA fp) @ ''/'' @ quote_str ut (fpB fp) @ '' not found''))
            else db_ret ())"

definition ForgetUser :: "utab \<Rightarrow> faults \<Rightarrow> string \<Rightarrow> unit dbm" where
  "ForgetUser ut F name0 =
     (let name = trim_space name0; msg = ''clearing state for '' @ quote_str ut name @ '': '' in
      db_tx F (''begin forget tx ('' @ name @ ''): '') []
        (db_bind (db_wrap msg (db_write F (\<lambda>d. d\<lparr>tCache := tbl_del (\<lambda>((u, _, _), _). u = name) (tCache d)\<rparr>)))
        (\<lambda>_. db_bind (db_wrap msg (db_write F (\<lambda>d. d\<lparr>tEndpoint := tbl_del (\<lambda>(u, _, _). u = name) (tEndpoint d)\<rparr>)))
        (\<lambda>_. db_bind (db_wrap msg (db_write F (\<lambda>d. d\<lparr>tStatus := tbl_del (\<lambda>u. u = name) (tStatus d)\<rparr>)))
        (\<lambda>_. db_wrap msg (db_write F (\<lambda>d. d\<lparr>tRuns := tbl_del (\<lambda>(u, _). u = name) (tRuns d)\<rparr>)))))))"

definition Vacuum :: "faults \<Rightarrow> unit dbm" where "Vacuum F = db_wrap ''VACUUM: '' (db_write F id)"

section \<open>Effects\<close>

text \<open>The effect of each operation on the tables.\<close>

definition put_cached :: "ep_key \<Rightarrow> CachedMsg list \<Rightarrow> db \<Rightarrow> db" where
  "put_cached k msgs d = d\<lparr>tCache := fold (\<lambda>(i, r). AList.update i r) (map (\<lambda>m. ((k, cmID m), cache_row m)) msgs) (tCache d)\<rparr>"

definition del_cached :: "ep_key \<Rightarrow> string set \<Rightarrow> db \<Rightarrow> db" where
  "del_cached k ids d = d\<lparr>tCache := tbl_del (\<lambda>(k', i). k' = k \<and> i \<in> ids) (tCache d)\<rparr>"

definition reset_endpoint :: "ep_key \<Rightarrow> db \<Rightarrow> db" where
  "reset_endpoint k d = d\<lparr>tCache := tbl_del (\<lambda>(k', i). k' = k) (tCache d), tEndpoint := tbl_del (\<lambda>k'. k' = k) (tEndpoint d)\<rparr>"

definition save_endpoint :: "ep_key \<Rightarrow> EndpointRow \<Rightarrow> db \<Rightarrow> db" where
  "save_endpoint k r d = d\<lparr>tEndpoint := AList.update k r (tEndpoint d)\<rparr>"

definition record_run :: "string \<Rightarrow> RunResult \<Rightarrow> db \<Rightarrow> db" where
  "record_run user r d = trim_runs user (put_status user r (put_run user r d))"

definition forget_user :: "string \<Rightarrow> db \<Rightarrow> db" where
  "forget_user name d = d\<lparr>tCache := tbl_del (\<lambda>((u, _, _), _). u = name) (tCache d),
     tEndpoint := tbl_del (\<lambda>(u, _, _). u = name) (tEndpoint d), tStatus := tbl_del (\<lambda>u. u = name) (tStatus d),
     tRuns := tbl_del (\<lambda>(u, _). u = name) (tRuns d)\<rparr>"

lemma insert_msgs_effect: "effect (insert_msgs F k msgs) (put_cached k msgs)"
proof (induction msgs)
  case Nil
  have "put_cached k [] = id"
    by (simp add: put_cached_def [abs_def] fun_eq_iff)
  then show ?case
    using effect_ret by (simp only: insert_msgs.simps)
next
  case (Cons m ms)
  have eq: "put_cached k (m # ms) = put_cached k ms \<circ> (\<lambda>d. d\<lparr>tCache := AList.update (k, cmID m) (cache_row m) (tCache d)\<rparr>)"
    by (simp add: put_cached_def [abs_def] fun_eq_iff)
  show ?case
    unfolding insert_msgs.simps eq by (intro effect_bind effect_write Cons)
qed

lemma PutCachedMsgs_atomic: "atomic (PutCachedMsgs F user pair side msgs) (put_cached (user, pair, side) msgs)"
proof (cases "msgs = []")
  case True
  have "put_cached (user, pair, side) [] = id"
    by (simp add: put_cached_def [abs_def] fun_eq_iff)
  then show ?thesis
    using True by (simp add: PutCachedMsgs_def atomic_ret)
next
  case False
  have "effect (db_bind (db_wrap p (db_write F id)) (\<lambda>_. insert_msgs F k msgs)) (put_cached k msgs \<circ> id)" for p k
    by (intro effect_bind effect_write insert_msgs_effect)
  then show ?thesis
    using False by (simp add: PutCachedMsgs_def atomic_tx)
qed

lemma ResetEndpoint_atomic: "atomic (ResetEndpoint F user pair side) (reset_endpoint (user, pair, side))"
proof -
  have "reset_endpoint k = (\<lambda>d. d\<lparr>tEndpoint := tbl_del (\<lambda>k'. k' = k) (tEndpoint d)\<rparr>)
      \<circ> (\<lambda>d. d\<lparr>tCache := tbl_del (\<lambda>(k', i). k' = k) (tCache d)\<rparr>)" for k
    by (simp add: reset_endpoint_def fun_eq_iff)
  then show ?thesis
    unfolding ResetEndpoint_def Let_def by (auto intro!: atomic_tx effect_bind effect_write)
qed

lemma SaveEndpoint_atomic:
  "atomic (SaveEndpoint F now user pair side validity t)
     (save_endpoint (user, pair, side)
       \<lparr>erValidity = validity, erFullResyncAt = (if t \<noteq> zero_time then unix_nano t else 0), erUpdatedAt = unix_sec now\<rparr>)"
  unfolding SaveEndpoint_def Let_def save_endpoint_def [abs_def] by (rule atomic_write)

lemma RecordRun_atomic: "atomic (RecordRun F user r) (record_run user r)"
proof -
  have "record_run user r = (trim_runs user \<circ> put_status user r) \<circ> put_run user r"
    by (simp add: record_run_def fun_eq_iff)
  then show ?thesis
    unfolding RecordRun_def by (auto intro!: atomic_tx effect_bind effect_write)
qed

lemma ForgetUser_atomic: "atomic (ForgetUser ut F name) (forget_user (trim_space name))"
proof -
  have "forget_user n = (((\<lambda>d. d\<lparr>tRuns := tbl_del (\<lambda>(u, _). u = n) (tRuns d)\<rparr>)
      \<circ> (\<lambda>d. d\<lparr>tStatus := tbl_del (\<lambda>u. u = n) (tStatus d)\<rparr>))
      \<circ> (\<lambda>d. d\<lparr>tEndpoint := tbl_del (\<lambda>(u, _, _). u = n) (tEndpoint d)\<rparr>))
      \<circ> (\<lambda>d. d\<lparr>tCache := tbl_del (\<lambda>((u, _, _), _). u = n) (tCache d)\<rparr>)" for n
    by (simp add: forget_user_def fun_eq_iff)
  then show ?thesis
    unfolding ForgetUser_def Let_def by (auto intro!: atomic_tx effect_bind effect_write)
qed

lemma row_op_atomic:
  fixes f :: "db \<Rightarrow> nat \<times> 'x" and upd :: "'x \<Rightarrow> db \<Rightarrow> db"
  assumes "\<And>d. fst (f d) = 0 \<Longrightarrow> upd (snd (f d)) d = d"
  shows "atomic (db_bind (db_wrap p (db_stmt F (\<lambda>d. let (n, t) = f d in (n, upd t d))))
      (\<lambda>n. if n = 0 then db_err e else db_ret ())) (\<lambda>d. upd (snd (f d)) d)"
  using atomic_rows [of "\<lambda>d. let (n, t) = f d in (n, upd t d)" p F e] assms
  by (simp add: Let_def case_prod_beta)

lemma ResumeUser_atomic:
  "atomic (ResumeUser ut F user)
     (\<lambda>d. d\<lparr>tStatus := snd (tbl_update (trim_space user) (\<lambda>r. r\<lparr>srFailStreak := 0, srFailSince := 0\<rparr>) (tStatus d))\<rparr>)"
  unfolding ResumeUser_def
  by (rule row_op_atomic [where upd = "\<lambda>t d. d\<lparr>tStatus := t\<rparr>"]) (simp add: tbl_update_zero)

lemma DeleteUser_atomic:
  "atomic (DeleteUser ut F name) (\<lambda>d. d\<lparr>tUsers := snd (tbl_delete (trim_space name) (tUsers d))\<rparr>)"
  unfolding DeleteUser_def
  by (rule row_op_atomic [where upd = "\<lambda>t d. d\<lparr>tUsers := t\<rparr>"]) (simp add: tbl_delete_zero)

lemma DeleteFolderPair_atomic:
  "atomic (DeleteFolderPair ut F fp) (\<lambda>d. d\<lparr>tFolders := snd (tbl_delete (trim_space (fpA fp), trim_space (fpB fp)) (tFolders d))\<rparr>)"
  unfolding DeleteFolderPair_def
  by (rule row_op_atomic [where upd = "\<lambda>t d. d\<lparr>tFolders := t\<rparr>"]) (simp add: tbl_delete_zero)

lemma Vacuum_atomic: "atomic (Vacuum F) id"
  unfolding Vacuum_def by (rule atomic_write)

lemmas store_atomic = UpsertUser_atomic UpsertFolderPair_atomic SetUserEnabled_atomic PutCachedMsgs_atomic
  ResetEndpoint_atomic SaveEndpoint_atomic RecordRun_atomic ForgetUser_atomic ResumeUser_atomic DeleteUser_atomic
  DeleteFolderPair_atomic Vacuum_atomic

subsection \<open>The chunked delete\<close>

lemma del_cached_del: "del_cached k I (del_cached k J d) = del_cached k (I \<union> J) d"
  by (auto simp: del_cached_def tbl_del_def intro!: arg_cong [where f = "\<lambda>t. d\<lparr>tCache := t\<rparr>"] filter_cong)

lemma del_cached_empty [simp]: "del_cached k {} d = d"
  by (simp add: del_cached_def tbl_del_def case_prod_beta)

lemma DeleteCachedMsgs_outcome:
  "case DeleteCachedMsgs F user pair side ids s of
     (Inr _, s') \<Rightarrow> sdTables s' = del_cached (user, pair, side) (set ids) (sdTables s)
   | (Inl _, s') \<Rightarrow> \<exists>n. sdTables s' = del_cached (user, pair, side) (set (take (del_chunk * n) ids)) (sdTables s)"
proof (induction F user pair side ids arbitrary: s rule: DeleteCachedMsgs.induct)
  case (1 F user pair side ids)
  let ?k = "(user, pair, side)"
  show ?case
  proof (cases "ids = [] \<or> F (sdTick s) \<noteq> None")
    case True
    then show ?thesis
      by (auto simp: DeleteCachedMsgs.simps [of F user pair side ids] db_defs intro!: exI [of _ 0])
  next
    case False
    let ?s = "s\<lparr>sdTables := del_cached ?k (set (take del_chunk ids)) (sdTables s), sdTick := Suc (sdTick s)\<rparr>"
    have eq: "DeleteCachedMsgs F user pair side ids s = DeleteCachedMsgs F user pair side (drop del_chunk ids) ?s"
      using False by (simp add: DeleteCachedMsgs.simps [of F user pair side ids] db_defs del_cached_def)
    have sets: "set (drop del_chunk ids) \<union> set (take del_chunk ids) = set ids"
      by (metis append_take_drop_id set_append sup_commute)
    have takes: "set (take n (drop del_chunk ids)) \<union> set (take del_chunk ids) = set (take (del_chunk + n) ids)" for n
      by (metis set_append sup_commute take_add)
    from False have "ids \<noteq> []" by simp
    from 1 [OF this, of ?s] show ?thesis
      unfolding eq
      by (auto simp: del_cached_del sets takes split: prod.splits sum.splits)
        (metis mult_Suc_right)
  qed
qed

section \<open>Properties\<close>

subsection \<open>Flags and keys\<close>

definition flag_ok :: "string \<Rightarrow> bool" where "flag_ok f = (f \<noteq> [] \<and> CHR '' '' \<notin> set f)"

lemma str_join_Nil: "list_all flag_ok fs \<Longrightarrow> str_join sep fs = [] \<Longrightarrow> fs = []"
  by (cases fs; cases "tl fs") (auto simp: flag_ok_def)

lemma decode_encode_flags: "list_all flag_ok fs \<Longrightarrow> decodeFlags (encodeFlags fs) = fs"
  using str_join_Nil [of fs "'' ''"] split_char_join [of fs "CHR '' ''"]
  by (cases "fs = []") (auto simp: decodeFlags_def encodeFlags_def list_all_iff flag_ok_def)

definition cached_ok :: "CachedMsg \<Rightarrow> bool" where
  "cached_ok m = (list_all flag_ok (cmFlags m) \<and> cmInternalDate m mod second = 0)"

lemma cached_roundtrip: "cached_ok m \<Longrightarrow> cached_of (cmID m) (cache_row m) = m"
proof -
  assume "cached_ok m"
  then have "list_all flag_ok (cmFlags m)" "cmInternalDate m mod second = 0"
    by (simp_all add: cached_ok_def)
  moreover from this(2) have "time_unix (unix_sec (cmInternalDate m)) = cmInternalDate m"
    unfolding time_unix_def unix_sec_def by (rule dvd_div_mult_self [OF mod_0_imp_dvd])
  ultimately show ?thesis
    by (simp add: cached_of_def cache_row_def decode_encode_flags)
qed

text \<open>The key of a folder pair determines the pair, as long as the first folder's name holds no NUL byte.\<close>
theorem PairKey_inject:
  assumes "CHR 0x00 \<notin> set a" and "CHR 0x00 \<notin> set a'"
  shows "PairKey a b = PairKey a' b' \<longleftrightarrow> a = a' \<and> b = b'"
proof -
  have "str_cut (CHR 0x00) (PairKey a b) = Some (a, b)" "str_cut (CHR 0x00) (PairKey a' b') = Some (a', b')"
    unfolding PairKey_def by (rule str_cut_append, rule assms)+
  then show ?thesis
    by (metis option.inject prod.inject)
qed

subsection \<open>Reading the cache back\<close>

lemma cache_of_Cons:
  "cache_of k (d\<lparr>tCache := ((k', i), r) # t\<rparr>) = (if k' = k then [(i, cached_of i r)] else []) @ cache_of k (d\<lparr>tCache := t\<rparr>)"
  by (simp add: cache_of_def List.map_filter_simps)

lemma map_of_cache_of: "map_of (cache_of k d) i = map_option (cached_of i) (map_of (tCache d) (k, i))"
proof -
  have "map_of (cache_of k (d\<lparr>tCache := t\<rparr>)) i = map_option (cached_of i) (map_of t (k, i))" for t
  proof (induction t)
    case Nil
    then show ?case by (simp add: cache_of_def List.map_filter_simps)
  next
    case (Cons x t)
    obtain k' i' r where "x = ((k', i'), r)"
      by (metis prod.collapse)
    then show ?case
      using Cons by (simp add: cache_of_Cons)
  qed
  from this [of "tCache d"] show ?thesis by simp
qed

lemma tCache_put_cached:
  "tCache (put_cached k msgs d) = fold (\<lambda>(i, r). AList.update i r) (map (\<lambda>m. ((k, cmID m), cache_row m)) msgs) (tCache d)"
  by (simp add: put_cached_def)

lemma cache_of_put:
  "map_of (cache_of k (put_cached k msgs d)) = map_of (cache_of k d) ++ map_of (rev (map (\<lambda>m. (cmID m, cached_of (cmID m) (cache_row m))) msgs))"
proof (rule ext)
  fix i
  have rows: "map_of (rev (map (\<lambda>m. ((k, cmID m), cache_row m)) msgs)) (k, i)
    = map_of (rev (map (\<lambda>m. (cmID m, cache_row m)) msgs)) i"
    by (induction msgs rule: rev_induct) auto
  have msgs: "map_of (rev (map (\<lambda>m. (cmID m, cached_of (cmID m) (cache_row m))) msgs)) i
    = map_option (cached_of i) (map_of (rev (map (\<lambda>m. (cmID m, cache_row m)) msgs)) i)"
    by (induction msgs rule: rev_induct) auto
  have "map_of (tCache (put_cached k msgs d)) (k, i)
    = (case map_of (rev (map (\<lambda>m. (cmID m, cache_row m)) msgs)) i of None \<Rightarrow> map_of (tCache d) (k, i) | Some r \<Rightarrow> Some r)"
    by (simp only: tCache_put_cached sql.look_put_all map_add_def rows)
  then show "map_of (cache_of k (put_cached k msgs d)) i
    = (map_of (cache_of k d) ++ map_of (rev (map (\<lambda>m. (cmID m, cached_of (cmID m) (cache_row m))) msgs))) i"
    unfolding map_add_def map_of_cache_of msgs by (simp split: option.split)
qed

lemma cache_of_put_other: "k \<noteq> k' \<Longrightarrow> map_of (cache_of k (put_cached k' msgs d)) = map_of (cache_of k d)"
proof
  fix i
  assume "k \<noteq> k'"
  then have "map_of (rev (map (\<lambda>m. ((k', cmID m), cache_row m)) msgs)) (k, i) = None"
    by (auto simp: map_of_eq_None_iff)
  then show "map_of (cache_of k (put_cached k' msgs d)) i = map_of (cache_of k d) i"
    by (simp add: map_of_cache_of put_cached_def sql.look_put_all map_add_def)
qed

lemma LoadEndpoint_ok:
  "LoadEndpoint no_faults user pair side s = (Inr x, s') \<Longrightarrow>
     sdTables s' = sdTables s \<and> x = (case map_of (tEndpoint (sdTables s)) (user, pair, side) of
        None \<Rightarrow> (no_endpoint, [])
      | Some r \<Rightarrow> (endpoint_of r, cache_of (user, pair, side) (sdTables s)))"
  by (auto simp: LoadEndpoint_def db_defs db_rows_def no_faults_def split: option.splits)


subsection \<open>History and error streak\<close>

lemma map_of_status_record:
  "map_of (tStatus (record_run user r d)) u =
     (if u = user then Some (case map_of (tStatus d) user of None \<Rightarrow> first_status r | Some old \<Rightarrow> next_status r old)
      else map_of (tStatus d) u)"
  by (simp add: record_run_def trim_runs_def put_status_def put_run_def)

definition fail_tail :: "RunResult list \<Rightarrow> RunResult list" where
  "fail_tail rs = takeWhile run_failed (rev rs)"

lemma status_of_runs:
  assumes "map_of (tStatus d) user = None" and "\<forall>r\<in>set rs. unix_sec (rAt r) > 0" and "rs \<noteq> []"
  shows "\<exists>row. map_of (tStatus (fold (record_run user) rs d)) user = Some row
    \<and> srFailStreak row = int (length (fail_tail rs))
    \<and> srFailSince row = (if fail_tail rs = [] then 0 else unix_sec (rAt (last (fail_tail rs))))
    \<and> srStatus row = run_status (last rs) \<and> srLastRunAt row = unix_sec (rAt (last rs))"
  using assms(2,3)
proof (induction rs rule: rev_induct)
  case (snoc r rs)
  show ?case
  proof (cases "rs = []")
    case True
    then show ?thesis
      using assms(1) by (auto simp: map_of_status_record first_status_def Let_def fail_tail_def)
  next
    case False
    then obtain row where row: "map_of (tStatus (fold (record_run user) rs d)) user = Some row"
      "srFailStreak row = int (length (fail_tail rs))"
      "srFailSince row = (if fail_tail rs = [] then 0 else unix_sec (rAt (last (fail_tail rs))))"
      using snoc by auto
    have tail: "fail_tail (rs @ [r]) = (if run_failed r then r # fail_tail rs else [])"
      by (simp add: fail_tail_def)
    have "set (fail_tail rs) \<subseteq> set rs"
      by (auto simp: fail_tail_def dest: set_takeWhileD)
    then have "fail_tail rs \<noteq> [] \<Longrightarrow> srFailSince row > 0"
      using row(3) snoc.prems(1) by (auto dest: last_in_set)
    then show ?thesis
      using row tail
      by (auto simp: map_of_status_record next_status_def first_status_def Let_def run_failed_def)
  qed
qed simp

text \<open>C29: the stored error streak is exactly the number of failed runs since the last run without errors, and
  its start is the time of the first of them; the status shown is that of the last run.\<close>
theorem fail_streak_counts:
  assumes "map_of (tStatus d) user = None" and "\<forall>r\<in>set rs. unix_sec (rAt r) > 0" and "rs \<noteq> []"
  shows "\<exists>st s. UserStatusOf no_faults user \<lparr>sdTables = fold (record_run user) rs d, sdTick = t\<rparr> = (Inr (Some st), s)
    \<and> usFailStreak st = int (length (fail_tail rs))
    \<and> usFailSince st = (if fail_tail rs = [] then zero_time else time_unix (unix_sec (rAt (last (fail_tail rs)))))
    \<and> usStatus st = run_status (last rs)"
proof -
  obtain row where row: "map_of (tStatus (fold (record_run user) rs d)) user = Some row"
    "srFailStreak row = int (length (fail_tail rs))"
    "srFailSince row = (if fail_tail rs = [] then 0 else unix_sec (rAt (last (fail_tail rs))))"
    "srStatus row = run_status (last rs)"
    using status_of_runs [OF assms] by blast
  have "set (fail_tail rs) \<subseteq> set rs"
    by (auto simp: fail_tail_def dest: set_takeWhileD)
  then have "fail_tail rs \<noteq> [] \<Longrightarrow> unix_sec (rAt (last (fail_tail rs))) > 0"
    using assms(2) by (auto dest: last_in_set)
  then show ?thesis
    using row by (simp add: UserStatusOf_def db_defs no_faults_def scanUserStatus_def)
qed

lemma filter_take_distinct: "distinct ys \<Longrightarrow> filter (\<lambda>y. y \<in> set (take n ys)) ys = take n ys"
proof -
  assume d: "distinct ys"
  have "filter (\<lambda>y. y \<in> set (take n ys)) (take n ys @ drop n ys) = take n ys"
    using set_take_disj_set_drop_if_distinct [OF d, of n n] by (auto simp: filter_empty_conv simp del: append_take_drop_id)
  then show ?thesis by simp
qed

lemma user_times_trim:
  "map (snd \<circ> fst) (filter (\<lambda>r. fst (fst r) = user) (tbl_del (\<lambda>(u, at). u = user \<and> at \<notin> S) t))
   = filter (\<lambda>at. at \<in> S) (map (snd \<circ> fst) (filter (\<lambda>r. fst (fst r) = user) t))"
  by (induction t) (auto simp: tbl_del_def)

lemma user_times_distinct: "pkey t \<Longrightarrow> distinct (map (snd \<circ> fst) (filter (\<lambda>r. fst (fst r) = user) t))"
proof -
  assume "pkey t"
  then have "distinct (map fst (filter (\<lambda>r. fst (fst r) = user) t))"
    by (rule distinct_map_filter)
  moreover have "inj_on snd (set (map fst (filter (\<lambda>r. fst (fst r) = user) t)))"
    by (auto simp: inj_on_def)
  ultimately have "distinct (map snd (map fst (filter (\<lambda>r. fst (fst r) = user) t)))"
    using distinct_map by blast
  then show ?thesis by simp
qed

lemma run_times_trim: "pkey (tRuns d) \<Longrightarrow> run_times user (tRuns (trim_runs user d)) = take userRunKeep (run_times user (tRuns d))"
proof -
  assume pk: "pkey (tRuns d)"
  let ?ts = "map (snd \<circ> fst) (filter (\<lambda>r. fst (fst r) = user) (tRuns d))"
  have "tRuns (trim_runs user d)
    = tbl_del (\<lambda>(u, at). u = user \<and> at \<notin> set (take userRunKeep (rev (sort ?ts)))) (tRuns d)"
    by (simp add: trim_runs_def run_times_def)
  then have "run_times user (tRuns (trim_runs user d))
    = rev (sort (filter (\<lambda>at. at \<in> set (take userRunKeep (rev (sort ?ts)))) ?ts))"
    unfolding run_times_def by (simp only: user_times_trim)
  also have "\<dots> = filter (\<lambda>at. at \<in> set (take userRunKeep (rev (sort ?ts)))) (rev (sort ?ts))"
    by (simp add: filter_sort [symmetric] rev_filter)
  also have "\<dots> = take userRunKeep (rev (sort ?ts))"
    using user_times_distinct [OF pk, of user] by (intro filter_take_distinct) simp
  finally show ?thesis
    by (simp add: run_times_def)
qed

lemma put_status_runs [simp]: "tRuns (put_status user r d) = tRuns d"
  by (simp add: put_status_def)

lemma put_run_pkey: "pkey (tRuns d) \<Longrightarrow> pkey (tRuns (put_run user r d))"
  by (simp add: put_run_def distinct_update)

text \<open>C30: recording a run keeps the history of a user bounded: afterwards it consists of the 200 newest of the
  earlier runs and the new one, newest first, and the histories of the other users are untouched.\<close>
theorem history_bounded:
  assumes "db_inv (sdTables s)" and "RecordRun F user r s = (Inr (), s')"
  shows "run_times user (tRuns (sdTables s')) = take 200 (run_times user (tRuns (put_run user r (sdTables s))))
    \<and> length (run_times user (tRuns (sdTables s'))) \<le> 200
    \<and> (u = user \<or> map_of (tRuns (sdTables s')) (u, at) = map_of (tRuns (sdTables s)) (u, at))"
proof -
  have tables: "sdTables s' = record_run user r (sdTables s)"
    using RecordRun_atomic [of F user r] assms(2) by (auto elim!: atomicE [where s = s])
  have "pkey (tRuns (put_status user r (put_run user r (sdTables s))))"
    using assms(1) by (simp add: put_run_pkey db_inv_def)
  from run_times_trim [OF this, of user]
  have times: "run_times user (tRuns (sdTables s')) = take 200 (run_times user (tRuns (put_run user r (sdTables s))))"
    by (simp add: tables record_run_def userRunKeep_def)
  moreover have "u \<noteq> user \<Longrightarrow> map_of (tRuns (sdTables s')) (u, at) = map_of (tRuns (sdTables s)) (u, at)"
    by (simp add: tables record_run_def trim_runs_def put_run_def)
  ultimately show ?thesis
    by auto
qed

subsection \<open>Failures, keys and isolation\<close>


text \<open>the chunked cleaning of the cache deletes exactly the given messages of the endpoint when it succeeds;
  when a chunk fails, a prefix of whole chunks of 400 has been deleted and nothing else has changed.\<close>
theorem delete_cached_chunks:
  "case DeleteCachedMsgs F user pair side ids s of
     (Inr _, s') \<Rightarrow> sdTables s' = del_cached (user, pair, side) (set ids) (sdTables s)
   | (Inl _, s') \<Rightarrow> \<exists>n. sdTables s' = del_cached (user, pair, side) (set (take (400 * n) ids)) (sdTables s)"
  by (rule DeleteCachedMsgs_outcome [unfolded del_chunk_def])

text \<open>Forgetting a user removes every trace of that user from the cache, the endpoints, the status and the
  history, keeps the user in the list of users, and does not touch anything of another user.\<close>
theorem ForgetUser_scope:
  assumes "ForgetUser ut F name s = (Inr (), s')" and "n = trim_space name"
  shows "map_of (tStatus (sdTables s')) n = None
    \<and> map_of (tCache (sdTables s')) ((n, p, sd), i) = None
    \<and> map_of (tEndpoint (sdTables s')) (n, p, sd) = None
    \<and> map_of (tRuns (sdTables s')) (n, at) = None
    \<and> tUsers (sdTables s') = tUsers (sdTables s) \<and> tFolders (sdTables s') = tFolders (sdTables s)
    \<and> (m = n \<or> map_of (tStatus (sdTables s')) m = map_of (tStatus (sdTables s)) m
        \<and> map_of (tCache (sdTables s')) ((m, p, sd), i) = map_of (tCache (sdTables s)) ((m, p, sd), i)
        \<and> map_of (tEndpoint (sdTables s')) (m, p, sd) = map_of (tEndpoint (sdTables s)) (m, p, sd)
        \<and> map_of (tRuns (sdTables s')) (m, at) = map_of (tRuns (sdTables s)) (m, at))"
proof -
  have "sdTables s' = forget_user n (sdTables s)"
    using ForgetUser_atomic [of ut F name] assms by (auto elim!: atomicE [where s = s])
  then show ?thesis
    by (simp add: forget_user_def)
qed

lemma state_effects_inv:
  "db_inv d \<Longrightarrow> db_inv (put_cached k msgs d)" "db_inv d \<Longrightarrow> db_inv (reset_endpoint k d)"
  "db_inv d \<Longrightarrow> db_inv (save_endpoint k row d)" "db_inv d \<Longrightarrow> db_inv (record_run user r d)"
  "db_inv d \<Longrightarrow> db_inv (forget_user user d)" "db_inv d \<Longrightarrow> db_inv (del_cached k ids d)"
  by (simp_all add: db_inv_def put_cached_def reset_endpoint_def save_endpoint_def record_run_def forget_user_def
      del_cached_def trim_runs_def put_status_def put_run_def sql.pk_put_all distinct_update distinct_tbl_del)

section \<open>Examples\<close>

definition sdb_ex :: sdb where
  "sdb_ex = \<lparr>sdTables = empty_db\<lparr>tEndpoint := [((''u'', ''p'', ''a''), \<lparr>erValidity = ''v'', erFullResyncAt = 0, erUpdatedAt = 0\<rparr>)]\<rparr>, sdTick = 0\<rparr>"

definition msg_ex :: CachedMsg where
  "msg_ex = \<lparr>cmID = ''1'', cmMsgID = ''m'', cmXHash = [], cmSurrogate = ''s'', cmInternalDate = 3000000000, cmFlags = [''x'', ''y'']\<rparr>"

definition run_ex :: "int \<Rightarrow> string \<Rightarrow> RunResult" where
  "run_ex t st = \<lparr>rAt = time_unix t, rStatus = st, rCopiedAToB = 0, rCopiedBToA = 0, rSkippedDup = 0, rErrors = 0, rLastError = []\<rparr>"


theorem fail_streak_counts_witness:
  "\<exists>st s. UserStatusOf no_faults ''u'' \<lparr>sdTables = fold (record_run ''u'')
       [run_ex 5 ''error'', run_ex 6 ''ok'', run_ex 7 ''error'', run_ex 8 ''error''] empty_db, sdTick = 0\<rparr> = (Inr (Some st), s)
     \<and> usFailStreak st = 2 \<and> usFailSince st = time_unix 7"
proof -
  let ?rs = "[run_ex 5 ''error'', run_ex 6 ''ok'', run_ex 7 ''error'', run_ex 8 ''error'']"
  have "map_of (tStatus empty_db) ''u'' = None" "\<forall>r\<in>set ?rs. unix_sec (rAt r) > 0"
    by (simp_all add: empty_db_def run_ex_def)
  moreover have "fail_tail ?rs = [run_ex 8 ''error'', run_ex 7 ''error'']"
    by (simp add: fail_tail_def run_failed_def run_status_def run_ex_def)
  moreover have "unix_sec (rAt (run_ex 7 ''error'')) = 7"
    by (simp add: run_ex_def)
  ultimately show ?thesis
    using fail_streak_counts [of empty_db "''u''" ?rs 0] by simp blast
qed

theorem history_bounded_witness:
  "\<exists>s'. RecordRun no_faults ''u'' (run_ex 5 ''ok'') \<lparr>sdTables = empty_db, sdTick = 0\<rparr> = (Inr (), s')
     \<and> length (run_times ''u'' (tRuns (sdTables s'))) \<le> 200"
proof -
  have "\<exists>s'. RecordRun no_faults ''u'' (run_ex 5 ''ok'') \<lparr>sdTables = empty_db, sdTick = 0\<rparr> = (Inr (), s')"
    by (simp add: RecordRun_def db_tx_def db_defs no_faults_def)
  moreover have "db_inv (sdTables \<lparr>sdTables = empty_db, sdTick = 0\<rparr>)"
    by (simp add: db_inv_def empty_db_def)
  ultimately show ?thesis
    using history_bounded by blast
qed

end
