(* ===== verification/Stats.thy ===== *)
theory Stats
  imports GoLib
begin

text \<open>
  Package \<^verbatim>\<open>stats\<close> (\<^verbatim>\<open>internal/stats/stats.go\<close>): per-user counters and the collector of a cycle. A
  \<^verbatim>\<open>*UserStats\<close> is shared by the collector and the synchronizer, so the collector keeps the objects in a
  heap and the operations take a reference (an index). Counters are 64-bit words; each method is one
  atomic step, and the lemmas on event sequences cover every interleaving of the workers.
\<close>

type_synonym counter = "64 word"
type_synonym sref = nat

record Counters =
  kCopiedAToB :: counter
  kCopiedBToA :: counter
  kSkippedDup :: counter
  kErrors :: counter

record UserStats =
  suName :: string
  suC :: Counters
  suLastErr :: string
  suStarted :: time
  suDone :: time

record UserReport =
  repName :: string
  repCopiedAToB :: counter
  repCopiedBToA :: counter
  repSkippedDup :: counter
  repErrors :: counter
  repStarted :: time
  repDone :: time
  repLastErr :: string

record Collector =
  colByName :: "(string, sref) table"
  colOrder :: "string list"
  colCycle :: int
  colCycleT :: time
  colHeap :: "UserStats list"

definition zero_counters :: Counters where
  "zero_counters = \<lparr>kCopiedAToB = 0, kCopiedBToA = 0, kSkippedDup = 0, kErrors = 0\<rparr>"

definition new_user :: "string \<Rightarrow> UserStats" where
  "new_user name = \<lparr>suName = name, suC = zero_counters, suLastErr = [], suStarted = zero_time, suDone = zero_time\<rparr>"

definition NewCollector :: Collector where
  "NewCollector = \<lparr>colByName = [], colOrder = [], colCycle = 0, colCycleT = zero_time, colHeap = []\<rparr>"

definition upd_user :: "sref \<Rightarrow> (UserStats \<Rightarrow> UserStats) \<Rightarrow> Collector \<Rightarrow> Collector" where
  "upd_user p f c = c\<lparr>colHeap := (colHeap c)[p := f (colHeap c ! p)]\<rparr>"

definition IncCopiedAToB :: "sref \<Rightarrow> nat \<Rightarrow> Collector \<Rightarrow> Collector" where
  "IncCopiedAToB p n = upd_user p (\<lambda>u. u\<lparr>suC := (suC u)\<lparr>kCopiedAToB := kCopiedAToB (suC u) + of_nat n\<rparr>\<rparr>)"

definition IncCopiedBToA :: "sref \<Rightarrow> nat \<Rightarrow> Collector \<Rightarrow> Collector" where
  "IncCopiedBToA p n = upd_user p (\<lambda>u. u\<lparr>suC := (suC u)\<lparr>kCopiedBToA := kCopiedBToA (suC u) + of_nat n\<rparr>\<rparr>)"

definition IncSkippedDup :: "sref \<Rightarrow> nat \<Rightarrow> Collector \<Rightarrow> Collector" where
  "IncSkippedDup p n = upd_user p (\<lambda>u. u\<lparr>suC := (suC u)\<lparr>kSkippedDup := kSkippedDup (suC u) + of_nat n\<rparr>\<rparr>)"

definition AddError :: "sref \<Rightarrow> goerr \<Rightarrow> Collector \<Rightarrow> Collector" where
  "AddError p e = upd_user p (\<lambda>u. u\<lparr>suC := (suC u)\<lparr>kErrors := kErrors (suC u) + 1\<rparr>, suLastErr := emsg e\<rparr>)"

definition user_snapshot :: "UserStats \<Rightarrow> UserReport" where
  "user_snapshot u = \<lparr>repName = suName u, repCopiedAToB = kCopiedAToB (suC u), repCopiedBToA = kCopiedBToA (suC u),
     repSkippedDup = kSkippedDup (suC u), repErrors = kErrors (suC u), repStarted = suStarted u, repDone = suDone u,
     repLastErr = suLastErr u\<rparr>"

definition ReportOf :: "sref \<Rightarrow> Collector \<Rightarrow> UserReport" where
  "ReportOf p c = user_snapshot (colHeap c ! p)"

definition InProgress :: "UserReport \<Rightarrow> bool" where
  "InProgress r = (repStarted r \<noteq> zero_time \<and> repDone r = zero_time)"

definition BeginCycle :: "time \<Rightarrow> Collector \<Rightarrow> Collector" where
  "BeginCycle now c = c\<lparr>colByName := [], colOrder := [], colCycle := colCycle c + 1, colCycleT := now\<rparr>"

definition BeginUser :: "time \<Rightarrow> string \<Rightarrow> Collector \<Rightarrow> sref \<times> Collector" where
  "BeginUser now name c =
     (let (p, c1) = (case map_of (colByName c) name of
          Some p \<Rightarrow> (p, c)
        | None \<Rightarrow> (length (colHeap c), c\<lparr>colHeap := colHeap c @ [new_user name],
             colByName := AList.update name (length (colHeap c)) (colByName c), colOrder := colOrder c @ [name]\<rparr>))
      in (p, upd_user p (\<lambda>u. u\<lparr>suStarted := now, suDone := zero_time\<rparr>) c1))"

definition EndUser :: "time \<Rightarrow> sref \<Rightarrow> Collector \<Rightarrow> Collector" where
  "EndUser now p = upd_user p (\<lambda>u. u\<lparr>suDone := now\<rparr>)"

record Report =
  rpCycle :: int
  rpElapsed :: duration
  rpUsers :: "UserReport list"
  rpTotal :: Counters

definition add_total :: "Counters \<Rightarrow> UserReport \<Rightarrow> Counters" where
  "add_total t r = \<lparr>kCopiedAToB = kCopiedAToB t + repCopiedAToB r, kCopiedBToA = kCopiedBToA t + repCopiedBToA r,
     kSkippedDup = kSkippedDup t + repSkippedDup r, kErrors = kErrors t + repErrors r\<rparr>"

definition users_of :: "Collector \<Rightarrow> UserReport list" where
  "users_of c = map (\<lambda>name. ReportOf (the (map_of (colByName c) name)) c) (colOrder c)"

definition Snapshot :: "time \<Rightarrow> Collector \<Rightarrow> Report" where
  "Snapshot now c = \<lparr>rpCycle = colCycle c,
     rpElapsed = (if colCycleT c \<noteq> zero_time then time_sub now (colCycleT c) else 0),
     rpUsers = users_of c, rpTotal = foldl add_total zero_counters (users_of c)\<rparr>"

text \<open>The log lines; \<open>dur\<close> prints a duration rounded to a unit.\<close>

definition word_str :: "counter \<Rightarrow> string" where "word_str w = itoa (sint w)"

definition LogSummary :: "(duration \<Rightarrow> duration \<Rightarrow> string) \<Rightarrow> time \<Rightarrow> Collector \<Rightarrow> string" where
  "LogSummary dur now c =
     (let rep = Snapshot now c; t = rpTotal rep;
          inProg = sort (map (\<lambda>u. repName u @ ''(A->B='' @ word_str (repCopiedAToB u) @ '',B->A='' @ word_str (repCopiedBToA u)
            @ '',dups='' @ word_str (repSkippedDup u) @ '',err='' @ word_str (repErrors u) @ '')'') (filter InProgress (rpUsers rep)))
      in ''summary (cycle '' @ itoa (rpCycle rep) @ '', elapsed '' @ dur second (rpElapsed rep) @ ''): total A->B=''
         @ word_str (kCopiedAToB t) @ '' B->A='' @ word_str (kCopiedBToA t) @ '' dups='' @ word_str (kSkippedDup t)
         @ '' errors='' @ word_str (kErrors t) @ ''; users='' @ itoa (int (length (rpUsers rep)))
         @ (if inProg \<noteq> [] then ''; in progress: '' @ str_join '' '' inProg else []))"

text \<open>
  The goroutine of \<^verbatim>\<open>StartReporter\<close>: the branches its \<^verbatim>\<open>select\<close> takes, a tick at a time with the collector as it is then, or \<open>None\<close> for the
  end of the context; the result is the lines it logs.
\<close>

fun reporter :: "(duration \<Rightarrow> duration \<Rightarrow> string) \<Rightarrow> (time \<times> Collector) option list \<Rightarrow> string list" where
  "reporter dur [] = []"
| "reporter dur (None # evs) = []"
| "reporter dur (Some (now, c) # evs) = LogSummary dur now c # reporter dur evs"

definition StartReporter :: "(duration \<Rightarrow> duration \<Rightarrow> string) \<Rightarrow> duration \<Rightarrow> (time \<times> Collector) option list \<Rightarrow> string list" where
  "StartReporter dur every evs = (if every \<le> 0 then [] else reporter dur evs)"

definition LogUser :: "(duration \<Rightarrow> duration \<Rightarrow> string) \<Rightarrow> sref \<Rightarrow> Collector \<Rightarrow> string" where
  "LogUser dur p c =
     (let r = ReportOf p c;
          d = (if repStarted r \<noteq> zero_time \<and> repDone r \<noteq> zero_time
               then '' in '' @ dur 1000000 (time_sub (repDone r) (repStarted r)) else [])
      in ''user '' @ repName r @ d @ '': copied A->B='' @ word_str (repCopiedAToB r) @ '' B->A='' @ word_str (repCopiedBToA r)
         @ '', skipped dups='' @ word_str (repSkippedDup r) @ '', errors='' @ word_str (repErrors r)
         @ (if repLastErr r \<noteq> [] then '' (last error: '' @ repLastErr r @ '')'' else []))"

section \<open>The collector invariant\<close>

definition col_inv :: "Collector \<Rightarrow> bool" where
  "col_inv c = (distinct (colOrder c) \<and> set (colOrder c) = fst ` set (colByName c) \<and> distinct (map fst (colByName c))
     \<and> distinct (map snd (colByName c)) \<and> (\<forall>(n, p)\<in>set (colByName c). p < length (colHeap c) \<and> suName (colHeap c ! p) = n))"

lemma upd_user_sel [simp]:
  "colByName (upd_user p f c) = colByName c" "colOrder (upd_user p f c) = colOrder c"
  "colCycle (upd_user p f c) = colCycle c" "length (colHeap (upd_user p f c)) = length (colHeap c)"
  by (simp_all add: upd_user_def)

lemma upd_user_heap:
  "p < length (colHeap c) \<Longrightarrow> colHeap (upd_user p f c) ! q = (if q = p then f (colHeap c ! p) else colHeap c ! q)"
  by (simp add: upd_user_def nth_list_update)

lemma upd_user_name:
  "(\<And>u. suName (f u) = suName u) \<Longrightarrow> suName ((colHeap c)[p := f (colHeap c ! p)] ! q) = suName (colHeap c ! q)"
  by (cases "p < length (colHeap c)") (auto simp: nth_list_update list_update_beyond)

lemma upd_user_inv: "col_inv c \<Longrightarrow> (\<And>u. suName (f u) = suName u) \<Longrightarrow> col_inv (upd_user p f c)"
  by (simp add: col_inv_def upd_user_def upd_user_name)

lemma BeginCycle_inv: "col_inv c \<Longrightarrow> col_inv (BeginCycle now c)"
  by (simp add: col_inv_def BeginCycle_def)

lemma NewCollector_inv: "col_inv NewCollector"
  by (simp add: col_inv_def NewCollector_def)

definition register :: "string \<Rightarrow> Collector \<Rightarrow> Collector" where
  "register name c = c\<lparr>colHeap := colHeap c @ [new_user name],
     colByName := AList.update name (length (colHeap c)) (colByName c), colOrder := colOrder c @ [name]\<rparr>"

lemma alist_update_absent: "k \<notin> fst ` set t \<Longrightarrow> AList.update k v t = t @ [(k, v)]"
  by (induction t) auto

lemma register_inv:
  assumes inv: "col_inv c" and new: "map_of (colByName c) name = None"
  shows "col_inv (register name c)"
proof -
  have abs: "name \<notin> fst ` set (colByName c)"
    using new by (simp add: map_of_eq_None_iff)
  have "length (colHeap c) \<notin> snd ` set (colByName c)"
    using inv by (fastforce simp: col_inv_def)
  then show ?thesis
    using inv abs by (fastforce simp: col_inv_def register_def alist_update_absent new_user_def nth_append)
qed

lemma BeginUser_cases:
  "BeginUser now name c = (case map_of (colByName c) name of
     Some p \<Rightarrow> (p, upd_user p (\<lambda>u. u\<lparr>suStarted := now, suDone := zero_time\<rparr>) c)
   | None \<Rightarrow> (length (colHeap c), upd_user (length (colHeap c)) (\<lambda>u. u\<lparr>suStarted := now, suDone := zero_time\<rparr>) (register name c)))"
  by (simp add: BeginUser_def register_def Let_def split: option.splits)

lemma BeginUser_inv: "col_inv c \<Longrightarrow> col_inv (snd (BeginUser now name c))"
  by (auto simp: BeginUser_cases intro!: upd_user_inv register_inv split: option.splits)

text \<open>What the synchronizer gets from \<open>BeginUser\<close>: a live reference registered under the name.\<close>

lemma BeginUser_ref:
  assumes "col_inv c" and "BeginUser now name c = (p, c')"
  shows "p < length (colHeap c')" "map_of (colByName c') name = Some p" "suName (colHeap c' ! p) = name"
    "suStarted (colHeap c' ! p) = now" "suDone (colHeap c' ! p) = zero_time"
proof -
  have "p < length (colHeap c') \<and> map_of (colByName c') name = Some p \<and> suName (colHeap c' ! p) = name
    \<and> suStarted (colHeap c' ! p) = now \<and> suDone (colHeap c' ! p) = zero_time"
  proof (cases "map_of (colByName c) name")
    case None
    then show ?thesis
      using assms by (auto simp: BeginUser_cases register_def upd_user_heap new_user_def)
  next
    case (Some q)
    then have "q < length (colHeap c)" "suName (colHeap c ! q) = name"
      using assms(1) map_of_SomeD [OF Some] by (auto simp: col_inv_def)
    then show ?thesis
      using assms Some by (auto simp: BeginUser_cases upd_user_heap)
  qed
  then show "p < length (colHeap c')" "map_of (colByName c') name = Some p" "suName (colHeap c' ! p) = name"
    "suStarted (colHeap c' ! p) = now" "suDone (colHeap c' ! p) = zero_time"
    by simp_all
qed

section \<open>Properties\<close>

lemma add_total_sum:
  "foldl add_total t rs = \<lparr>kCopiedAToB = kCopiedAToB t + sum_list (map repCopiedAToB rs),
     kCopiedBToA = kCopiedBToA t + sum_list (map repCopiedBToA rs),
     kSkippedDup = kSkippedDup t + sum_list (map repSkippedDup rs), kErrors = kErrors t + sum_list (map repErrors rs)\<rparr>"
  by (induction rs arbitrary: t) (auto simp: add_total_def)

text \<open>The summary of a cycle lists every registered user once, in the order of their first start, and its
  totals are the sums of the listed counters.\<close>
theorem Snapshot_totals:
  assumes "col_inv c"
  shows "map repName (rpUsers (Snapshot now c)) = colOrder c \<and> distinct (colOrder c)
    \<and> kCopiedAToB (rpTotal (Snapshot now c)) = sum_list (map repCopiedAToB (rpUsers (Snapshot now c)))
    \<and> kCopiedBToA (rpTotal (Snapshot now c)) = sum_list (map repCopiedBToA (rpUsers (Snapshot now c)))
    \<and> kSkippedDup (rpTotal (Snapshot now c)) = sum_list (map repSkippedDup (rpUsers (Snapshot now c)))
    \<and> kErrors (rpTotal (Snapshot now c)) = sum_list (map repErrors (rpUsers (Snapshot now c)))"
proof -
  have "suName (colHeap c ! the (map_of (colByName c) n)) = n" if n: "n \<in> set (colOrder c)" for n
  proof -
    obtain p where "map_of (colByName c) n = Some p"
      using n assms by (metis (no_types) col_inv_def map_of_eq_None_iff not_None_eq)
    then show ?thesis
      using assms map_of_SomeD by (fastforce simp: col_inv_def)
  qed
  then have "map repName (users_of c) = colOrder c"
    by (simp add: users_of_def ReportOf_def user_snapshot_def comp_def map_idI)
  then show ?thesis
    using assms by (simp add: Snapshot_def add_total_sum zero_counters_def col_inv_def)
qed

text \<open>Counter updates of the workers, as events.\<close>

datatype stat_event = CopiedAB sref nat | CopiedBA sref nat | Skipped sref nat | Failed sref goerr

fun apply_event :: "stat_event \<Rightarrow> Collector \<Rightarrow> Collector" where
  "apply_event (CopiedAB p n) = IncCopiedAToB p n"
| "apply_event (CopiedBA p n) = IncCopiedBToA p n"
| "apply_event (Skipped p n) = IncSkippedDup p n"
| "apply_event (Failed p e) = AddError p e"

definition event_delta :: "sref \<Rightarrow> stat_event \<Rightarrow> Counters" where
  "event_delta p ev = (case ev of
     CopiedAB q n \<Rightarrow> if q = p then zero_counters\<lparr>kCopiedAToB := of_nat n\<rparr> else zero_counters
   | CopiedBA q n \<Rightarrow> if q = p then zero_counters\<lparr>kCopiedBToA := of_nat n\<rparr> else zero_counters
   | Skipped q n \<Rightarrow> if q = p then zero_counters\<lparr>kSkippedDup := of_nat n\<rparr> else zero_counters
   | Failed q e \<Rightarrow> if q = p then zero_counters\<lparr>kErrors := 1\<rparr> else zero_counters)"

lemmas event_defs = IncCopiedAToB_def IncCopiedBToA_def IncSkippedDup_def AddError_def

lemma apply_event_counters:
  assumes "p < length (colHeap c)"
  shows "kCopiedAToB (suC (colHeap (apply_event ev c) ! p)) = kCopiedAToB (suC (colHeap c ! p)) + kCopiedAToB (event_delta p ev)"
    "kCopiedBToA (suC (colHeap (apply_event ev c) ! p)) = kCopiedBToA (suC (colHeap c ! p)) + kCopiedBToA (event_delta p ev)"
    "kSkippedDup (suC (colHeap (apply_event ev c) ! p)) = kSkippedDup (suC (colHeap c ! p)) + kSkippedDup (event_delta p ev)"
    "kErrors (suC (colHeap (apply_event ev c) ! p)) = kErrors (suC (colHeap c ! p)) + kErrors (event_delta p ev)"
    "length (colHeap (apply_event ev c)) = length (colHeap c)"
  using assms
  by (cases ev; auto simp: event_delta_def event_defs zero_counters_def upd_user_def nth_list_update)+

lemma fold_events_counters:
  assumes "p < length (colHeap c)"
  shows "kCopiedAToB (suC (colHeap (fold apply_event evs c) ! p))
      = kCopiedAToB (suC (colHeap c ! p)) + sum_list (map (\<lambda>ev. kCopiedAToB (event_delta p ev)) evs)
    \<and> kCopiedBToA (suC (colHeap (fold apply_event evs c) ! p))
      = kCopiedBToA (suC (colHeap c ! p)) + sum_list (map (\<lambda>ev. kCopiedBToA (event_delta p ev)) evs)
    \<and> kSkippedDup (suC (colHeap (fold apply_event evs c) ! p))
      = kSkippedDup (suC (colHeap c ! p)) + sum_list (map (\<lambda>ev. kSkippedDup (event_delta p ev)) evs)
    \<and> kErrors (suC (colHeap (fold apply_event evs c) ! p))
      = kErrors (suC (colHeap c ! p)) + sum_list (map (\<lambda>ev. kErrors (event_delta p ev)) evs)"
  using assms
proof (induction evs arbitrary: c)
  case (Cons ev evs)
  then show ?case
    using Cons.IH [of "apply_event ev c"] by (simp add: apply_event_counters add.assoc)
qed simp


definition col_ex :: Collector where
  "col_ex = snd (BeginUser 5 ''u'' (BeginCycle 1 NewCollector))"

lemma col_ex_inv: "col_inv col_ex"
  unfolding col_ex_def by (intro BeginUser_inv BeginCycle_inv NewCollector_inv)


end
