(* ===== verification/Discover.thy ===== *)
theory Discover
  imports Endpoint
begin

text \<open>
  Folder discovery (\<^verbatim>\<open>internal/syncer/discover.go\<close>), the pure part: filtering the folder lists and pairing
  them by SPECIAL-USE attribute and then by name. The flag arrays \<^verbatim>\<open>matchedA\<close> and \<^verbatim>\<open>usedB\<close> are the index
  pairs matched so far.
\<close>

section \<open>Operations\<close>

fun isExcluded :: "utab \<Rightarrow> FolderInfo \<Rightarrow> string list \<Rightarrow> bool" where
  "isExcluded ut f [] = False"
| "isExcluded ut f (ex0 # exs) =
     (let ex = trim_space ex0 in
      if ex = [] then isExcluded ut f exs
      else if equal_fold ut ex (fiName f) then True
      else if fiSpecialUse f \<noteq> [] \<and> equal_fold ut ex (fiSpecialUse f) then True
      else isExcluded ut f exs)"

definition filterFolders :: "utab \<Rightarrow> FolderInfo list \<Rightarrow> string list \<Rightarrow> FolderInfo list" where
  "filterFolders ut folders exclude = filter (\<lambda>f. fiSelectable f \<and> \<not> isExcluded ut f exclude) folders"

definition special_match :: "utab \<Rightarrow> FolderInfo \<Rightarrow> FolderInfo \<Rightarrow> bool" where
  "special_match ut fa fb = (fiSpecialUse fa \<noteq> [] \<and> fiSpecialUse fb \<noteq> [] \<and> equal_fold ut (fiSpecialUse fa) (fiSpecialUse fb))"

definition name_match :: "utab \<Rightarrow> FolderInfo \<Rightarrow> FolderInfo \<Rightarrow> bool" where
  "name_match ut fa fb = equal_fold ut (fiName fa) (fiName fb)"

text \<open>One loop of \<^verbatim>\<open>matchFolders\<close>: each folder of A that is not matched takes the first free folder of B.\<close>

fun match_pass :: "(FolderInfo \<Rightarrow> FolderInfo \<Rightarrow> bool) \<Rightarrow> FolderInfo list \<Rightarrow> FolderInfo list \<Rightarrow> nat list
    \<Rightarrow> (nat \<times> nat) list \<Rightarrow> (nat \<times> nat) list" where
  "match_pass P a b [] ms = ms"
| "match_pass P a b (i # is) ms =
     (if i \<in> fst ` set ms then match_pass P a b is ms
      else case find (\<lambda>j. j \<notin> snd ` set ms \<and> P (a ! i) (b ! j)) [0..<length b] of
        None \<Rightarrow> match_pass P a b is ms
      | Some j \<Rightarrow> match_pass P a b is (ms @ [(i, j)]))"

definition match_indices :: "utab \<Rightarrow> FolderInfo list \<Rightarrow> FolderInfo list \<Rightarrow> (nat \<times> nat) list" where
  "match_indices ut a b =
     match_pass (name_match ut) a b [0..<length a] (match_pass (special_match ut) a b [0..<length a] [])"

definition matchFolders :: "utab \<Rightarrow> FolderInfo list \<Rightarrow> FolderInfo list \<Rightarrow> FolderPair list \<times> FolderInfo list \<times> FolderInfo list" where
  "matchFolders ut a b =
     (let ms = match_indices ut a b in
      (map (\<lambda>(i, j). \<lparr>fpA = fiName (a ! i), fpB = fiName (b ! j)\<rparr>) ms,
       map (\<lambda>i. a ! i) (filter (\<lambda>i. i \<notin> fst ` set ms) [0..<length a]),
       map (\<lambda>j. b ! j) (filter (\<lambda>j. j \<notin> snd ` set ms) [0..<length b])))"

section \<open>Properties\<close>

lemma isExcluded_iff:
  "isExcluded ut f exs \<longleftrightarrow> (\<exists>ex\<in>set exs. trim_space ex \<noteq> [] \<and> (equal_fold ut (trim_space ex) (fiName f)
     \<or> fiSpecialUse f \<noteq> [] \<and> equal_fold ut (trim_space ex) (fiSpecialUse f)))"
  by (induction ut f exs rule: isExcluded.induct) (auto simp: Let_def)

text \<open>The invariant of the loops: a partial matching in which every pair satisfies \<open>Q\<close>.\<close>

definition matching :: "(FolderInfo \<Rightarrow> FolderInfo \<Rightarrow> bool) \<Rightarrow> FolderInfo list \<Rightarrow> FolderInfo list \<Rightarrow> (nat \<times> nat) list \<Rightarrow> bool" where
  "matching Q a b ms = (distinct (map fst ms) \<and> distinct (map snd ms)
     \<and> (\<forall>(i, j)\<in>set ms. i < length a \<and> j < length b \<and> Q (a ! i) (b ! j)))"

lemma match_pass_matching:
  assumes "matching Q a b ms" and "\<And>x y. P x y \<Longrightarrow> Q x y" and "\<forall>i\<in>set is. i < length a"
  shows "matching Q a b (match_pass P a b is ms)"
  using assms
proof (induction P a b "is" ms rule: match_pass.induct)
  case (2 P a b i "is" ms)
  show ?case
  proof (cases "i \<in> fst ` set ms")
    case False
    note new = False
    show ?thesis
    proof (cases "find (\<lambda>j. j \<notin> snd ` set ms \<and> P (a ! i) (b ! j)) [0..<length b]")
      case (Some j)
      then have "j < length b" "j \<notin> snd ` set ms" "P (a ! i) (b ! j)"
        by (auto simp: find_Some_iff)
      then have "matching Q a b (ms @ [(i, j)])"
        using 2(4-6) new by (auto simp: matching_def)
      then show ?thesis
        using 2(3) [OF new Some] 2(5,6) new Some by simp
    qed (use 2 in auto)
  qed (use 2 in auto)
qed simp

lemma match_pass_prefix: "prefix ms (match_pass P a b is ms)"
proof (induction P a b "is" ms rule: match_pass.induct)
  case (2 P a b i "is" ms)
  then show ?case
    by (auto split: option.splits) (metis append_prefixD)
qed simp

text \<open>What stays free after a loop has no partner under its criterion.\<close>

lemma match_pass_maximal:
  assumes "i \<in> set is" "i \<notin> fst ` set (match_pass P a b is ms)" "j < length b" "j \<notin> snd ` set (match_pass P a b is ms)"
  shows "\<not> P (a ! i) (b ! j)"
  using assms
proof (induction P a b "is" ms rule: match_pass.induct)
  case (2 P a b k "is" ms)
  show ?case
  proof (cases "k \<in> fst ` set ms")
    case True
    have "i \<noteq> k"
      using True 2(5) set_mono_prefix [OF match_pass_prefix [of ms P a b "is"]] by auto
    then show ?thesis
      using 2 True by simp
  next
    case new: False
    show ?thesis
    proof (cases "find (\<lambda>j. j \<notin> snd ` set ms \<and> P (a ! k) (b ! j)) [0..<length b]")
      case None
      have "j \<notin> snd ` set ms"
        using 2(7) new None match_pass_prefix [of ms P a b "is"] by (auto dest: set_mono_prefix)
      then have "\<not> P (a ! k) (b ! j)"
        using None 2(6) by (auto simp: find_None_iff)
      then show ?thesis
        using 2 new None by (cases "i = k") auto
    next
      case (Some l)
      have "k \<in> fst ` set (match_pass P a b is (ms @ [(k, l)]))"
        using match_pass_prefix [of "ms @ [(k, l)]" P a b "is"] by (force dest: set_mono_prefix)
      then have "i \<noteq> k"
        using 2(5) new Some by auto
      then show ?thesis
        using 2 new Some by simp
    qed
  qed
qed simp

lemma match_indices_matching:
  "matching (\<lambda>x y. special_match ut x y \<or> name_match ut x y) a b (match_indices ut a b)"
proof -
  let ?Q = "\<lambda>x y. special_match ut x y \<or> name_match ut x y"
  have "matching ?Q a b (match_pass (special_match ut) a b [0..<length a] [])"
    by (rule match_pass_matching) (auto simp: matching_def)
  then show ?thesis
    unfolding match_indices_def by (rule match_pass_matching) auto
qed

lemma index_partition:
  assumes "distinct (map f ms)" "\<forall>m\<in>set ms. f m < n"
  shows "length ms + length (filter (\<lambda>i. i \<notin> f ` set ms) [0..<n]) = n"
proof -
  have "length (filter (\<lambda>i. i \<in> f ` set ms) [0..<n]) = card (f ` set ms)"
  proof -
    have "{i. i < n \<and> i \<in> f ` set ms} = f ` set ms"
      using assms(2) by auto
    then show ?thesis
      by (simp add: length_filter_conv_card cong: conj_cong)
  qed
  also have "\<dots> = length ms"
    using assms(1) by (metis distinct_card length_map set_map)
  finally show ?thesis
    using sum_length_filter_compl [of "\<lambda>i. i \<in> f ` set ms" "[0..<n]"] by simp
qed

text \<open>C35: pairing the folders of two mailboxes gives a matching: no folder of either side is used twice, every
  pair agrees in its SPECIAL-USE attribute or, up to case, in its name, every folder is either paired or
  left over, and no two left-over folders could still have been paired.\<close>
theorem matchFolders_matching:
  assumes "matchFolders ut a b = (pairs, onlyA, onlyB)"
  shows "\<exists>ms. matching (\<lambda>x y. special_match ut x y \<or> name_match ut x y) a b ms
    \<and> pairs = map (\<lambda>(i, j). \<lparr>fpA = fiName (a ! i), fpB = fiName (b ! j)\<rparr>) ms
    \<and> length pairs + length onlyA = length a \<and> length pairs + length onlyB = length b
    \<and> (\<forall>x\<in>set onlyA. \<forall>y\<in>set onlyB. \<not> special_match ut x y \<and> \<not> name_match ut x y)"
proof -
  let ?ms = "match_indices ut a b"
  let ?m1 = "match_pass (special_match ut) a b [0..<length a] []"
  have m: "matching (\<lambda>x y. special_match ut x y \<or> name_match ut x y) a b ?ms"
    by (rule match_indices_matching)
  have parts: "pairs = map (\<lambda>(i, j). \<lparr>fpA = fiName (a ! i), fpB = fiName (b ! j)\<rparr>) ?ms"
    "onlyA = map (\<lambda>i. a ! i) (filter (\<lambda>i. i \<notin> fst ` set ?ms) [0..<length a])"
    "onlyB = map (\<lambda>j. b ! j) (filter (\<lambda>j. j \<notin> snd ` set ?ms) [0..<length b])"
    using assms by (simp_all add: matchFolders_def Let_def)
  have d: "distinct (map fst ?ms)" "distinct (map snd ?ms)"
    using m by (simp_all add: matching_def)
  have r: "\<forall>x\<in>set ?ms. fst x < length a" "\<forall>x\<in>set ?ms. snd x < length b"
    using m by (force simp: matching_def)+
  have "length pairs + length onlyA = length a" "length pairs + length onlyB = length b"
    using index_partition [OF d(1) r(1)] index_partition [OF d(2) r(2)] by (simp_all add: parts)
  moreover have "\<not> special_match ut (a ! i) (b ! j) \<and> \<not> name_match ut (a ! i) (b ! j)"
    if "i < length a" "i \<notin> fst ` set ?ms" "j < length b" "j \<notin> snd ` set ?ms" for i j
  proof -
    have "set ?m1 \<subseteq> set ?ms"
      unfolding match_indices_def by (rule set_mono_prefix [OF match_pass_prefix])
    then have "i \<notin> fst ` set ?m1" "j \<notin> snd ` set ?m1"
      using that by auto
    then show ?thesis
      using match_pass_maximal [of i "[0..<length a]" "special_match ut" a b "[]" j]
        match_pass_maximal [of i "[0..<length a]" "name_match ut" a b ?m1 j] that
      by (simp add: match_indices_def)
  qed
  ultimately show ?thesis
    using m parts by (intro exI [of _ ?ms]) auto
qed

definition fld :: "string \<Rightarrow> string \<Rightarrow> FolderInfo" where
  "fld n u = \<lparr>fiName = n, fiSpecialUse = u, fiSelectable = True\<rparr>"

lemma equal_fold_ex:
  "equal_fold ut_ex ''s'' ''s''" "\<not> equal_fold ut_ex ''x'' ''y''" "equal_fold ut_ex ''x'' ''x''"
  by (auto simp: equal_fold_ascii ascii_def ascii_lower_def)

theorem matchFolders_matching_witness:
  "\<exists>ms. length (fst (matchFolders ut_ex [fld ''x'' ''s''] [fld ''y'' ''s''])) + length (fst (snd (matchFolders ut_ex [fld ''x'' ''s''] [fld ''y'' ''s'']))) = 1
     \<and> fst (matchFolders ut_ex [fld ''x'' ''s''] [fld ''y'' ''s'']) = map (\<lambda>(i, j). \<lparr>fpA = fiName ([fld ''x'' ''s''] ! i), fpB = fiName ([fld ''y'' ''s''] ! j)\<rparr>) ms"
proof -
  obtain p oa ob where m: "matchFolders ut_ex [fld ''x'' ''s''] [fld ''y'' ''s''] = (p, oa, ob)"
    using prod_cases3 by blast
  show ?thesis
    using matchFolders_matching [OF m] unfolding m by auto
qed

text \<open>The folder filter keeps exactly the selectable folders that no exclude entry names, in their order;
  an entry names a folder by its name or its SPECIAL-USE attribute, up to case and surrounding blanks,
  and an empty entry excludes nothing.\<close>
theorem filterFolders_spec:
  "filterFolders ut fs exclude = filter (\<lambda>f. fiSelectable f \<and>
     {trim_space ex |ex. ex \<in> set exclude \<and> trim_space ex \<noteq> []} \<inter>
     {ex. equal_fold ut ex (fiName f) \<or> fiSpecialUse f \<noteq> [] \<and> equal_fold ut ex (fiSpecialUse f)} = {}) fs"
  unfolding filterFolders_def isExcluded_iff by (rule filter_cong) auto

end
