(* ===== verification/Syncer.thy ===== *)
theory Syncer
  imports Dedup State Stats Discover "HOL-Library.State_Monad"
begin

text \<open>
  Package \<^verbatim>\<open>syncer\<close>, the synchronization of one user (\<^verbatim>\<open>internal/syncer/syncer.go\<close> and the session part of
  \<^verbatim>\<open>discover.go\<close>). The operations are programs of the state monad over a \<open>world\<close>: the two sides, the state
  database, the statistics collector, the errors that \<^verbatim>\<open>recordErr\<close> has logged, and a counter of the
  questions put to the clock and the context. What the environment answers (library functions, clock,
  faults of the database, iteration order of Go maps) is a record of the synchronizer; a context is the
  pair of its answers to \<^verbatim>\<open>Err\<close> and to a select between \<^verbatim>\<open>Done\<close> and a timer. Log lines other than
  those of \<^verbatim>\<open>recordErr\<close> are output only and left out.
\<close>

section \<open>State\<close>

record 'e world =
  wA :: 'e
  wB :: 'e
  wDB :: sdb
  wCol :: Collector
  wErrs :: "goerr list"
  wTick :: nat

record env =
  evLib :: golib
  evNow :: "nat \<Rightarrow> time"
  evFaults :: faults
  evOrder :: "string list \<Rightarrow> string list"

record gctx =
  cxErr :: "nat \<Rightarrow> goerr option"
  cxWait :: "duration \<Rightarrow> nat \<Rightarrow> goerr option"

record 'e Syncer =
  yCfg :: Config
  yState :: bool                \<comment> \<open>state != nil\<close>
  yBackendA :: "'e Backend"
  yBackendB :: "'e Backend"
  yDirAToB :: bool
  yDirBToA :: bool
  yEnv :: env

record 'e session =
  ssS :: "'e Syncer"
  ssCtx :: gctx
  ssU :: User
  ssUs :: sref
  ssA :: "'e Endpoint option"
  ssB :: "'e Endpoint option"

type_synonym ('e, 'x) sync = "('e world, 'x) state"

abbreviation ret :: "'x \<Rightarrow> ('e, 'x) sync" where "ret \<equiv> State_Monad.return"

abbreviation yUT :: "'e Syncer \<Rightarrow> utab" where "yUT S \<equiv> g_ut (evLib (yEnv S))"

section \<open>Access to the world\<close>

definition on_A :: "('e \<Rightarrow> 'x \<times> 'e) \<Rightarrow> ('e, 'x) sync" where
  "on_A f = State (\<lambda>w. case f (wA w) of (x, a) \<Rightarrow> (x, w\<lparr>wA := a\<rparr>))"

definition on_B :: "('e \<Rightarrow> 'x \<times> 'e) \<Rightarrow> ('e, 'x) sync" where
  "on_B f = State (\<lambda>w. case f (wB w) of (x, b) \<Rightarrow> (x, w\<lparr>wB := b\<rparr>))"

text \<open>The sides are named \<^verbatim>\<open>"a"\<close> and \<^verbatim>\<open>"b"\<close>; as in \<^verbatim>\<open>session.endpoint\<close>, everything but \<^verbatim>\<open>"b"\<close> is side A.\<close>

definition on_side :: "string \<Rightarrow> ('e \<Rightarrow> 'x \<times> 'e) \<Rightarrow> ('e, 'x) sync" where
  "on_side side f = (if side = ''b'' then on_B f else on_A f)"

definition on_db :: "'x dbm \<Rightarrow> ('e, 'x result) sync" where
  "on_db m = State (\<lambda>w. case m (wDB w) of (r, d) \<Rightarrow> (r, w\<lparr>wDB := d\<rparr>))"

definition on_stats :: "(Collector \<Rightarrow> Collector) \<Rightarrow> ('e, unit) sync" where
  "on_stats f = State (\<lambda>w. ((), w\<lparr>wCol := f (wCol w)\<rparr>))"

definition get_stats :: "(Collector \<Rightarrow> 'x) \<Rightarrow> ('e, 'x) sync" where
  "get_stats f = State (\<lambda>w. (f (wCol w), w))"

definition ask :: "(nat \<Rightarrow> 'x) \<Rightarrow> ('e, 'x) sync" where
  "ask f = State (\<lambda>w. (f (wTick w), w\<lparr>wTick := Suc (wTick w)\<rparr>))"

abbreviation clock :: "'e Syncer \<Rightarrow> ('e, time) sync" where "clock S \<equiv> ask (evNow (yEnv S))"

abbreviation ctx_err :: "gctx \<Rightarrow> ('e, goerr option) sync" where "ctx_err c \<equiv> ask (cxErr c)"

definition recordErr :: "sref \<Rightarrow> goerr \<Rightarrow> ('e, unit) sync" where
  "recordErr us err = State (\<lambda>w. ((), w\<lparr>wCol := AddError us err (wCol w), wErrs := wErrs w @ [err]\<rparr>))"

fun recordErrs :: "sref \<Rightarrow> goerr list \<Rightarrow> ('e, unit) sync" where
  "recordErrs us [] = ret ()"
| "recordErrs us (e # es) = do { recordErr us e; recordErrs us es }"

text \<open>\<^verbatim>\<open>if err := ...; err != nil { s.recordErr(us, fmt.Errorf("...: %w", err)) }\<close>\<close>

definition record_failure :: "sref \<Rightarrow> string \<Rightarrow> unit result \<Rightarrow> ('e, unit) sync" where
  "record_failure us p r = (case r of Inl e \<Rightarrow> recordErr us (wrapf p e) | Inr _ \<Rightarrow> ret ())"

section \<open>Construction\<close>

text \<open>\<^verbatim>\<open>Inl\<close> stands for the panic; \<open>mk\<close> is \<^verbatim>\<open>endpoint.NewBackend\<close> with its timeouts and options.\<close>

definition NewWithState :: "env \<Rightarrow> (Server \<Rightarrow> 'e Backend result) \<Rightarrow> Config \<Rightarrow> bool \<Rightarrow> 'e Syncer result" where
  "NewWithState env mk cfg st =
     (case mk (cServerA cfg) of Inl e \<Rightarrow> Inl e
      | Inr a \<Rightarrow> (case mk (cServerB cfg) of Inl e \<Rightarrow> Inl e
      | Inr b \<Rightarrow> Inr \<lparr>yCfg = cfg, yState = st, yBackendA = a, yBackendB = b,
          yDirAToB = (cDirection cfg \<noteq> DirectionBToA), yDirBToA = (cDirection cfg \<noteq> DirectionAToB), yEnv = env\<rparr>))"

definition copyableFlags :: "string set" where
  "copyableFlags = {bslash ''Seen'', bslash ''Answered'', bslash ''Flagged'', bslash ''Draft''}"

definition incremental :: "'e Syncer \<Rightarrow> bool" where
  "incremental S = (cStateCache (yCfg S) \<and> yState S)"

definition userStopped :: "'e Syncer \<Rightarrow> string \<Rightarrow> ('e, bool) sync" where
  "userStopped S name =
     (if \<not> yState S \<or> cMaxFailStreak (yCfg S) \<le> 0 then ret False
      else do {
        r \<leftarrow> on_db (UserStatusOf (evFaults (yEnv S)) name);
        ret (case r of Inl _ \<Rightarrow> False | Inr None \<Rightarrow> False
             | Inr (Some st) \<Rightarrow> usFailStreak st \<ge> cMaxFailStreak (yCfg S)) })"

section \<open>Connections\<close>

definition connErrTexts :: "string list" where
  "connErrTexts = [''connection reset'', ''broken pipe'', ''use of closed'', ''connection closed'',
     ''connection refused'', ''unexpected EOF'', ''i/o timeout'', ''TLS handshake'', ''imap: connection closed'']"

definition isConnErr :: "goerr option \<Rightarrow> bool" where
  "isConnErr err = (case err of None \<Rightarrow> False
     | Some e \<Rightarrow> eeof e \<or> eclosed e \<or> enet e \<or> list_ex (str_contains (emsg e)) connErrTexts)"

definition backoff :: "'e Syncer \<Rightarrow> nat \<Rightarrow> duration" where
  "backoff S i = int64 (cRetryBackoff (yCfg S) * int64 (2 ^ (i - 1)))"

text \<open>The loop of \<^verbatim>\<open>dial\<close>: attempt \<open>i\<close> of the remaining \<open>n\<close>, and the last error.\<close>

fun dial_loop :: "'e Syncer \<Rightarrow> gctx \<Rightarrow> string \<Rightarrow> 'e Backend \<Rightarrow> string \<Rightarrow> nat \<Rightarrow> nat \<Rightarrow> goerr \<Rightarrow> ('e, 'e Endpoint result) sync" where
  "dial_loop S ctx side backend user i 0 lastErr = ret (Inl lastErr)"
| "dial_loop S ctx side backend user i (Suc n) lastErr = do {
     cancelled \<leftarrow> (if i > 0 then ask (cxWait ctx (backoff S i)) else ret None);
     case cancelled of
       Some e \<Rightarrow> ret (Inl e)
     | None \<Rightarrow> do {
         r \<leftarrow> on_side side (bConnect backend user);
         case r of
           Inr ep \<Rightarrow> ret (Inr ep)
         | Inl e \<Rightarrow> if isConnErr (Some e) then dial_loop S ctx side backend user (Suc i) n e else ret (Inl e) } }"

definition attempts :: "'e Syncer \<Rightarrow> nat" where
  "attempts S = nat (max 1 (int64 (cConnectRetries (yCfg S) + 1)))"

definition dial :: "'e Syncer \<Rightarrow> gctx \<Rightarrow> string \<Rightarrow> 'e Backend \<Rightarrow> string \<Rightarrow> ('e, 'e Endpoint result) sync" where
  "dial S ctx side backend user = dial_loop S ctx side backend user 0 (attempts S) (errnew [])"

definition user_msg :: "User \<Rightarrow> string" where "user_msg u = ''user '' @ uName u @ '': ''"

definition connect :: "'e session \<Rightarrow> ('e, bool \<times> 'e session) sync" where
  "connect sess = (let S = ssS sess; u = ssU sess in do {
     ra \<leftarrow> dial S (ssCtx sess) ''a'' (yBackendA S) (ConnectAs u ''a'');
     case ra of
       Inl e \<Rightarrow> do { recordErr (ssUs sess) (wrapf (user_msg u) e); ret (False, sess) }
     | Inr a \<Rightarrow> do {
         rb \<leftarrow> dial S (ssCtx sess) ''b'' (yBackendB S) (ConnectAs u ''b'');
         case rb of
           Inl e \<Rightarrow> do {
             on_A (\<lambda>s. ((), epClose a s));
             recordErr (ssUs sess) (wrapf (user_msg u) e); ret (False, sess) }
         | Inr b \<Rightarrow> ret (True, sess\<lparr>ssA := Some a, ssB := Some b\<rparr>) } })"

definition close :: "'e session \<Rightarrow> ('e, 'e session) sync" where
  "close sess = do {
     (case ssA sess of None \<Rightarrow> ret () | Some a \<Rightarrow> on_A (\<lambda>s. ((), epClose a s)));
     (case ssB sess of None \<Rightarrow> ret () | Some b \<Rightarrow> on_B (\<lambda>s. ((), epClose b s)));
     ret (sess\<lparr>ssA := None, ssB := None\<rparr>) }"

definition reconnect :: "'e session \<Rightarrow> ('e, bool \<times> 'e session) sync" where
  "reconnect sess = do { sess1 \<leftarrow> close sess; connect sess1 }"

definition endpoint :: "'e session \<Rightarrow> string \<Rightarrow> 'e Endpoint" where
  "endpoint sess side = (if side = ''b'' then the (ssB sess) else the (ssA sess))"

section \<open>Indexes\<close>

definition folder_msg :: "'e session \<Rightarrow> string \<Rightarrow> string \<Rightarrow> string" where
  "folder_msg sess side folder = ''user '' @ uName (ssU sess) @ '', folder '' @ side @ '' '' @ quote_str (yUT (ssS sess)) folder @ '': ''"

definition indexFolderFull :: "'e session \<Rightarrow> string \<Rightarrow> string \<Rightarrow> ('e, Index result) sync" where
  "indexFolderFull sess side folder = do {
     r \<leftarrow> on_side side (epFetchMeta (endpoint sess side) None);
     case r of
       Inl e \<Rightarrow> ret (Inl (wrapf (folder_msg sess side folder) e))
     | Inr msgs \<Rightarrow> (case Build (evLib (yEnv (ssS sess))) msgs (cHashHeader (yCfg (ssS sess))) of (idx, errs) \<Rightarrow> do {
         recordErrs (ssUs sess) (map (\<lambda>e. wrapf (folder_msg sess side folder @ ''parse: '') e) errs);
         ret (Inr idx) }) }"

definition fresh_msg :: "EMessage \<Rightarrow> Input \<Rightarrow> CachedMsg" where
  "fresh_msg m i = \<lparr>cmID = mID m, cmMsgID = inMsgID i, cmXHash = inXHash i, cmSurrogate = inSurrogate i,
     cmInternalDate = mInternalDate m, cmFlags = mFlags m\<rparr>"

text \<open>The loop over the fetched messages: parse errors are recorded, the others are cached.\<close>

fun parse_fresh :: "'e session \<Rightarrow> string \<Rightarrow> EMessage list \<Rightarrow> CachedMsg list \<Rightarrow> (string, CachedMsg) table
    \<Rightarrow> ('e, CachedMsg list \<times> (string, CachedMsg) table) sync" where
  "parse_fresh sess p [] fresh cached = ret (fresh, cached)"
| "parse_fresh sess p (m # ms) fresh cached =
     (case ParseMessage (evLib (yEnv (ssS sess))) m (cHashHeader (yCfg (ssS sess))) of
        Inl e \<Rightarrow> do { recordErr (ssUs sess) (wrapf p e); parse_fresh sess p ms fresh cached }
      | Inr i \<Rightarrow> parse_fresh sess p ms (fresh @ [fresh_msg m i]) (AList.update (mID m) (fresh_msg m i) cached))"

definition cached_input :: "CachedMsg \<Rightarrow> Input" where
  "cached_input cm = \<lparr>inID = cmID cm, inFlags = cmFlags cm, inInternalDate = cmInternalDate cm, inSize = 0,
     inMsgID = cmMsgID cm, inXHash = cmXHash cm, inSurrogate = cmSurrogate cm,
     inKeys = Keys (cmMsgID cm) (cmXHash cm) (cmSurrogate cm)\<rparr>"

text \<open>The \<^verbatim>\<open>switch\<close> on validity and age: whether the cache is reset.\<close>

definition needs_reset :: "'e Syncer \<Rightarrow> SEndpoint \<Rightarrow> string \<Rightarrow> time \<Rightarrow> bool" where
  "needs_reset S saved validity now =
     (seExists saved \<and> seValidity saved \<noteq> validity
      \<or> cFullResyncEvery (yCfg S) > 0 \<and> time_sub now (seFullResyncAt saved) \<ge> cFullResyncEvery (yCfg S))"

text \<open>A Go slice that was only appended to is nil when nothing was appended.\<close>

definition nil_slice :: "'x list \<Rightarrow> 'x list option" where
  "nil_slice xs = (if xs = [] then None else Some xs)"

text \<open>The part after a successful listing and fetch: cache updates and the index.\<close>

definition finish_incremental :: "'e session \<Rightarrow> string \<Rightarrow> string \<Rightarrow> string \<Rightarrow> string \<Rightarrow> time \<Rightarrow> string list
    \<Rightarrow> (string, CachedMsg) table \<Rightarrow> EMessage list \<Rightarrow> ('e, Index result) sync" where
  "finish_incremental sess side pair p validity resyncAt curIDs cached fetched =
     (let S = ssS sess; F = evFaults (yEnv S); user = uName (ssU sess); us = ssUs sess;
          goneIDs = filter (\<lambda>i. i \<notin> set curIDs) (evOrder (yEnv S) (map fst cached))
      in do {
        (fresh, cached1) \<leftarrow> parse_fresh sess p fetched [] cached;
        r1 \<leftarrow> on_db (PutCachedMsgs F user pair side fresh);
        record_failure us (p @ ''writing cache: '') r1;
        (if goneIDs \<noteq> [] then do {
           r2 \<leftarrow> on_db (DeleteCachedMsgs F user pair side goneIDs);
           record_failure us (p @ ''cleaning cache: '') r2 } else ret ());
        now \<leftarrow> clock S;
        r3 \<leftarrow> on_db (SaveEndpoint F now user pair side validity resyncAt);
        record_failure us (p @ ''writing endpoint: '') r3;
        ret (Inr (BuildFrom (List.map_filter (\<lambda>i. map_option cached_input
               (map_of (tbl_del (\<lambda>j. j \<in> set goneIDs) cached1) i)) curIDs))) })"

definition indexFolderIncremental :: "'e session \<Rightarrow> string \<Rightarrow> FolderPair \<Rightarrow> string \<Rightarrow> string \<Rightarrow> ('e, Index result) sync" where
  "indexFolderIncremental sess side fp folder validity =
     (let S = ssS sess; F = evFaults (yEnv S); user = uName (ssU sess); ep = endpoint sess side;
          pair = PairKey (fpA fp) (fpB fp); p = folder_msg sess side folder
      in do {
        r0 \<leftarrow> on_db (LoadEndpoint F user pair side);
        case r0 of
          Inl e \<Rightarrow> ret (Inl (wrapf p e))
        | Inr (saved, cached0) \<Rightarrow> do {
            now \<leftarrow> clock S;
            r1 \<leftarrow> (if needs_reset S saved validity now then do {
                   rr \<leftarrow> on_db (ResetEndpoint F user pair side);
                   case rr of Inl e \<Rightarrow> ret (Inl (wrapf (p @ ''resetting cache: '') e))
                   | Inr _ \<Rightarrow> do { t \<leftarrow> clock S; ret (Inr ([], t)) } }
                 else ret (Inr (cached0, seFullResyncAt saved)));
            case r1 of
              Inl e \<Rightarrow> ret (Inl e)
            | Inr (cached, resyncAt) \<Rightarrow> do {
                r2 \<leftarrow> on_side side (epListIDs ep);
                case r2 of
                  Inl e \<Rightarrow> ret (Inl (wrapf p e))
                | Inr ids \<Rightarrow> (let curIDs = sort ids; newIDs = filter (\<lambda>i. map_of cached i = None) curIDs in do {
                    r3 \<leftarrow> on_side side (epFetchMeta ep (nil_slice newIDs));
                    case r3 of
                      Inl e \<Rightarrow> ret (Inl (wrapf p e))
                    | Inr fetched \<Rightarrow> finish_incremental sess side pair p validity resyncAt curIDs cached fetched }) } } })"

definition indexFolder :: "'e session \<Rightarrow> string \<Rightarrow> FolderPair \<Rightarrow> string \<Rightarrow> string \<Rightarrow> ('e, Index result) sync" where
  "indexFolder sess side fp folder validity =
     (if incremental (ssS sess) then indexFolderIncremental sess side fp folder validity
      else indexFolderFull sess side folder)"

section \<open>Copying\<close>

definition filterFlags :: "string list \<Rightarrow> string list" where
  "filterFlags flags = filter (\<lambda>f. f \<in> copyableFlags) flags"

definition copyOne :: "'e session \<Rightarrow> string \<Rightarrow> string \<Rightarrow> Entry \<Rightarrow> ('e, string result) sync" where
  "copyOne sess src dst e = do {
     rb \<leftarrow> on_side src (epOpen (endpoint sess src) (enID e));
     case rb of
       Inl err \<Rightarrow> ret (Inl err)
     | Inr body \<Rightarrow> on_side dst (epAppend (endpoint sess dst) (filterFlags (enFlags e)) (enInternalDate e)
         (WithHeader (yUT (ssS sess)) body (cHashHeader (yCfg (ssS sess))) (enSurrogate e))) }"

definition copied_msg :: "string \<Rightarrow> Entry \<Rightarrow> CachedMsg" where
  "copied_msg newID e = \<lparr>cmID = newID, cmMsgID = enMsgID e, cmXHash = enSurrogate e, cmSurrogate = enSurrogate e,
     cmInternalDate = enInternalDate e, cmFlags = filterFlags (enFlags e)\<rparr>"

definition copy_msg :: "'e session \<Rightarrow> string \<Rightarrow> string \<Rightarrow> string" where
  "copy_msg sess dir rest = ''user '' @ uName (ssU sess) @ '', '' @ dir @ '' ('' @ rest"

text \<open>The loop of \<^verbatim>\<open>copyMissing\<close> from position \<open>i\<close>; the context is asked at every 64th message.\<close>

fun copy_loop :: "'e session \<Rightarrow> string \<Rightarrow> string \<Rightarrow> string \<Rightarrow> string \<Rightarrow> string \<Rightarrow> nat \<Rightarrow> Entry list \<Rightarrow> nat \<Rightarrow> CachedMsg list
    \<Rightarrow> ('e, nat \<times> CachedMsg list) sync" where
  "copy_loop sess src dst dir srcF dstF i [] n cache = ret (n, cache)"
| "copy_loop sess src dst dir srcF dstF i (e # es) n cache = do {
     stop \<leftarrow> (if i mod 64 = 0 then ctx_err (ssCtx sess) else ret None);
     case stop of
       Some err \<Rightarrow> do {
         recordErr (ssUs sess) (wrapf (copy_msg sess dir (quote_str (yUT (ssS sess)) srcF @ ''): interrupted: '')) err);
         ret (n, cache) }
     | None \<Rightarrow> do {
         r \<leftarrow> copyOne sess src dst e;
         case r of
           Inl err \<Rightarrow> do {
             recordErr (ssUs sess) (wrapf (copy_msg sess dir (quote_str (yUT (ssS sess)) srcF @ '' -> '' @ quote_str (yUT (ssS sess)) dstF
               @ ''), id='' @ enID e @ '': '')) err);
             copy_loop sess src dst dir srcF dstF (Suc i) es n cache }
         | Inr newID \<Rightarrow> copy_loop sess src dst dir srcF dstF (Suc i) es (Suc n)
             (if incremental (ssS sess) \<and> newID \<noteq> [] then cache @ [copied_msg newID e] else cache) } }"

definition copyMissing :: "'e session \<Rightarrow> string \<Rightarrow> string \<Rightarrow> Entry list \<Rightarrow> string \<Rightarrow> string \<Rightarrow> string \<Rightarrow> ('e, nat \<times> CachedMsg list) sync" where
  "copyMissing sess src dst entries dir srcF dstF = copy_loop sess src dst dir srcF dstF 0 entries 0 []"

definition put_back :: "'e session \<Rightarrow> string \<Rightarrow> string \<Rightarrow> string \<Rightarrow> CachedMsg list \<Rightarrow> ('e, unit) sync" where
  "put_back sess pair side p cache =
     (if cache = [] then ret () else do {
        r \<leftarrow> on_db (PutCachedMsgs (evFaults (yEnv (ssS sess))) (uName (ssU sess)) pair side cache);
        record_failure (ssUs sess) p r })"

text \<open>The part of \<^verbatim>\<open>syncPair\<close> after both indexes are built.\<close>

definition allowAToB :: "'e session \<Rightarrow> bool" where
  "allowAToB sess = (yDirAToB (ssS sess) \<and> \<not> epReadOnly (the (ssB sess)))"

definition allowBToA :: "'e session \<Rightarrow> bool" where
  "allowBToA sess = (yDirBToA (ssS sess) \<and> \<not> epReadOnly (the (ssA sess)))"

definition copy_deltas :: "'e session \<Rightarrow> FolderPair \<Rightarrow> string \<Rightarrow> string \<Rightarrow> Index \<Rightarrow> Index \<Rightarrow> ('e, unit) sync" where
  "copy_deltas sess fp folderA folderB idxA idxB =
     (let (onB, onA) = Delta idxA idxB;
          skipped = (Len idxA - length onB) + (Len idxB - length onA);
          missingOnB = (if allowAToB sess then onB else []);
          missingOnA = (if allowBToA sess then onA else []);
          pair = PairKey (fpA fp) (fpB fp); us = ssUs sess; ut = yUT (ssS sess)
      in do {
        (if skipped > 0 then on_stats (IncSkippedDup us skipped) else ret ());
        (copiedAB, cacheB) \<leftarrow> copyMissing sess ''a'' ''b'' missingOnB ''A->B'' folderA folderB;
        on_stats (IncCopiedAToB us copiedAB);
        (copiedBA, cacheA) \<leftarrow> copyMissing sess ''b'' ''a'' missingOnA ''B->A'' folderB folderA;
        on_stats (IncCopiedBToA us copiedBA);
        (if incremental (ssS sess) then do {
           put_back sess pair ''b'' (''user '' @ uName (ssU sess) @ '', folder B '' @ quote_str ut folderB @ '': post-write to cache: '') cacheB;
           put_back sess pair ''a'' (''user '' @ uName (ssU sess) @ '', folder A '' @ quote_str ut folderA @ '': post-write to cache: '') cacheA }
         else ret ()) })"

definition syncPair :: "'e session \<Rightarrow> FolderPair \<Rightarrow> ('e, goerr option) sync" where
  "syncPair sess fp = (let ut = yUT (ssS sess); um = ''user '' @ uName (ssU sess) in do {
     ra \<leftarrow> on_A (epSelect (the (ssA sess)) (fpA fp));
     case ra of
       Inl e \<Rightarrow> ret (Some (wrapf (um @ '', folder A '' @ quote_str ut (fpA fp) @ '': '') e))
     | Inr (folderA, validA) \<Rightarrow> do {
         rb \<leftarrow> on_B (epSelect (the (ssB sess)) (fpB fp));
         case rb of
           Inl e \<Rightarrow> ret (Some (wrapf (um @ '', folder B '' @ quote_str ut (fpB fp) @ '': '') e))
         | Inr (folderB, validB) \<Rightarrow> do {
             ia \<leftarrow> indexFolder sess ''a'' fp folderA validA;
             case ia of
               Inl e \<Rightarrow> ret (Some e)
             | Inr idxA \<Rightarrow> do {
                 ib \<leftarrow> indexFolder sess ''b'' fp folderB validB;
                 case ib of
                   Inl e \<Rightarrow> ret (Some e)
                 | Inr idxB \<Rightarrow> do { copy_deltas sess fp folderA folderB idxA idxB; ret None } } } } })"

section \<open>Folder discovery on a session\<close>

fun create_missing :: "string \<Rightarrow> (string \<Rightarrow> 'e \<Rightarrow> goerr option \<times> 'e) \<Rightarrow> FolderInfo list \<Rightarrow> FolderPair list \<Rightarrow> ('e, FolderPair list) sync" where
  "create_missing side cf [] pairs = ret pairs"
| "create_missing side cf (f # fs) pairs = do {
     r \<leftarrow> on_side side (cf (fiName f));
     case r of
       Some _ \<Rightarrow> create_missing side cf fs pairs
     | None \<Rightarrow> create_missing side cf fs (pairs @ [\<lparr>fpA = fiName f, fpB = fiName f\<rparr>]) }"

definition pairFolders :: "'e session \<Rightarrow> FolderInfo list \<Rightarrow> FolderInfo list \<Rightarrow> ('e, FolderPair list) sync" where
  "pairFolders sess foldersA foldersB =
     (let S = ssS sess; ex = cFolderExclude (yCfg S);
          (pairs, onlyA, onlyB) = matchFolders (yUT S) (filterFolders (yUT S) foldersA ex) (filterFolders (yUT S) foldersB ex)
      in do {
        pairs1 \<leftarrow> (case epCreateFolder (the (ssB sess)) of
            Some cf \<Rightarrow> if allowAToB sess then create_missing ''b'' cf onlyA pairs else ret pairs
          | None \<Rightarrow> ret pairs);
        (case epCreateFolder (the (ssA sess)) of
            Some cf \<Rightarrow> if allowBToA sess then create_missing ''a'' cf onlyB pairs1 else ret pairs1
          | None \<Rightarrow> ret pairs1) })"

definition resolveFolders :: "'e session \<Rightarrow> ('e, FolderPair list result) sync" where
  "resolveFolders sess = (let S = ssS sess in
     if \<not> cSyncAllFolders (yCfg S) then ret (Inr (cFolders (yCfg S)))
     else case epListFolders (the (ssA sess)) of
       None \<Rightarrow> ret (Inl (errnew (''sync_all_folders: '' @ bAddr (yBackendA S) @ '' does not support folder discovery'')))
     | Some la \<Rightarrow> (case epListFolders (the (ssB sess)) of
       None \<Rightarrow> ret (Inl (errnew (''sync_all_folders: '' @ bAddr (yBackendB S) @ '' does not support folder discovery'')))
     | Some lb \<Rightarrow> do {
         ra \<leftarrow> on_A la;
         case ra of
           Inl e \<Rightarrow> ret (Inl (wrapf ''sync_all_folders, side A: '' e))
         | Inr foldersA \<Rightarrow> do {
             rb \<leftarrow> on_B lb;
             case rb of
               Inl e \<Rightarrow> ret (Inl (wrapf ''sync_all_folders, side B: '' e))
             | Inr foldersB \<Rightarrow> do { ps \<leftarrow> pairFolders sess foldersA foldersB; ret (Inr ps) } } }))"

section \<open>A user\<close>

definition persistStatus :: "'e Syncer \<Rightarrow> string \<Rightarrow> sref \<Rightarrow> ('e, unit) sync" where
  "persistStatus S name us =
     (if \<not> yState S then ret ()
      else do {
        r \<leftarrow> get_stats (ReportOf us);
        at \<leftarrow> clock S;
        on_db (RecordRun (evFaults (yEnv S)) name
          \<lparr>rAt = at, rStatus = (if sint (repErrors r) > 0 then ''error'' else ''ok''),
           rCopiedAToB = sint (repCopiedAToB r), rCopiedBToA = sint (repCopiedBToA r),
           rSkippedDup = sint (repSkippedDup r), rErrors = sint (repErrors r), rLastError = repLastErr r\<rparr>);
        ret () })"

text \<open>The loop over the folder pairs; the session that is left is closed by the caller.\<close>

fun sync_pairs :: "'e session \<Rightarrow> FolderPair list \<Rightarrow> ('e, 'e session) sync" where
  "sync_pairs sess [] = ret sess"
| "sync_pairs sess (fp # fps) = do {
     stop \<leftarrow> ctx_err (ssCtx sess);
     case stop of
       Some e \<Rightarrow> do { recordErr (ssUs sess) (wrapf (user_msg (ssU sess) @ ''processing interrupted: '') e); ret sess }
     | None \<Rightarrow> do {
         r \<leftarrow> syncPair sess fp;
         case r of
           None \<Rightarrow> sync_pairs sess fps
         | Some err \<Rightarrow> do {
             recordErr (ssUs sess) err;
             if isConnErr (Some err) then do {
               (ok, sess1) \<leftarrow> reconnect sess;
               if \<not> ok then ret sess1
               else do {
                 r2 \<leftarrow> syncPair sess1 fp;
                 case r2 of
                   Some err2 \<Rightarrow> do { recordErr (ssUs sess) err2; sync_pairs sess1 fps }
                 | None \<Rightarrow> sync_pairs sess1 fps } }
             else sync_pairs sess fps } } }"

definition sync_session :: "'e session \<Rightarrow> ('e, unit) sync" where
  "sync_session sess0 = do {
     (ok, sess) \<leftarrow> connect sess0;
     if \<not> ok then ret ()
     else do {
       rp \<leftarrow> resolveFolders sess;
       sess1 \<leftarrow> (case rp of
           Inl e \<Rightarrow> do { recordErr (ssUs sess) (wrapf (user_msg (ssU sess)) e); ret sess }
         | Inr pairs \<Rightarrow> sync_pairs sess pairs);
       close sess1;
       ret () } }"

definition SyncUser :: "'e Syncer \<Rightarrow> gctx \<Rightarrow> User \<Rightarrow> ('e, unit) sync" where
  "SyncUser S ctx u = do {
     stopped \<leftarrow> userStopped S (uName u);
     if stopped then ret ()
     else do {
       t0 \<leftarrow> clock S;
       us \<leftarrow> State (\<lambda>w. case BeginUser t0 (uName u) (wCol w) of (p, c) \<Rightarrow> (p, w\<lparr>wCol := c\<rparr>));
       sync_session \<lparr>ssS = S, ssCtx = ctx, ssU = u, ssUs = us, ssA = None, ssB = None\<rparr>;
       t1 \<leftarrow> clock S;
       on_stats (EndUser t1 us);
       persistStatus S (uName u) us } }"

end
