(* ===== verification/Maildir.thy ===== *)
theory Maildir
  imports Endpoint
begin

text \<open>
  The maildir endpoint (\<^verbatim>\<open>internal/endpoint/maildir.go\<close>) over a model of the file system. A path is the
  root string of a user's Maildir (in the cleaned form \<^verbatim>\<open>filepath.Join\<close> gives) and the components under
  it; roots of different users do not overlap. Every system call may fail: a fault function of the
  call number decides. What the operating system chooses freely (clock, map iteration order, bytes
  written before a failing write, appends of other sessions of the process) is a parameter.
\<close>

section \<open>The file system\<close>

datatype fnode = FDir | FFile string time

type_synonym apath = "string \<times> string list"

record mdenv =
  oFault :: "nat \<Rightarrow> goerr option"
  oNow :: "nat \<Rightarrow> time"
  oOrder :: "nat \<Rightarrow> string list \<Rightarrow> string list"   \<comment> \<open>iteration order of a Go map\<close>
  oPart :: "nat \<Rightarrow> nat"                             \<comment> \<open>bytes written by a failing write\<close>
  oGap :: "nat \<Rightarrow> nat"                              \<comment> \<open>appends of other sessions since the last one\<close>
  oStart :: int                                     \<comment> \<open>the second in which the process started\<close>
  oHost :: string
  oPid :: int
  oUT :: utab

record maildir =
  mdFS :: "(apath, fnode) table"
  mdTick :: nat
  mdCounter :: nat
  mdRoot :: string
  mdUser :: string
  mdFolder :: "apath option"
  mdFiles :: "(string, apath) table"

definition tick :: "maildir \<Rightarrow> maildir" where "tick s = s\<lparr>mdTick := Suc (mdTick s)\<rparr>"

definition sys :: "mdenv \<Rightarrow> (maildir \<Rightarrow> 'a result \<times> maildir) \<Rightarrow> maildir \<Rightarrow> 'a result \<times> maildir" where
  "sys E k s = (case oFault E (mdTick s) of Some e \<Rightarrow> (Inl e, tick s) | None \<Rightarrow> k (tick s))"

definition child :: "apath \<Rightarrow> string \<Rightarrow> apath" where "child p n = (fst p, snd p @ [n])"

definition path_str :: "apath \<Rightarrow> string" where
  "path_str p = fst p @ concat (map (\<lambda>c. ''/'' @ c) (snd p))"

definition enoent :: goerr where "enoent = errnew ''no such file or directory''"
definition enotdir :: goerr where "enotdir = errnew ''not a directory''"
definition eexist :: goerr where "eexist = errnew ''file exists''"

definition os_Stat :: "mdenv \<Rightarrow> apath \<Rightarrow> maildir \<Rightarrow> fnode result \<times> maildir" where
  "os_Stat E p = sys E (\<lambda>s. (case map_of (mdFS s) p of None \<Rightarrow> Inl enoent | Some nd \<Rightarrow> Inr nd, s))"

text \<open>The entries of a directory, sorted by name.\<close>

definition dir_entries :: "(apath, fnode) table \<Rightarrow> apath \<Rightarrow> (string \<times> fnode) list" where
  "dir_entries fs p = sort_key fst (map (\<lambda>(q, nd). (last (snd q), nd))
     (filter (\<lambda>(q, nd). fst q = fst p \<and> snd q \<noteq> [] \<and> butlast (snd q) = snd p) fs))"

definition os_ReadDir :: "mdenv \<Rightarrow> apath \<Rightarrow> maildir \<Rightarrow> (string \<times> fnode) list result \<times> maildir" where
  "os_ReadDir E p = sys E (\<lambda>s. (case map_of (mdFS s) p of
     None \<Rightarrow> Inl enoent | Some (FFile _ _) \<Rightarrow> Inl enotdir | Some FDir \<Rightarrow> Inr (dir_entries (mdFS s) p), s))"

definition add_dir :: "apath \<Rightarrow> (apath, fnode) table \<Rightarrow> (apath, fnode) table" where
  "add_dir p fs = (case map_of fs p of None \<Rightarrow> AList.update p FDir fs | Some _ \<Rightarrow> fs)"

definition is_file :: "(apath, fnode) table \<Rightarrow> apath \<Rightarrow> bool" where
  "is_file fs p = (case map_of fs p of Some (FFile _ _) \<Rightarrow> True | _ \<Rightarrow> False)"

text \<open>All prefixes of a path, from the root down.\<close>

definition parents :: "apath \<Rightarrow> apath list" where
  "parents p = map (\<lambda>cs. (fst p, cs)) (prefixes (snd p))"

definition os_MkdirAll :: "mdenv \<Rightarrow> apath \<Rightarrow> maildir \<Rightarrow> unit result \<times> maildir" where
  "os_MkdirAll E p = sys E (\<lambda>s.
     if list_ex (is_file (mdFS s)) (parents p) then (Inl enotdir, s)
     else (Inr (), s\<lparr>mdFS := fold add_dir (parents p) (mdFS s)\<rparr>))"

text \<open>\<^verbatim>\<open>os.OpenFile\<close> with \<^verbatim>\<open>O_CREATE|O_EXCL\<close>.\<close>

definition parent_dir :: "(apath, fnode) table \<Rightarrow> apath \<Rightarrow> bool" where
  "parent_dir fs p = (map_of fs (fst p, butlast (snd p)) = Some FDir)"

definition os_CreateExcl :: "mdenv \<Rightarrow> apath \<Rightarrow> maildir \<Rightarrow> unit result \<times> maildir" where
  "os_CreateExcl E p = sys E (\<lambda>s.
     if map_of (mdFS s) p \<noteq> None then (Inl eexist, s)
     else if \<not> parent_dir (mdFS s) p then (Inl enoent, s)
     else (Inr (), s\<lparr>mdFS := AList.update p (FFile [] (oNow E (mdTick s))) (mdFS s)\<rparr>))"

text \<open>\<^verbatim>\<open>io.Copy\<close> into the open file: on an error a prefix may have been written.\<close>

definition io_Copy :: "mdenv \<Rightarrow> apath \<Rightarrow> string \<Rightarrow> maildir \<Rightarrow> unit result \<times> maildir" where
  "io_Copy E p data s = (case oFault E (mdTick s) of
      Some e \<Rightarrow> (Inl e, tick (s\<lparr>mdFS := AList.update p (FFile (take (oPart E (mdTick s)) data) (oNow E (mdTick s))) (mdFS s)\<rparr>))
    | None \<Rightarrow> (Inr (), tick (s\<lparr>mdFS := AList.update p (FFile data (oNow E (mdTick s))) (mdFS s)\<rparr>)))"

definition os_CloseFile :: "mdenv \<Rightarrow> maildir \<Rightarrow> unit result \<times> maildir" where
  "os_CloseFile E = sys E (\<lambda>s. (Inr (), s))"

definition os_Chtimes :: "mdenv \<Rightarrow> apath \<Rightarrow> time \<Rightarrow> maildir \<Rightarrow> unit result \<times> maildir" where
  "os_Chtimes E p t = sys E (\<lambda>s. (case map_of (mdFS s) p of
     Some (FFile d _) \<Rightarrow> (Inr (), s\<lparr>mdFS := AList.update p (FFile d t) (mdFS s)\<rparr>)
   | Some FDir \<Rightarrow> (Inr (), s) | None \<Rightarrow> (Inl enoent, s)))"

definition os_Remove :: "mdenv \<Rightarrow> apath \<Rightarrow> maildir \<Rightarrow> unit result \<times> maildir" where
  "os_Remove E p = sys E (\<lambda>s. (case map_of (mdFS s) p of
     None \<Rightarrow> (Inl enoent, s) | Some _ \<Rightarrow> (Inr (), s\<lparr>mdFS := tbl_del (\<lambda>q. q = p) (mdFS s)\<rparr>)))"

text \<open>\<^verbatim>\<open>os.Rename\<close> of a file: an existing file at the target is replaced.\<close>

definition os_Rename :: "mdenv \<Rightarrow> apath \<Rightarrow> apath \<Rightarrow> maildir \<Rightarrow> unit result \<times> maildir" where
  "os_Rename E src dst = sys E (\<lambda>s. (case map_of (mdFS s) src of
     None \<Rightarrow> (Inl enoent, s)
   | Some nd \<Rightarrow> if \<not> parent_dir (mdFS s) dst then (Inl enoent, s)
      else if map_of (mdFS s) dst = Some FDir then (Inl eexist, s)
      else (Inr (), s\<lparr>mdFS := AList.update dst nd (tbl_del (\<lambda>q. q = src) (mdFS s))\<rparr>)))"

definition os_ReadFile :: "mdenv \<Rightarrow> apath \<Rightarrow> maildir \<Rightarrow> string result \<times> maildir" where
  "os_ReadFile E p = sys E (\<lambda>s. (case map_of (mdFS s) p of
     None \<Rightarrow> Inl enoent | Some FDir \<Rightarrow> Inl enotdir | Some (FFile d _) \<Rightarrow> Inr d, s))"

section \<open>Names and flags\<close>

text \<open>\<^verbatim>\<open>strings.NewReplacer("%u", user, "%n", local, "%d", domain)\<close>.\<close>

fun replace_user :: "string \<Rightarrow> string \<Rightarrow> string \<Rightarrow> string \<Rightarrow> string" where
  "replace_user user loc dm (c # k # t) =
     (if c = CHR ''%'' \<and> k = CHR ''u'' then user @ replace_user user loc dm t
      else if c = CHR ''%'' \<and> k = CHR ''n'' then loc @ replace_user user loc dm t
      else if c = CHR ''%'' \<and> k = CHR ''d'' then dm @ replace_user user loc dm t
      else c # replace_user user loc dm (k # t))"
| "replace_user user loc dm t = t"

text \<open>\<^verbatim>\<open>strings.LastIndexByte\<close> as a split at the last occurrence.\<close>

definition rcut :: "char \<Rightarrow> string \<Rightarrow> (string \<times> string) option" where
  "rcut c s = map_option (\<lambda>(b, a). (rev a, rev b)) (str_cut c (rev s))"

definition expandUser :: "string \<Rightarrow> string \<Rightarrow> string" where
  "expandUser tmpl user =
     (let (loc, dm) = (case rcut CHR ''@'' user of None \<Rightarrow> (user, []) | Some (l, d) \<Rightarrow> (l, d)) in
      replace_user user loc dm tmpl)"

definition maildirSpecial :: "(string, string) table" where
  "maildirSpecial = [(bslash ''Sent'', ''Sent''), (bslash ''Drafts'', ''Drafts''), (bslash ''Trash'', ''Trash''),
     (bslash ''Junk'', ''Junk''), (bslash ''Archive'', ''Archive'')]"

definition flagLetterToIMAP :: "(char, string) table" where
  "flagLetterToIMAP = [(CHR ''S'', bslash ''Seen''), (CHR ''R'', bslash ''Answered''), (CHR ''F'', bslash ''Flagged''),
     (CHR ''D'', bslash ''Draft''), (CHR ''T'', bslash ''Deleted'')]"

definition imapToFlagLetter :: "(string, char) table" where
  "imapToFlagLetter = map (\<lambda>(a, b). (b, a)) flagLetterToIMAP"

definition uniqueID :: "string \<Rightarrow> string" where
  "uniqueID filename = (case str_cut CHR '':'' filename of None \<Rightarrow> filename | Some (a, _) \<Rightarrow> a)"

definition flagsFromName :: "string \<Rightarrow> string list" where
  "flagsFromName filename = (case str_index '':2,'' filename of
     None \<Rightarrow> [] | Some i \<Rightarrow> List.map_filter (map_of flagLetterToIMAP) (drop (i + 3) filename))"

definition flagSuffix :: "string list \<Rightarrow> string" where
  "flagSuffix flags = (let letters = List.map_filter (map_of imapToFlagLetter) flags in
     if letters = [] then [] else '':2,'' @ sort letters)"

section \<open>Folders\<close>

definition isDir :: "mdenv \<Rightarrow> apath \<Rightarrow> maildir \<Rightarrow> bool \<times> maildir" where
  "isDir E p s = (case os_Stat E p s of (r, s') \<Rightarrow> (r = Inr FDir, s'))"

definition root_path :: "maildir \<Rightarrow> apath" where "root_path s = (mdRoot s, [])"

definition dotted_name :: "string \<Rightarrow> string" where
  "dotted_name n = trim_chars {CHR ''.''} (replace_char CHR ''/'' CHR ''.'' n)"

text \<open>\<^verbatim>\<open>filepath.Join(e.root, "."+n)\<close>: the root itself when the name is empty.\<close>

definition sub_path :: "maildir \<Rightarrow> string \<Rightarrow> apath" where
  "sub_path s n = (mdRoot s, if n = [] then [] else [CHR ''.'' # n])"

definition folderPath :: "mdenv \<Rightarrow> string \<Rightarrow> maildir \<Rightarrow> apath \<times> maildir" where
  "folderPath E name s =
     (let n0 = trim_space name in
      if n0 = [] \<or> equal_fold (oUT E) n0 ''INBOX'' then (root_path s, s)
      else let n = dotted_name (case map_of maildirSpecial n0 of Some sub \<Rightarrow> sub | None \<Rightarrow> n0);
               exact = sub_path s n in
        (case isDir E exact s of
           (True, s1) \<Rightarrow> (exact, s1)
         | (False, s1) \<Rightarrow>
             (case os_ReadDir E (root_path s) s1 of
                (Inl _, s2) \<Rightarrow> (exact, s2)
              | (Inr ents, s2) \<Rightarrow>
                  (case find (\<lambda>(nm, nd). nd = FDir \<and> prefix ''.'' nm \<and> equal_fold (oUT E) (drop 1 nm) n) ents of
                     Some (nm, _) \<Rightarrow> ((mdRoot s, [nm]), s2)
                   | None \<Rightarrow> (exact, s2)))))"

text \<open>The ID to path entries that \<^verbatim>\<open>scan\<close> makes of one directory listing, and their index.\<close>

definition scan_entries :: "apath \<Rightarrow> (string \<times> fnode) list \<Rightarrow> (string \<times> apath) list" where
  "scan_entries dir ents = map (\<lambda>(nm, nd). (uniqueID nm, child dir nm))
     (filter (\<lambda>(nm, nd). nd \<noteq> FDir \<and> \<not> prefix ''.'' nm) ents)"

definition put_files :: "(string \<times> apath) list \<Rightarrow> (string, apath) table \<Rightarrow> (string, apath) table" where
  "put_files l t = fold (\<lambda>(i, p). AList.update i p) l t"

definition scan_sub :: "mdenv \<Rightarrow> apath \<Rightarrow> string \<Rightarrow> maildir \<Rightarrow> goerr option \<times> maildir" where
  "scan_sub E folder sub s =
     (case os_ReadDir E (child folder sub) s of
        (Inl e, s') \<Rightarrow> (Some (wrapf (''maildir '' @ path_str folder @ '': reading '' @ sub @ '': '') e), s')
      | (Inr ents, s') \<Rightarrow> (None, s'\<lparr>mdFiles := put_files (scan_entries (child folder sub) ents) (mdFiles s')\<rparr>))"

definition scan :: "mdenv \<Rightarrow> apath \<Rightarrow> maildir \<Rightarrow> goerr option \<times> maildir" where
  "scan E folder s =
     (case scan_sub E folder ''new'' (s\<lparr>mdFiles := []\<rparr>) of
        (Some e, s1) \<Rightarrow> (Some e, s1) | (None, s1) \<Rightarrow> scan_sub E folder ''cur'' s1)"

text \<open>The loop over \<^verbatim>\<open>tmp\<close>, \<^verbatim>\<open>new\<close>, \<^verbatim>\<open>cur\<close> of \<^verbatim>\<open>Select\<close> and \<^verbatim>\<open>CreateFolder\<close>.\<close>

fun mkdirs :: "mdenv \<Rightarrow> (string \<Rightarrow> string) \<Rightarrow> apath \<Rightarrow> string list \<Rightarrow> maildir \<Rightarrow> goerr option \<times> maildir" where
  "mkdirs E msg path [] s = (None, s)"
| "mkdirs E msg path (sub # subs) s =
     (case os_MkdirAll E (child path sub) s of
        (Inl e, s') \<Rightarrow> (Some (wrapf (msg sub) e), s') | (Inr _, s') \<Rightarrow> mkdirs E msg path subs s')"

definition folder_name :: "apath \<Rightarrow> string" where
  "folder_name path = (if snd path = [] then ''INBOX''
     else replace_char CHR ''.'' CHR ''/'' (trim_prefix ''.'' (last (snd path))))"

definition mdSelect :: "mdenv \<Rightarrow> string \<Rightarrow> maildir \<Rightarrow> (string \<times> string) result \<times> maildir" where
  "mdSelect E name s =
     (case folderPath E name s of (path, s1) \<Rightarrow>
      (case mkdirs E (\<lambda>sub. ''maildir '' @ path_str path @ '': creating '' @ sub @ '': '') path [''tmp'', ''new'', ''cur''] s1 of
         (Some e, s2) \<Rightarrow> (Inl e, s2)
       | (None, s2) \<Rightarrow>
           (case scan E path (s2\<lparr>mdFolder := Some path\<rparr>) of
              (Some e, s3) \<Rightarrow> (Inl e, s3)
            | (None, s3) \<Rightarrow> (Inr (folder_name path, ''maildir''), s3))))"

section \<open>Messages\<close>

definition mdListIDs :: "mdenv \<Rightarrow> maildir \<Rightarrow> string list result \<times> maildir" where
  "mdListIDs E s = (Inr (sort (map fst (mdFiles s))), s)"

definition header_block :: "string \<Rightarrow> string" where
  "header_block data = (case str_index (crlf @ crlf) data of
     Some i \<Rightarrow> take (i + 4) data
   | None \<Rightarrow> (case str_index [CHR 0x0A, CHR 0x0A] data of Some i \<Rightarrow> take (i + 2) data | None \<Rightarrow> data))"

definition readHeaderBlock :: "mdenv \<Rightarrow> apath \<Rightarrow> maildir \<Rightarrow> string result \<times> maildir" where
  "readHeaderBlock E path s = (case os_ReadFile E path s of
      (Inl e, s') \<Rightarrow> (Inl (wrapf (''maildir reading '' @ path_str path @ '': '') e), s')
    | (Inr data, s') \<Rightarrow> (Inr (header_block data), s'))"

definition node_meta :: "fnode \<Rightarrow> time \<times> nat" where
  "node_meta nd = (case nd of FDir \<Rightarrow> (zero_time, 0) | FFile d t \<Rightarrow> (t, length d))"

fun fetch_list :: "mdenv \<Rightarrow> string list \<Rightarrow> maildir \<Rightarrow> EMessage list result \<times> maildir" where
  "fetch_list E [] s = (Inr [], s)"
| "fetch_list E (i # ids) s =
     (case map_of (mdFiles s) i of
        None \<Rightarrow> fetch_list E ids s
      | Some path \<Rightarrow>
          (case os_Stat E path s of
             (Inl e, s1) \<Rightarrow> (Inl (wrapf (''maildir stat '' @ path_str path @ '': '') e), s1)
           | (Inr fi, s1) \<Rightarrow>
               (case readHeaderBlock E path s1 of
                  (Inl e, s2) \<Rightarrow> (Inl e, s2)
                | (Inr hdr, s2) \<Rightarrow>
                    (case fetch_list E ids s2 of
                       (Inl e, s3) \<Rightarrow> (Inl e, s3)
                     | (Inr ms, s3) \<Rightarrow> (Inr (\<lparr>mID = i, mFlags = flagsFromName (last (snd path)), mInternalDate = fst (node_meta fi),
                            mSize = of_nat (snd (node_meta fi)), mHeader = hdr\<rparr> # ms), s3)))))"

definition mdFetchMeta :: "mdenv \<Rightarrow> string list option \<Rightarrow> maildir \<Rightarrow> EMessage list result \<times> maildir" where
  "mdFetchMeta E ids s = (case ids of
      None \<Rightarrow> fetch_list E (oOrder E (mdTick s) (map fst (mdFiles s))) s
    | Some is \<Rightarrow> fetch_list E is s)"

definition mdOpen :: "mdenv \<Rightarrow> string \<Rightarrow> maildir \<Rightarrow> Literal result \<times> maildir" where
  "mdOpen E i s = (case map_of (mdFiles s) i of
      None \<Rightarrow> (Inl (errnew (''maildir: message '' @ quote_str (oUT E) i @ '' not found in '' @ (case mdFolder s of None \<Rightarrow> [] | Some f \<Rightarrow> path_str f))), s)
    | Some path \<Rightarrow> (case os_ReadFile E path s of
        (Inl e, s') \<Rightarrow> (Inl (wrapf (''maildir reading '' @ path_str path @ '': '') e), s')
      | (Inr data, s') \<Rightarrow> (Inr (Buffer data), s')))"

definition clean_host :: "string \<Rightarrow> string" where
  "clean_host h = replace_char CHR '':'' CHR ''_'' (replace_char CHR ''/'' CHR ''_'' h)"

definition unique_name :: "mdenv \<Rightarrow> int \<Rightarrow> nat \<Rightarrow> string" where
  "unique_name E sec n = itoa sec @ ''.'' @ itoa (oPid E) @ ''_'' @ itoa (int n) @ ''.'' @ clean_host (oHost E)"

text \<open>
  \<^verbatim>\<open>Append\<close>: the process-wide counter is taken first; then the message is written under \<^verbatim>\<open>tmp\<close> and renamed.
  The counter is a natural number (its 64 bits last for \<open>2 ^ 64\<close> appends of one process). An endpoint
  that has no folder selected is outside the model and gives an error.
\<close>

definition md_deliver :: "mdenv \<Rightarrow> apath \<Rightarrow> string \<Rightarrow> string \<Rightarrow> string \<Rightarrow> time \<Rightarrow> string \<Rightarrow> maildir \<Rightarrow> string result \<times> maildir" where
  "md_deliver E folder unique sub final date data s =
     (let tmp = child (child folder ''tmp'') unique; dst = child (child folder sub) final in
      case os_CreateExcl E tmp s of
        (Inl e, s1) \<Rightarrow> (Inl (wrapf (''maildir creating tmp '' @ path_str tmp @ '': '') e), s1)
      | (Inr _, s1) \<Rightarrow> (case io_Copy E tmp data s1 of
        (Inl e, s2) \<Rightarrow> (Inl (wrapf (''maildir writing '' @ path_str tmp @ '': '') e), snd (os_Remove E tmp (snd (os_CloseFile E s2))))
      | (Inr _, s2) \<Rightarrow> (case os_CloseFile E s2 of
        (Inl e, s3) \<Rightarrow> (Inl (wrapf (''maildir closing '' @ path_str tmp @ '': '') e), snd (os_Remove E tmp s3))
      | (Inr _, s3) \<Rightarrow>
          (let s4 = (if date \<noteq> zero_time then snd (os_Chtimes E tmp date s3) else s3) in
           case os_Rename E tmp dst s4 of
             (Inl e, s5) \<Rightarrow> (Inl (wrapf (''maildir moving to '' @ sub @ '': '') e), snd (os_Remove E tmp s5))
           | (Inr _, s5) \<Rightarrow> (Inr unique, s5\<lparr>mdFiles := AList.update unique dst (mdFiles s5)\<rparr>)))))"

definition mdAppend :: "mdenv \<Rightarrow> string list \<Rightarrow> time \<Rightarrow> Literal \<Rightarrow> maildir \<Rightarrow> string result \<times> maildir" where
  "mdAppend E flags date body s =
     (let n = mdCounter s + oGap E (mdTick s) + 1;
          unique = unique_name E (unix_sec (oNow E (mdTick s))) n;
          suffix = flagSuffix flags;
          sub = (if suffix \<noteq> [] then ''cur'' else ''new'');
          s0 = tick (s\<lparr>mdCounter := n\<rparr>)
      in case mdFolder s of
           None \<Rightarrow> (Inl (errnew ''maildir: no folder selected''), s0)
         | Some folder \<Rightarrow> md_deliver E folder unique sub (unique @ suffix) date (lit_read body) s0)"

section \<open>Folder discovery\<close>

definition maildirSpecialUseOf :: "utab \<Rightarrow> string \<Rightarrow> string" where
  "maildirSpecialUseOf ut name = (case find (\<lambda>(tok, sub). equal_fold ut sub name) maildirSpecial of
     Some (tok, _) \<Rightarrow> tok | None \<Rightarrow> [])"

fun list_subs :: "mdenv \<Rightarrow> (string \<times> fnode) list \<Rightarrow> maildir \<Rightarrow> FolderInfo list \<times> maildir" where
  "list_subs E [] s = ([], s)"
| "list_subs E ((nm, nd) # ents) s =
     (let dotted = trim_chars {CHR ''.''} nm in
      if nd \<noteq> FDir \<or> \<not> prefix ''.'' nm \<or> dotted = [] then list_subs E ents s
      else case isDir E (mdRoot s, [nm, ''cur'']) s of
        (False, s1) \<Rightarrow> list_subs E ents s1
      | (True, s1) \<Rightarrow> (case list_subs E ents s1 of (fs, s2) \<Rightarrow>
          (\<lparr>fiName = replace_char CHR ''.'' CHR ''/'' dotted, fiSpecialUse = maildirSpecialUseOf (oUT E) dotted,
            fiSelectable = True\<rparr> # fs, s2)))"

definition mdListFolders :: "mdenv \<Rightarrow> maildir \<Rightarrow> FolderInfo list result \<times> maildir" where
  "mdListFolders E s =
     (case os_ReadDir E (root_path s) s of
        (Inl e, s1) \<Rightarrow> (Inl (wrapf (''maildir '' @ mdRoot s @ '': listing folders: '') e), s1)
      | (Inr ents, s1) \<Rightarrow> (case list_subs E ents s1 of (fs, s2) \<Rightarrow>
          (Inr (\<lparr>fiName = ''INBOX'', fiSpecialUse = [], fiSelectable = True\<rparr> # fs), s2)))"

definition mdCreateFolder :: "mdenv \<Rightarrow> string \<Rightarrow> maildir \<Rightarrow> goerr option \<times> maildir" where
  "mdCreateFolder E name s =
     (let dotted = dotted_name name in
      if dotted = [] \<or> equal_fold (oUT E) name ''INBOX'' then (None, s)
      else mkdirs E (\<lambda>_. ''maildir '' @ mdRoot s @ '': creating folder '' @ quote_str (oUT E) name @ '': '')
             (sub_path s dotted) [''tmp'', ''new'', ''cur''] s)"

section \<open>The endpoint\<close>

definition maildirEndpoint :: "mdenv \<Rightarrow> maildir Endpoint" where
  "maildirEndpoint E = \<lparr>epSelect = mdSelect E, epListIDs = mdListIDs E, epFetchMeta = mdFetchMeta E, epOpen = mdOpen E,
     epAppend = mdAppend E, epReadOnly = False, epClose = id, epListFolders = Some (mdListFolders E),
     epCreateFolder = Some (mdCreateFolder E)\<rparr>"

definition mdConnect :: "mdenv \<Rightarrow> string \<Rightarrow> string \<Rightarrow> maildir \<Rightarrow> maildir Endpoint result \<times> maildir" where
  "mdConnect E rootTmpl user s =
     (let root = expandUser rootTmpl user; msg = ''maildir '' @ root @ '' (user '' @ user @ ''): '' in
      case os_Stat E (root, []) s of
        (Inl e, s1) \<Rightarrow> (Inl (wrapf msg e), s1)
      | (Inr nd, s1) \<Rightarrow>
          if nd \<noteq> FDir then (Inl (errnew (msg @ ''not a directory'')), s1)
          else (Inr (maildirEndpoint E), s1\<lparr>mdRoot := root, mdUser := user, mdFolder := None, mdFiles := []\<rparr>))"

definition newMaildirBackend :: "mdenv \<Rightarrow> Server \<Rightarrow> maildir Backend" where
  "newMaildirBackend E srv = \<lparr>bConnect = mdConnect E (sRoot srv), bAddr = ''maildir:'' @ sRoot srv\<rparr>"

section \<open>The messages of a folder\<close>

definition file_at :: "(apath, fnode) table \<Rightarrow> apath \<Rightarrow> string option" where
  "file_at fs p = (case map_of fs p of Some (FFile d _) \<Rightarrow> Some d | _ \<Rightarrow> None)"

definition dfiles :: "(apath, fnode) table \<Rightarrow> apath \<Rightarrow> string list" where
  "dfiles fs p = map fst (filter (\<lambda>(nm, nd). nd \<noteq> FDir) (dir_entries fs p))"

definition scan_names :: "apath \<Rightarrow> string list \<Rightarrow> (string \<times> apath) list" where
  "scan_names dir nms = map (\<lambda>nm. (uniqueID nm, child dir nm)) (filter (\<lambda>nm. \<not> prefix ''.'' nm) nms)"

definition folder_list :: "(apath, fnode) table \<Rightarrow> apath \<Rightarrow> (string \<times> apath) list" where
  "folder_list fs f = scan_names (child f ''new'') (dfiles fs (child f ''new'')) @ scan_names (child f ''cur'') (dfiles fs (child f ''cur''))"

definition md_index :: "(apath, fnode) table \<Rightarrow> apath \<Rightarrow> string \<Rightarrow> apath option" where
  "md_index fs f = map_of (rev (folder_list fs f))"

definition md_mail :: "maildir \<Rightarrow> apath \<times> string \<Rightarrow> string option" where
  "md_mail s x = (case md_index (mdFS s) (fst x) (snd x) of None \<Rightarrow> None | Some p \<Rightarrow> file_at (mdFS s) p)"

lemma child_inject [simp]: "child p n = child q m \<longleftrightarrow> p = q \<and> n = m"
  by (cases p; cases q) (auto simp: child_def)

lemma scan_entries_names: "scan_entries dir (dir_entries fs p) = scan_names dir (dfiles fs p)"
  unfolding scan_entries_def scan_names_def dfiles_def
  by (induction "dir_entries fs p") (auto simp: filter_map comp_def case_prod_beta conj_commute)

lemma map_fst_sort: "map fst (sort_key fst xs) = sort (map fst xs)"
  using map_sort_key_comp [of fst "\<lambda>x. x" xs] by simp

lemma dir_entries_fst: "map fst (dir_entries fs p) = sort (map (last \<circ> snd \<circ> fst) (filter (\<lambda>(q, nd). fst q = fst p \<and> snd q \<noteq> [] \<and> butlast (snd q) = snd p) fs))"
  by (simp add: dir_entries_def map_fst_sort case_prod_beta comp_def)

lemma set_dir_entries:
  assumes "distinct (map fst fs)"
  shows "set (dir_entries fs p) = {(n, nd). map_of fs (child p n) = Some nd}"
proof -
  have "(n, nd) \<in> set (dir_entries fs p) \<longleftrightarrow> (child p n, nd) \<in> set fs" for n nd
  proof
    assume "(n, nd) \<in> set (dir_entries fs p)"
    then obtain q where q: "(q, nd) \<in> set fs" "fst q = fst p" "snd q \<noteq> []" "butlast (snd q) = snd p" "last (snd q) = n"
      by (auto simp: dir_entries_def)
    then have "q = child p n"
      using append_butlast_last_id [of "snd q"] by (cases q) (auto simp: child_def)
    then show "(child p n, nd) \<in> set fs"
      using q by simp
  next
    assume "(child p n, nd) \<in> set fs"
    then show "(n, nd) \<in> set (dir_entries fs p)"
      by (force simp: dir_entries_def child_def)
  qed
  then show ?thesis
    using assms by auto
qed

lemma distinct_dir_entries:
  assumes "distinct (map fst fs)"
  shows "distinct (map fst (dir_entries fs p))"
proof -
  let ?l = "filter (\<lambda>(q, nd). fst q = fst p \<and> snd q \<noteq> [] \<and> butlast (snd q) = snd p) fs"
  have "distinct (map fst ?l)"
    using assms by (rule distinct_map_filter)
  moreover have "inj_on (last \<circ> snd) (set (map fst ?l))"
    by (auto simp: inj_on_def intro!: prod_eqI) (metis append_butlast_last_id)
  ultimately have "distinct (map (last \<circ> snd) (map fst ?l))"
    using distinct_map by blast
  then show ?thesis
    by (simp add: dir_entries_fst comp_assoc)
qed

lemma set_dfiles: "distinct (map fst fs) \<Longrightarrow> set (dfiles fs p) = {n. file_at fs (child p n) \<noteq> None}"
proof -
  assume "distinct (map fst fs)"
  moreover have "file_at fs q \<noteq> None \<longleftrightarrow> (\<exists>nd. map_of fs q = Some nd \<and> nd \<noteq> FDir)" for q
    by (auto simp: file_at_def split: option.splits fnode.splits)
  ultimately show ?thesis
    by (auto simp: dfiles_def set_dir_entries image_iff)
qed

lemma sorted_dfiles: "distinct (map fst fs) \<Longrightarrow> sorted (dfiles fs p) \<and> distinct (dfiles fs p)"
  using distinct_dir_entries [of fs p] sorted_filter [of fst "dir_entries fs p"]
  by (auto simp: dfiles_def dir_entries_def distinct_map_filter)

lemma dfiles_cong:
  assumes "distinct (map fst fs)" "distinct (map fst fs')" "\<And>n. (file_at fs' (child p n) = None) = (file_at fs (child p n) = None)"
  shows "dfiles fs' p = dfiles fs p"
proof (rule sorted_distinct_set_unique)
  show "set (dfiles fs' p) = set (dfiles fs p)"
    using assms(3) by (simp only: set_dfiles [OF assms(1)] set_dfiles [OF assms(2)])
qed (use assms(1,2) sorted_dfiles in auto)

text \<open>The paths at which messages live: files in a \<^verbatim>\<open>new\<close> or \<^verbatim>\<open>cur\<close> directory.\<close>

definition msg_path :: "apath \<Rightarrow> bool" where
  "msg_path p = (\<exists>f sub n. sub \<in> {''new'', ''cur''} \<and> p = child (child f sub) n)"

lemma tmp_not_msg_path [simp]: "\<not> msg_path (child (child f ''tmp'') n)"
  by (auto simp: msg_path_def)

lemma folder_list_msg_path: "(i, p) \<in> set (folder_list fs f) \<Longrightarrow> msg_path p"
  by (auto simp: folder_list_def scan_names_def msg_path_def)

lemma md_mail_cong:
  assumes "distinct (map fst (mdFS s))" "distinct (map fst (mdFS s'))"
    and same: "\<And>p. msg_path p \<Longrightarrow> file_at (mdFS s') p = file_at (mdFS s) p"
  shows "md_index (mdFS s') = md_index (mdFS s)" "md_mail s' = md_mail s"
proof -
  have "dfiles (mdFS s') (child f sub) = dfiles (mdFS s) (child f sub)" if "sub \<in> {''new'', ''cur''}" for f sub
    using that assms(1,2) same by (intro dfiles_cong) (auto simp: msg_path_def)
  then have list: "folder_list (mdFS s') = folder_list (mdFS s)"
    by (simp add: folder_list_def fun_eq_iff)
  then show idx: "md_index (mdFS s') = md_index (mdFS s)"
    by (simp add: md_index_def fun_eq_iff)
  have "msg_path p" if "md_index (mdFS s) f i = Some p" for f i p
    using that folder_list_msg_path map_of_SomeD by (fastforce simp: md_index_def)
  then show "md_mail s' = md_mail s"
    using same by (auto simp: md_mail_def idx fun_eq_iff split: option.splits)
qed

lemma map_of_put_files: "map_of (put_files l t) = map_of t ++ map_of (rev l)"
  by (induction l arbitrary: t) (auto simp: put_files_def update_conv')

lemma pkey_put_files: "distinct (map fst t) \<Longrightarrow> distinct (map fst (put_files l t))"
  by (induction l arbitrary: t) (auto simp: put_files_def distinct_update)

section \<open>The invariant\<close>

definition env_ok :: "mdenv \<Rightarrow> bool" where
  "env_ok E = ((\<forall>t. unix_sec (oNow E t) \<ge> oStart E) \<and> (\<forall>t. perm_fun (oOrder E t)))"

text \<open>No file carries a name that a later append of this process will make.\<close>

definition fresh_names :: "mdenv \<Rightarrow> nat \<Rightarrow> (apath, fnode) table \<Rightarrow> bool" where
  "fresh_names E cnt fs = (\<forall>p sec n. file_at fs p \<noteq> None \<longrightarrow> uniqueID (last (snd p)) = unique_name E sec n
     \<longrightarrow> n \<le> cnt \<or> sec < oStart E)"

definition md_inv :: "mdenv \<Rightarrow> maildir \<Rightarrow> bool" where
  "md_inv E s = (env_ok E \<and> distinct (map fst (mdFS s)) \<and> fresh_names E (mdCounter s) (mdFS s))"

definition md_ready :: "maildir \<Rightarrow> bool" where
  "md_ready s = (\<exists>f. mdFolder s = Some f \<and> map_of (mdFiles s) = md_index (mdFS s) f \<and> distinct (map fst (mdFiles s)))"

text \<open>Operations that only advance the call counter.\<close>

definition quiet :: "maildir \<Rightarrow> maildir \<Rightarrow> bool" where
  "quiet s s' = (\<exists>k. s' = s\<lparr>mdTick := k\<rparr>)"

lemma quiet_refl [simp]: "quiet s s"
  by (auto simp: quiet_def intro: exI [of _ "mdTick s"])

lemma quiet_trans: "quiet s s1 \<Longrightarrow> quiet s1 s2 \<Longrightarrow> quiet s s2"
  by (auto simp: quiet_def)

lemma quiet_sel:
  assumes "quiet s s'"
  shows "mdFS s' = mdFS s" "mdCounter s' = mdCounter s" "mdRoot s' = mdRoot s" "mdFolder s' = mdFolder s"
    "mdFiles s' = mdFiles s" "md_mail s' = md_mail s" "md_inv E s' = md_inv E s" "md_ready s' = md_ready s"
  using assms by (auto simp: quiet_def md_inv_def md_ready_def md_mail_def fun_eq_iff split: option.split)

lemma quiet_tick [simp]: "quiet s (tick s)"
  by (auto simp: quiet_def tick_def)

lemma quiet_os:
  "quiet s (snd (os_Stat E p s))" "quiet s (snd (os_ReadDir E p s))" "quiet s (snd (os_ReadFile E p s))"
  "quiet s (snd (isDir E p s))" "quiet s (snd (readHeaderBlock E p s))"
  by (simp_all add: os_Stat_def os_ReadDir_def os_ReadFile_def isDir_def readHeaderBlock_def sys_def
      split: option.splits prod.splits sum.splits fnode.splits)

lemma quiet_osE:
  "os_Stat E p s = (r1, s') \<Longrightarrow> quiet s s'" "os_ReadDir E p s = (r2, s') \<Longrightarrow> quiet s s'"
  "os_ReadFile E p s = (r3, s') \<Longrightarrow> quiet s s'" "isDir E p s = (r4, s') \<Longrightarrow> quiet s s'"
  "readHeaderBlock E p s = (r5, s') \<Longrightarrow> quiet s s'"
  using quiet_os [of s E p] by simp_all

lemma folderPath_quiet: "folderPath E name s = (p, s') \<Longrightarrow> quiet s s'"
  unfolding folderPath_def Let_def
  by (auto split: if_splits prod.splits bool.splits sum.splits option.splits dest!: quiet_osE intro: quiet_trans)

lemma fetch_list_quiet: "fetch_list E ids s = (r, s') \<Longrightarrow> quiet s s'"
proof (induction E ids s arbitrary: r s' rule: fetch_list.induct)
  case (2 E i ids s)
  show ?case
  proof (cases "map_of (mdFiles s) i")
    case None
    then show ?thesis using 2 by simp
  next
    case (Some path)
    obtain r1 s1 where st: "os_Stat E path s = (r1, s1)" by (cases "os_Stat E path s")
    obtain r2 s2 where rd: "readHeaderBlock E path s1 = (r2, s2)" by (cases "readHeaderBlock E path s1")
    obtain r3 s3 where f: "fetch_list E ids s2 = (r3, s3)" by (cases "fetch_list E ids s2")
    have q: "quiet s s1" "quiet s s2"
      using quiet_osE(1) [OF st] quiet_osE(5) [OF rd] quiet_trans by blast+
    show ?thesis
    proof (cases r1; cases r2)
      fix fi hdr
      assume r: "r1 = Inr fi" "r2 = Inr hdr"
      have "quiet s2 s3"
        using 2(2) [OF Some st [symmetric] r(1) rd [symmetric] r(2) f] .
      then have "quiet s s3"
        using q(2) quiet_trans by blast
      then show ?thesis
        using 2(3) Some st rd f r by (auto split: sum.splits)
    qed (use 2(3) Some st rd q in auto)
  qed
qed simp

lemma ListFolders_quiet: "mdListFolders E s = (r, s') \<Longrightarrow> quiet s s'"
proof -
  have subs: "list_subs E ents s = (fs, s') \<Longrightarrow> quiet s s'" for ents s fs s'
  proof (induction E ents s arbitrary: fs s' rule: list_subs.induct)
    case (2 E nm nd ents s)
    then show ?case
      by (auto simp: Let_def split: if_splits prod.splits bool.splits dest!: quiet_osE intro: quiet_trans)
  qed simp
  assume "mdListFolders E s = (r, s')"
  then show ?thesis
    by (auto simp: mdListFolders_def split: prod.splits sum.splits dest!: quiet_osE subs intro: quiet_trans)
qed

section \<open>Reading\<close>

lemma md_index_path: "md_index fs f i = Some p \<Longrightarrow> (i, p) \<in> set (folder_list fs f)"
  by (auto simp: md_index_def dest!: map_of_SomeD)

lemma md_index_file:
  assumes "distinct (map fst fs)" "md_index fs f i = Some p"
  shows "file_at fs p \<noteq> None"
  using md_index_path [OF assms(2)] set_dfiles [OF assms(1)] by (auto simp: folder_list_def scan_names_def)

lemma ready_mail:
  assumes "md_inv E s" "md_ready s"
  shows "md_mail s (the (mdFolder s), i) = (case map_of (mdFiles s) i of None \<Rightarrow> None | Some p \<Rightarrow> file_at (mdFS s) p)"
    "md_mail s (the (mdFolder s), i) = None \<longleftrightarrow> map_of (mdFiles s) i = None"
proof -
  obtain f where f: "mdFolder s = Some f" "map_of (mdFiles s) = md_index (mdFS s) f"
    using assms(2) by (auto simp: md_ready_def)
  then show eq: "md_mail s (the (mdFolder s), i) = (case map_of (mdFiles s) i of None \<Rightarrow> None | Some p \<Rightarrow> file_at (mdFS s) p)"
    by (simp add: md_mail_def)
  show "md_mail s (the (mdFolder s), i) = None \<longleftrightarrow> map_of (mdFiles s) i = None"
    unfolding eq f(2) using md_index_file [of "mdFS s" f i] assms(1) by (auto simp: md_inv_def split: option.splits)
qed

lemma os_ReadFile_file: "os_ReadFile E p s = (Inr d, s') \<Longrightarrow> file_at (mdFS s) p = Some d"
  by (auto simp: os_ReadFile_def sys_def file_at_def tick_def split: option.splits fnode.splits)

lemma header_block_parse: "ParseFields g (header_block d) hh = ParseFields g d hh"
proof -
  have cut: "ParseFields g (take (i + length e) d) hh = ParseFields g d hh"
    if "str_index e d = Some i" "e = [CHR 0x0A, CHR 0x0A] \<or> e = crlf @ crlf" for i e
  proof -
    have d: "d = take i d @ e @ drop (i + length e) d"
      using str_index_split [OF that(1)] .
    have "take (i + length e) d = take i d @ e"
      using str_index_bound [OF that(1)] by (subst d) simp
    then show ?thesis
      using ParseFields_cut [OF that(2), of g "take i d" "drop (i + length e) d" hh] d by metis
  qed
  show ?thesis
    using cut [of "crlf @ crlf"] cut [of "[CHR 0x0A, CHR 0x0A]"]
    by (auto simp: header_block_def crlf_def numeral_eq_Suc split: option.splits)
qed

lemma fetch_list_ok:
  assumes "fetch_list E ids s = (Inr ms, s')"
  shows "map mID ms = filter (\<lambda>i. map_of (mdFiles s) i \<noteq> None) ids
    \<and> (\<forall>m\<in>set ms. \<exists>p d. map_of (mdFiles s) (mID m) = Some p \<and> file_at (mdFS s) p = Some d \<and> mHeader m = header_block d)"
  using assms
proof (induction E ids s arbitrary: ms s' rule: fetch_list.induct)
  case (2 E i ids s)
  show ?case
  proof (cases "map_of (mdFiles s) i")
    case None
    then show ?thesis using 2(1,3) by simp
  next
    case (Some path)
    then obtain fi s1 hdr s2 ms2 s3 where st: "os_Stat E path s = (Inr fi, s1)"
      and rd: "readHeaderBlock E path s1 = (Inr hdr, s2)" and f: "fetch_list E ids s2 = (Inr ms2, s3)"
      and ms: "ms = \<lparr>mID = i, mFlags = flagsFromName (last (snd path)), mInternalDate = fst (node_meta fi),
        mSize = of_nat (snd (node_meta fi)), mHeader = hdr\<rparr> # ms2"
      using 2(3) by (auto split: prod.splits sum.splits)
    have q: "quiet s s1" "quiet s s2"
      using quiet_osE(1) [OF st] quiet_osE(5) [OF rd] quiet_trans by blast+
    obtain d where "file_at (mdFS s1) path = Some d" "hdr = header_block d"
      using rd os_ReadFile_file by (auto simp: readHeaderBlock_def split: prod.splits sum.splits)
    then show ?thesis
      using 2(2) [OF Some st [symmetric] refl rd [symmetric] refl f] ms Some
      by (cases path) (auto simp: quiet_sel [OF q(1)] quiet_sel [OF q(2)])
  qed
qed simp

lemma FetchMeta_ready:
  assumes inv: "md_inv E s" "md_ready s" and f: "mdFetchMeta E ids s = (Inr ms, s')" and m: "m \<in> set ms"
  shows "\<exists>d. md_mail s (the (mdFolder s), mID m) = Some d \<and> ParseFields g (mHeader m) hh = ParseFields g d hh"
proof -
  obtain ids' where "fetch_list E ids' s = (Inr ms, s')"
    using f by (auto simp: mdFetchMeta_def split: option.splits)
  from fetch_list_ok [OF this] m show ?thesis
    using ready_mail(1) [OF inv, of "mID m"] header_block_parse by fastforce
qed

lemma FetchMeta_all:
  assumes inv: "md_inv E s" "md_ready s" and f: "mdFetchMeta E None s = (Inr ms, s')"
  shows "distinct (map mID ms) \<and> set (map mID ms) = {i. md_mail s (the (mdFolder s), i) \<noteq> None}"
proof -
  let ?ids = "oOrder E (mdTick s) (map fst (mdFiles s))"
  have perm: "mset ?ids = mset (map fst (mdFiles s))"
    using inv(1) by (simp add: md_inv_def env_ok_def perm_fun_def)
  then have "distinct ?ids" "set ?ids = fst ` set (mdFiles s)"
    using inv(2) mset_eq_imp_distinct_iff [OF perm] mset_eq_setD [OF perm] by (auto simp: md_ready_def)
  moreover have "map mID ms = filter (\<lambda>i. map_of (mdFiles s) i \<noteq> None) ?ids"
    using fetch_list_ok f by (simp add: mdFetchMeta_def)
  ultimately show ?thesis
    using ready_mail(2) [OF inv] by (auto simp: map_of_eq_None_iff)
qed

lemma FetchMeta_some:
  assumes inv: "md_inv E s" "md_ready s" and f: "mdFetchMeta E (Some ids) s = (Inr ms, s')"
  shows "set (map mID ms) = {i \<in> set ids. md_mail s (the (mdFolder s), i) \<noteq> None}"
  using fetch_list_ok f ready_mail(2) [OF inv] by (auto simp: mdFetchMeta_def)

lemma ListIDs_exact:
  assumes inv: "md_inv E s" "md_ready s" and l: "mdListIDs E s = (Inr ids, s')"
  shows "distinct ids \<and> set ids = {i. md_mail s (the (mdFolder s), i) \<noteq> None}"
proof -
  have "{i. md_mail s (the (mdFolder s), i) \<noteq> None} = fst ` set (mdFiles s)"
    unfolding ready_mail(2) [OF inv] by (auto simp: map_of_eq_None_iff)
  moreover have "ids = sort (map fst (mdFiles s))" "distinct (map fst (mdFiles s))"
    using l inv(2) by (auto simp: mdListIDs_def md_ready_def)
  ultimately show ?thesis
    by simp
qed

lemma Open_ready:
  assumes inv: "md_inv E s" "md_ready s" and o: "mdOpen E i s = (Inr lit, s')"
  shows "\<exists>d. md_mail s (the (mdFolder s), i) = Some d \<and> lit = Buffer d"
  using o ready_mail(1) [OF inv, of i] os_ReadFile_file by (auto simp: mdOpen_def split: option.splits prod.splits sum.splits)

lemma Open_quiet: "mdOpen E i s = (r, s') \<Longrightarrow> quiet s s'"
  by (auto simp: mdOpen_def split: option.splits prod.splits sum.splits dest: quiet_osE)

lemma FetchMeta_quiet: "mdFetchMeta E ids s = (r, s') \<Longrightarrow> quiet s s'"
  by (auto simp: mdFetchMeta_def split: option.splits dest: fetch_list_quiet)

section \<open>Selecting\<close>

text \<open>Creating directories adds no file and removes none.\<close>

lemma add_dir_file: "file_at (add_dir p fs) q = file_at fs q"
  by (auto simp: add_dir_def file_at_def split: option.splits)

lemma add_dir_distinct: "distinct (map fst fs) \<Longrightarrow> distinct (map fst (add_dir p fs))"
  by (auto simp: add_dir_def distinct_update split: option.splits)

lemma fold_add_dir:
  "file_at (fold add_dir ps fs) q = file_at fs q"
  "distinct (map fst fs) \<Longrightarrow> distinct (map fst (fold add_dir ps fs))"
  by (induction ps arbitrary: fs) (auto simp: add_dir_file add_dir_distinct)

text \<open>Steps that change neither the messages nor the session.\<close>

definition same_files :: "maildir \<Rightarrow> maildir \<Rightarrow> bool" where
  "same_files s s' = (mdCounter s' = mdCounter s \<and> mdRoot s' = mdRoot s \<and> mdFolder s' = mdFolder s \<and> mdFiles s' = mdFiles s
     \<and> (distinct (map fst (mdFS s)) \<longrightarrow> distinct (map fst (mdFS s'))) \<and> (\<forall>q. file_at (mdFS s') q = file_at (mdFS s) q))"

lemma same_files_trans: "same_files s s1 \<Longrightarrow> same_files s1 s2 \<Longrightarrow> same_files s s2"
  by (auto simp: same_files_def)

lemma quiet_same_files: "quiet s s' \<Longrightarrow> same_files s s'"
  by (auto simp: quiet_def same_files_def)

lemma fresh_namesD:
  "fresh_names E c fs \<Longrightarrow> file_at fs p \<noteq> None \<Longrightarrow> uniqueID (last (snd p)) = unique_name E sec n \<Longrightarrow> n \<le> c \<or> sec < oStart E"
  unfolding fresh_names_def by blast

lemma fresh_names_cong: "\<forall>q. file_at fs' q = file_at fs q \<Longrightarrow> fresh_names E c fs' = fresh_names E c fs"
  by (simp add: fresh_names_def)

lemma same_files_inv:
  assumes "same_files s s'" "md_inv E s"
  shows "md_inv E s'" "md_mail s' = md_mail s" "md_index (mdFS s') = md_index (mdFS s)"
proof -
  have d: "distinct (map fst (mdFS s))" "distinct (map fst (mdFS s'))"
    using assms by (auto simp: same_files_def md_inv_def)
  have "\<And>p. file_at (mdFS s') p = file_at (mdFS s) p"
    using assms(1) by (auto simp: same_files_def)
  from md_mail_cong [OF d this] show "md_mail s' = md_mail s" "md_index (mdFS s') = md_index (mdFS s)"
    by simp_all
  show "md_inv E s'"
    using assms fresh_names_cong [of "mdFS s'" "mdFS s"] by (simp add: md_inv_def same_files_def)
qed

lemma MkdirAll_same: "os_MkdirAll E p s = (r, s') \<Longrightarrow> same_files s s'"
proof -
  assume m: "os_MkdirAll E p s = (r, s')"
  have "same_files s (s\<lparr>mdTick := k, mdFS := fold add_dir (parents p) (mdFS s)\<rparr>)" for k
    by (simp add: same_files_def fold_add_dir)
  then show ?thesis
    using m quiet_same_files [OF quiet_tick, of s]
    by (auto simp: os_MkdirAll_def sys_def tick_def split: option.splits if_splits)
qed

lemma mkdirs_same: "mkdirs E msg path subs s = (r, s') \<Longrightarrow> same_files s s'"
proof (induction subs arbitrary: s)
  case (Cons sub subs)
  then show ?case
    by (auto split: prod.splits sum.splits dest!: MkdirAll_same intro: same_files_trans)
qed (simp add: quiet_same_files)

lemma CreateFolder_same: "mdCreateFolder E name s = (r, s') \<Longrightarrow> same_files s s'"
  unfolding mdCreateFolder_def Let_def
  by (auto simp: quiet_same_files simp del: mkdirs.simps split: if_splits dest: mkdirs_same)

lemma os_ReadDir_entries:
  "os_ReadDir E p s = (Inr ents, s') \<Longrightarrow> ents = dir_entries (mdFS s) p \<and> quiet s s'"
  by (auto simp: os_ReadDir_def sys_def tick_def quiet_def split: option.splits fnode.splits)

lemma scan_sub_state:
  assumes "scan_sub E folder sub s = (r, s')"
  shows "\<exists>k fl. s' = s\<lparr>mdTick := k, mdFiles := fl\<rparr>
    \<and> (r = None \<longrightarrow> fl = put_files (scan_names (child folder sub) (dfiles (mdFS s) (child folder sub))) (mdFiles s))"
proof -
  obtain rd s1 where rd: "os_ReadDir E (child folder sub) s = (rd, s1)"
    by (cases "os_ReadDir E (child folder sub) s")
  then obtain k where s1: "s1 = s\<lparr>mdTick := k\<rparr>"
    using quiet_osE(2) [OF rd] by (auto simp: quiet_def)
  show ?thesis
  proof (cases rd)
    case (Inl e)
    then show ?thesis
      using assms rd s1 by (auto simp: scan_sub_def intro!: exI [of _ "mdFiles s"] exI [of _ k])
  next
    case (Inr ents)
    then show ?thesis
      using assms rd s1 os_ReadDir_entries [of E "child folder sub" s ents s1]
      by (auto simp: scan_sub_def scan_entries_names)
  qed
qed

lemma put_files_append: "put_files (a @ b) t = put_files b (put_files a t)"
  by (simp add: put_files_def)

lemma scan_state:
  assumes "scan E folder s = (r, s')"
  shows "\<exists>k fl. s' = s\<lparr>mdTick := k, mdFiles := fl\<rparr> \<and> (r = None \<longrightarrow> fl = put_files (folder_list (mdFS s) folder) [])"
proof -
  obtain r1 s1 where n: "scan_sub E folder ''new'' (s\<lparr>mdFiles := []\<rparr>) = (r1, s1)"
    by (cases "scan_sub E folder ''new'' (s\<lparr>mdFiles := []\<rparr>)")
  show ?thesis
  proof (cases r1)
    case (Some e)
    then show ?thesis
      using assms n scan_sub_state [OF n] by (auto simp: scan_def)
  next
    case None
    then have c: "scan_sub E folder ''cur'' s1 = (r, s')"
      using assms n by (simp add: scan_def)
    obtain k fl where s1: "s1 = s\<lparr>mdTick := k, mdFiles := fl\<rparr>"
      "fl = put_files (scan_names (child folder ''new'') (dfiles (mdFS s) (child folder ''new''))) []"
      using scan_sub_state [OF n] None by auto
    obtain k' fl' where s': "s' = s1\<lparr>mdTick := k', mdFiles := fl'\<rparr>"
      "r = None \<longrightarrow> fl' = put_files (scan_names (child folder ''cur'') (dfiles (mdFS s1) (child folder ''cur''))) (mdFiles s1)"
      using scan_sub_state [OF c] by blast
    show ?thesis
      by (intro exI [of _ k'] exI [of _ fl']) (use s1 s' in \<open>simp add: folder_list_def put_files_append\<close>)
  qed
qed

lemma Select_state:
  assumes inv: "md_inv E s" and sel: "mdSelect E name s = (r, s')"
  shows "md_inv E s' \<and> md_mail s' = md_mail s \<and> (\<forall>x. r = Inr x \<longrightarrow> md_ready s')"
proof -
  obtain path s1 where fp: "folderPath E name s = (path, s1)"
    by (cases "folderPath E name s")
  define msg where "msg = (\<lambda>sub. ''maildir '' @ path_str path @ '': creating '' @ sub @ '': '')"
  obtain r2 s2 where mk: "mkdirs E msg path [''tmp'', ''new'', ''cur''] s1 = (r2, s2)"
    by (cases "mkdirs E msg path [''tmp'', ''new'', ''cur''] s1")
  have same: "same_files s s2"
    using quiet_same_files [OF folderPath_quiet [OF fp]] mkdirs_same [OF mk] same_files_trans by blast
  note inv2 = same_files_inv [OF same inv]
  show ?thesis
  proof (cases r2)
    case (Some e)
    then have "s' = s2" "r = Inl e"
      using sel fp mk by (simp_all only: mdSelect_def msg_def prod.case option.case prod.inject)
    then show ?thesis
      using inv2 by simp
  next
    case None
    obtain r3 s3 where sc: "scan E path (s2\<lparr>mdFolder := Some path\<rparr>) = (r3, s3)"
      by (cases "scan E path (s2\<lparr>mdFolder := Some path\<rparr>)")
    have s': "s' = s3 \<and> (\<forall>x. r = Inr x \<longrightarrow> r3 = None)"
      using sel fp mk None sc
      by (cases r3) (simp_all only: mdSelect_def msg_def prod.case option.case prod.inject, auto)
    obtain k fl where s3: "s3 = s2\<lparr>mdFolder := Some path, mdTick := k, mdFiles := fl\<rparr>"
      "r3 = None \<longrightarrow> fl = put_files (folder_list (mdFS s2) path) []"
      using scan_state [OF sc] by auto
    have "md_mail s3 = md_mail s2" "md_inv E s3 = md_inv E s2"
      by (auto simp: s3(1) md_mail_def md_inv_def fun_eq_iff split: option.splits)
    moreover have "r3 = None \<longrightarrow> md_ready s3"
      using s3 by (auto simp: md_ready_def map_of_put_files md_index_def pkey_put_files)
    ultimately show ?thesis
      using inv2 s' by simp
  qed
qed

section \<open>Appending\<close>

subsection \<open>Names\<close>

lemma itoa_no: "c \<in> {CHR ''.'', CHR '':'', CHR ''_''} \<Longrightarrow> c \<notin> set (itoa i)"
  using itoa_chars [of c i] by (auto simp: is_digit_def)

lemma clean_host_no_colon: "CHR '':'' \<notin> set (clean_host h)"
  by (auto simp: clean_host_def replace_char_def)

lemma unique_name_no_colon: "CHR '':'' \<notin> set (unique_name E sec n)"
  using itoa_no [of "CHR '':''"] clean_host_no_colon by (simp add: unique_name_def)

lemma uniqueID_suffix: "CHR '':'' \<notin> set u \<Longrightarrow> uniqueID (u @ flagSuffix flags) = u"
proof -
  assume u: "CHR '':'' \<notin> set u"
  show ?thesis
  proof (cases "flagSuffix flags = []")
    case True
    then show ?thesis
      using u by (simp add: uniqueID_def str_cut_def)
  next
    case False
    then obtain t where "flagSuffix flags = CHR '':'' # t"
      by (auto simp: flagSuffix_def Let_def split: if_splits)
    then show ?thesis
      using str_cut_append [OF u, of t] by (simp add: uniqueID_def)
  qed
qed

lemma unique_name_inject: "unique_name E s1 n1 = unique_name E s2 n2 \<longleftrightarrow> s1 = s2 \<and> n1 = n2"
proof
  assume eq: "unique_name E s1 n1 = unique_name E s2 n2"
  define rest where "rest = (\<lambda>n. itoa (oPid E) @ ''_'' @ itoa (int n) @ ''.'' @ clean_host (oHost E))"
  have u: "unique_name E sec n = itoa sec @ CHR ''.'' # rest n" for sec n
    by (simp add: unique_name_def rest_def)
  have "str_cut CHR ''.'' (unique_name E sec n) = Some (itoa sec, rest n)" for sec n
    unfolding u by (rule str_cut_append) (rule itoa_no, simp)
  then have parts: "itoa s1 = itoa s2" "rest n1 = rest n2"
    using eq by (metis option.inject prod.inject)+
  have "str_cut CHR ''.'' (itoa (int n) @ CHR ''.'' # clean_host (oHost E)) = Some (itoa (int n), clean_host (oHost E))" for n
    by (rule str_cut_append) (rule itoa_no, simp)
  then have "itoa (int n1) = itoa (int n2)"
    using parts(2) by (simp add: rest_def)
  then show "s1 = s2 \<and> n1 = n2"
    using parts(1) by simp
qed simp

lemma unique_name_visible: "\<not> prefix ''.'' (unique_name E sec n @ x)"
  using itoa_no [of "CHR ''.''" sec] by (cases "itoa sec") (auto simp: unique_name_def itoa_def split: if_splits)

subsection \<open>Delivery\<close>

definition tmp_frame :: "apath \<Rightarrow> maildir \<Rightarrow> maildir \<Rightarrow> bool" where
  "tmp_frame tmp s s' = (mdCounter s' = mdCounter s \<and> mdRoot s' = mdRoot s \<and> mdFolder s' = mdFolder s \<and> mdFiles s' = mdFiles s
     \<and> (distinct (map fst (mdFS s)) \<longrightarrow> distinct (map fst (mdFS s'))) \<and> (\<forall>q. q \<noteq> tmp \<longrightarrow> map_of (mdFS s') q = map_of (mdFS s) q))"

lemma tmp_frameD: "tmp_frame tmp s s' \<Longrightarrow> q \<noteq> tmp \<Longrightarrow> file_at (mdFS s') q = file_at (mdFS s) q"
  unfolding tmp_frame_def file_at_def by presburger

lemma tmp_frame_trans: "tmp_frame p s s1 \<Longrightarrow> tmp_frame p s1 s2 \<Longrightarrow> tmp_frame p s s2"
  by (simp add: tmp_frame_def)

lemma tmp_frame_refl [simp]: "tmp_frame p s s"
  by (simp add: tmp_frame_def)

lemma tmp_frame_ops:
  "tmp_frame p s (snd (os_CreateExcl E p s))" "tmp_frame p s (snd (io_Copy E p data s))" "tmp_frame p s (snd (os_CloseFile E s))"
  "tmp_frame p s (snd (os_Chtimes E p t s))" "tmp_frame p s (snd (os_Remove E p s))"
  by (auto simp: tmp_frame_def os_CreateExcl_def io_Copy_def os_CloseFile_def os_Chtimes_def os_Remove_def sys_def tick_def
      distinct_update distinct_tbl_del split: option.splits if_splits fnode.splits)

lemma tmp_frame_opsE:
  "os_CreateExcl E p s = (r1, s') \<Longrightarrow> tmp_frame p s s'" "io_Copy E p data s = (r2, s') \<Longrightarrow> tmp_frame p s s'"
  "os_CloseFile E s = (r3, s') \<Longrightarrow> tmp_frame p s s'"
  using tmp_frame_ops(1-3) [where p = p and s = s and E = E] by (metis snd_conv)+

lemma Rename_fail: "os_Rename E p q s = (Inl e, s') \<Longrightarrow> tmp_frame p s s'"
  by (auto simp: tmp_frame_def os_Rename_def sys_def tick_def split: option.splits if_splits)

lemma Rename_ok:
  "os_Rename E p q s = (Inr u, s') \<Longrightarrow> \<exists>nd k. map_of (mdFS s) p = Some nd
     \<and> s' = s\<lparr>mdTick := k, mdFS := AList.update q nd (tbl_del (\<lambda>x. x = p) (mdFS s))\<rparr>"
  by (auto simp: os_Rename_def sys_def tick_def split: option.splits if_splits)

lemma io_Copy_data: "io_Copy E p data s = (Inr u, s') \<Longrightarrow> file_at (mdFS s') p = Some data"
  by (auto simp: io_Copy_def tick_def file_at_def split: option.splits)

lemma CloseFile_quiet: "os_CloseFile E s = (r, s') \<Longrightarrow> quiet s s'"
  by (auto simp: os_CloseFile_def sys_def split: option.splits)

lemma Chtimes_data: "file_at (mdFS (snd (os_Chtimes E p t s))) p = file_at (mdFS s) p"
  by (auto simp: os_Chtimes_def sys_def tick_def file_at_def split: option.splits fnode.splits)

text \<open>The outcome of a delivery: on an error only the temporary file may differ; on success the message
  is at its place and the temporary file is gone.\<close>

definition delivered :: "apath \<Rightarrow> apath \<Rightarrow> string \<Rightarrow> string \<Rightarrow> maildir \<Rightarrow> maildir \<Rightarrow> bool" where
  "delivered tmp dst unique data s s' = (mdCounter s' = mdCounter s \<and> mdRoot s' = mdRoot s \<and> mdFolder s' = mdFolder s
     \<and> mdFiles s' = AList.update unique dst (mdFiles s) \<and> (distinct (map fst (mdFS s)) \<longrightarrow> distinct (map fst (mdFS s')))
     \<and> file_at (mdFS s') dst = Some data
     \<and> (\<forall>q. q \<noteq> tmp \<longrightarrow> q \<noteq> dst \<longrightarrow> map_of (mdFS s') q = map_of (mdFS s) q) \<and> map_of (mdFS s') tmp = None)"

lemma deliveredD:
  "delivered tmp dst u data s s' \<Longrightarrow> q \<noteq> tmp \<Longrightarrow> q \<noteq> dst \<Longrightarrow> file_at (mdFS s') q = file_at (mdFS s) q"
  unfolding delivered_def file_at_def by presburger

lemma md_deliver_outcome:
  assumes d: "md_deliver E folder unique sub final date data s = (r, s')" and sub: "sub \<noteq> ''tmp''"
  defines "tmp \<equiv> child (child folder ''tmp'') unique" and "dst \<equiv> child (child folder sub) final"
  shows "case r of Inl _ \<Rightarrow> tmp_frame tmp s s' | Inr i \<Rightarrow> i = unique \<and> delivered tmp dst unique data s s'"
proof -
  obtain r1 s1 where c1: "os_CreateExcl E tmp s = (r1, s1)" by (cases "os_CreateExcl E tmp s")
  obtain r2 s2 where c2: "io_Copy E tmp data s1 = (r2, s2)" by (cases "io_Copy E tmp data s1")
  obtain r3 s3 where c3: "os_CloseFile E s2 = (r3, s3)" by (cases "os_CloseFile E s2")
  define s4 where "s4 = (if date \<noteq> zero_time then snd (os_Chtimes E tmp date s3) else s3)"
  obtain r5 s5 where c5: "os_Rename E tmp dst s4 = (r5, s5)" by (cases "os_Rename E tmp dst s4")
  have f1: "tmp_frame tmp s s1"
    by (rule tmp_frame_opsE(1) [OF c1])
  have f2: "tmp_frame tmp s s2"
    by (rule tmp_frame_trans [OF f1 tmp_frame_opsE(2) [OF c2]])
  have f3: "tmp_frame tmp s s3"
    by (rule tmp_frame_trans [OF f2 tmp_frame_opsE(3) [OF c3]])
  have f4: "tmp_frame tmp s s4"
    using tmp_frame_trans [OF f3 tmp_frame_ops(4)] f3 by (simp add: s4_def)
  note rm = tmp_frame_trans [OF _ tmp_frame_ops(5)]
  show ?thesis
  proof (cases r1)
    case (Inl e1)
    then show ?thesis
      using d c1 f1 unfolding md_deliver_def Let_def tmp_def [symmetric] dst_def [symmetric] by auto
  next
    case r1: (Inr u1)
    show ?thesis
    proof (cases r2)
      case (Inl e2)
      then show ?thesis
        using d c1 c2 r1 rm [OF tmp_frame_trans [OF f2 tmp_frame_ops(3)]]
        unfolding md_deliver_def Let_def tmp_def [symmetric] dst_def [symmetric] by auto
    next
      case r2: (Inr u2)
      show ?thesis
      proof (cases r3)
        case (Inl e3)
        then show ?thesis
          using d c1 c2 c3 r1 r2 rm [OF f3]
          unfolding md_deliver_def Let_def tmp_def [symmetric] dst_def [symmetric] by auto
      next
        case r3: (Inr u3)
        have fin: "(case os_Rename E tmp dst s4 of
             (Inl e, s5) \<Rightarrow> (Inl (wrapf (''maildir moving to '' @ sub @ '': '') e), snd (os_Remove E tmp s5))
           | (Inr _, s5) \<Rightarrow> (Inr unique, s5\<lparr>mdFiles := AList.update unique dst (mdFiles s5)\<rparr>)) = (r, s')"
          using d c1 c2 c3 r1 r2 r3
          unfolding md_deliver_def Let_def tmp_def [symmetric] dst_def [symmetric] s4_def by simp
        show ?thesis
        proof (cases r5)
          case (Inl e5)
          then show ?thesis
            using fin c5 rm [OF tmp_frame_trans [OF f4 Rename_fail [of E tmp dst s4 e5 s5]], of E] by auto
        next
          case r5: (Inr u5)
          then obtain nd k where nd: "map_of (mdFS s4) tmp = Some nd"
            and s5: "s5 = s4\<lparr>mdTick := k, mdFS := AList.update dst nd (tbl_del (\<lambda>x. x = tmp) (mdFS s4))\<rparr>"
            using Rename_ok c5 by blast
          have "file_at (mdFS s4) tmp = Some data"
            using io_Copy_data [of E tmp data s1] c2 r2 quiet_sel(1) [OF CloseFile_quiet [OF c3]] Chtimes_data
            by (simp add: s4_def)
          then have "file_at (mdFS s5) dst = Some data"
            using nd by (simp add: s5 file_at_def)
          moreover have "dst \<noteq> tmp"
            using sub by (simp add: dst_def tmp_def)
          moreover have "r = Inr unique" "s' = s5\<lparr>mdFiles := AList.update unique dst (mdFiles s5)\<rparr>"
            using fin c5 r5 by auto
          ultimately show ?thesis
            using f4 by (auto simp: delivered_def tmp_frame_def s5 distinct_update distinct_tbl_del)
        qed
      qed
    qed
  qed
qed

subsection \<open>The listing after a delivery\<close>

lemma scan_names_drop:
  "uniqueID final = u \<Longrightarrow> filter (\<lambda>(k, p). k \<noteq> u) (scan_names dir (filter (\<lambda>x. x \<noteq> final) xs)) = filter (\<lambda>(k, p). k \<noteq> u) (scan_names dir xs)"
  by (induction xs) (auto simp: scan_names_def)

lemma map_of_filter_key: "i \<noteq> u \<Longrightarrow> map_of (filter (\<lambda>(k, p). k \<noteq> u) l) i = map_of l i"
  by (induction l) auto

lemma map_of_only: "(u, d) \<in> set l \<Longrightarrow> (\<And>p. (u, p) \<in> set l \<Longrightarrow> p = d) \<Longrightarrow> map_of l u = Some d"
  by (metis map_of_SomeD not_None_eq weak_map_of_SomeI)

lemma set_folder_list:
  assumes "distinct (map fst fs)"
  shows "(i, p) \<in> set (folder_list fs f) \<longleftrightarrow>
    (\<exists>sub nm. sub \<in> {''new'', ''cur''} \<and> p = child (child f sub) nm \<and> file_at fs p \<noteq> None \<and> \<not> prefix ''.'' nm \<and> i = uniqueID nm)"
  unfolding folder_list_def scan_names_def using set_dfiles [OF assms] by auto

text \<open>One new file, with an ID that no file had.\<close>

lemma dfiles_new:
  assumes d: "distinct (map fst fs)" "distinct (map fst fs')"
    and dst: "file_at fs dst = None" "file_at fs' dst \<noteq> None"
    and same: "\<And>q. msg_path q \<Longrightarrow> q \<noteq> dst \<Longrightarrow> file_at fs' q = file_at fs q"
    and final: "final = last (snd dst)" and sub: "sub \<in> {''new'', ''cur''}"
  shows "filter (\<lambda>x. x \<noteq> final \<or> child (child f sub) x \<noteq> dst) (dfiles fs' (child f sub)) = dfiles fs (child f sub)"
proof (rule sorted_distinct_set_unique)
  let ?p = "child f sub"
  have msg: "msg_path (child ?p x)" for x
    using sub by (auto simp: msg_path_def)
  have "file_at fs (child ?p x) \<noteq> None \<longleftrightarrow> child ?p x \<noteq> dst \<and> file_at fs' (child ?p x) \<noteq> None" for x
    using same [OF msg, of x] dst by (cases "child ?p x = dst") auto
  then show "set (filter (\<lambda>x. x \<noteq> final \<or> child ?p x \<noteq> dst) (dfiles fs' ?p)) = set (dfiles fs ?p)"
    using set_dfiles [OF d(1), of ?p] set_dfiles [OF d(2), of ?p] final by (auto simp: child_def)
  show "sorted (filter (\<lambda>x. x \<noteq> final \<or> child ?p x \<noteq> dst) (dfiles fs' ?p))"
    using sorted_dfiles [OF d(2)] sorted_filter [of "\<lambda>x. x"] by fastforce
qed (use sorted_dfiles [OF d(1)] sorted_dfiles [OF d(2)] in auto)

lemma md_index_new:
  assumes d: "distinct (map fst fs)" "distinct (map fst fs')"
    and dst: "dst = child (child f sub) final" "sub \<in> {''new'', ''cur''}" "\<not> prefix ''.'' final" "uniqueID final = u"
    and new: "file_at fs' dst \<noteq> None" and fresh: "\<And>q. file_at fs q \<noteq> None \<Longrightarrow> uniqueID (last (snd q)) \<noteq> u"
    and same: "\<And>q. msg_path q \<Longrightarrow> q \<noteq> dst \<Longrightarrow> file_at fs' q = file_at fs q"
  shows "md_index fs' g = (if g = f then (md_index fs g)(u \<mapsto> dst) else md_index fs g)" "md_index fs f u = None"
proof -
  have last_dst: "last (snd dst) = final"
    by (simp add: dst(1) child_def)
  have old: "file_at fs dst = None"
    using fresh [of dst] last_dst dst(4) by blast
  have no_u: "(u, p) \<notin> set (folder_list fs h)" for p h
  proof
    assume "(u, p) \<in> set (folder_list fs h)"
    then obtain s nm where "p = child (child h s) nm" "file_at fs p \<noteq> None" "u = uniqueID nm"
      unfolding set_folder_list [OF d(1)] by blast
    then show False
      using fresh [of p] by (simp add: child_def)
  qed
  then show none: "md_index fs f u = None"
    by (metis md_index_path not_None_eq)
  have names: "filter (\<lambda>x. x \<noteq> final \<or> child (child h s) x \<noteq> dst) (dfiles fs' (child h s)) = dfiles fs (child h s)"
    if "s \<in> {''new'', ''cur''}" for h s
    by (rule dfiles_new [OF d old new _ last_dst [symmetric] that]) (rule same)
  have drop: "filter (\<lambda>(k, p). k \<noteq> u) (scan_names (child h s) (dfiles fs' (child h s))) = filter (\<lambda>(k, p). k \<noteq> u) (scan_names (child h s) (dfiles fs (child h s)))"
    if "s \<in> {''new'', ''cur''}" for h s
  proof (cases "child h s = child f sub")
    case True
    then have "dfiles fs (child h s) = filter (\<lambda>x. x \<noteq> final) (dfiles fs' (child h s))"
      using names [OF that, of h] dst(1) by (simp add: True)
    then show ?thesis
      using scan_names_drop [OF dst(4)] by simp
  next
    case False
    then have "dfiles fs (child h s) = dfiles fs' (child h s)"
      using names [OF that, of h] dst(1) by auto
    then show ?thesis by simp
  qed
  have flist: "filter (\<lambda>(k, p). k \<noteq> u) (folder_list fs' h) = filter (\<lambda>(k, p). k \<noteq> u) (folder_list fs h)" for h
    by (simp add: folder_list_def drop)
  have other: "i \<noteq> u \<Longrightarrow> md_index fs' h i = md_index fs h i" for h i
    using map_of_filter_key [of i u "rev (folder_list fs' h)"] map_of_filter_key [of i u "rev (folder_list fs h)"] flist [of h]
    by (simp add: md_index_def flip: rev_filter)
  have only: "(u, p) \<in> set (folder_list fs' h) \<longleftrightarrow> h = f \<and> p = dst" for h p
  proof
    assume "(u, p) \<in> set (folder_list fs' h)"
    then obtain s nm where p: "s \<in> {''new'', ''cur''}" "p = child (child h s) nm" "file_at fs' p \<noteq> None" "u = uniqueID nm"
      unfolding set_folder_list [OF d(2)] by blast
    have "p = dst"
    proof (rule ccontr)
      assume "p \<noteq> dst"
      then have "file_at fs p \<noteq> None"
        using same [of p] p by (auto simp: msg_path_def)
      then show False
        using fresh [of p] p by (simp add: child_def)
    qed
    then show "h = f \<and> p = dst"
      using p(2) dst(1) by simp
  next
    assume "h = f \<and> p = dst"
    then show "(u, p) \<in> set (folder_list fs' h)"
      unfolding set_folder_list [OF d(2)] using dst new by blast
  qed
  have at_f: "md_index fs' f u = Some dst"
    unfolding md_index_def using only by (intro map_of_only) auto
  have at_g: "md_index fs' g u = None" if "g \<noteq> f"
    using only [of _ g] that by (metis md_index_path not_None_eq)
  have before: "md_index fs g u = None"
    using no_u by (metis md_index_path not_None_eq)
  show "md_index fs' g = (if g = f then (md_index fs g)(u \<mapsto> dst) else md_index fs g)"
  proof
    fix i
    show "md_index fs' g i = (if g = f then (md_index fs g)(u \<mapsto> dst) else md_index fs g) i"
      using at_f at_g before other [of i g] by (cases "i = u"; cases "g = f") simp_all
  qed
qed

lemma tmp_frame_inv:
  assumes f: "tmp_frame tmp s s'" and inv: "md_inv E s" and tmp: "tmp = child (child folder ''tmp'') (unique_name E sec (mdCounter s))"
  shows "md_inv E s'" "md_mail s' = md_mail s" "md_index (mdFS s') = md_index (mdFS s)"
proof -
  have d: "distinct (map fst (mdFS s))" "distinct (map fst (mdFS s'))"
    using f inv by (auto simp: tmp_frame_def md_inv_def)
  have fil: "q \<noteq> tmp \<Longrightarrow> file_at (mdFS s') q = file_at (mdFS s) q" for q
    using tmp_frameD [OF f] .
  have "msg_path q \<Longrightarrow> file_at (mdFS s') q = file_at (mdFS s) q" for q
    using fil [of q] tmp tmp_not_msg_path by blast
  from md_mail_cong [OF d this] show "md_mail s' = md_mail s" "md_index (mdFS s') = md_index (mdFS s)"
    by simp_all
  have id: "uniqueID (last (snd tmp)) = unique_name E sec (mdCounter s)"
    using uniqueID_suffix [OF unique_name_no_colon, of E sec "mdCounter s" "[]"]
    by (simp add: tmp child_def flagSuffix_def List.map_filter_simps)
  have "fresh_names E (mdCounter s) (mdFS s')"
    unfolding fresh_names_def
  proof (intro allI impI)
    fix q sec' n
    assume q: "file_at (mdFS s') q \<noteq> None" "uniqueID (last (snd q)) = unique_name E sec' n"
    show "n \<le> mdCounter s \<or> sec' < oStart E"
    proof (cases "q = tmp")
      case True
      then show ?thesis
        using q(2) id by (simp add: unique_name_inject)
    next
      case False
      then show ?thesis
        using q fil [OF False] inv fresh_namesD [of E "mdCounter s" "mdFS s" q sec' n] by (simp add: md_inv_def)
    qed
  qed
  then show "md_inv E s'"
    using f inv d by (simp add: md_inv_def tmp_frame_def)
qed

lemma delivered_inv:
  assumes del: "delivered tmp dst u data s s'" and inv: "md_inv E s" and n: "mdCounter s = n"
    and u: "u = unique_name E sec n" and fresh: "\<And>q. file_at (mdFS s) q \<noteq> None \<Longrightarrow> uniqueID (last (snd q)) \<noteq> u"
    and tmp: "tmp = child (child folder ''tmp'') u"
    and dst: "dst = child (child folder sub) final" "sub \<in> {''new'', ''cur''}" "final = u @ flagSuffix flags"
  shows "md_inv E s' \<and> md_mail s (folder, u) = None \<and> md_mail s' = (md_mail s)((folder, u) \<mapsto> data)
    \<and> md_index (mdFS s') folder = (md_index (mdFS s) folder)(u \<mapsto> dst)"
proof -
  have d: "distinct (map fst (mdFS s))" "distinct (map fst (mdFS s'))"
    using del inv by (auto simp: delivered_def md_inv_def)
  have idf: "uniqueID final = u" and vis: "\<not> prefix ''.'' final"
    using uniqueID_suffix [OF unique_name_no_colon] unique_name_visible by (simp_all add: dst(3) u)
  have idt: "uniqueID u = u"
    using uniqueID_suffix [OF unique_name_no_colon, of E sec n "[]"] by (simp add: u flagSuffix_def List.map_filter_simps)
  have fil: "q \<noteq> tmp \<Longrightarrow> q \<noteq> dst \<Longrightarrow> file_at (mdFS s') q = file_at (mdFS s) q" for q
    using deliveredD [OF del] .
  have same: "msg_path q \<Longrightarrow> q \<noteq> dst \<Longrightarrow> file_at (mdFS s') q = file_at (mdFS s) q" for q
    using fil [of q] tmp tmp_not_msg_path by blast
  have data: "file_at (mdFS s') dst = Some data"
    using del by (simp add: delivered_def)
  then have new: "file_at (mdFS s') dst \<noteq> None"
    by simp
  note idx = md_index_new [OF d dst(1,2) vis idf new fresh same]
  have old: "p \<noteq> dst" if "md_index (mdFS s) g i = Some p" for g i p
    using md_index_file [OF d(1) that] fresh [of p] idf dst(1) by (auto simp: child_def)
  have paths: "file_at (mdFS s') p = file_at (mdFS s) p" if "md_index (mdFS s) g i = Some p" for g i p
    using same [of p] old [OF that] folder_list_msg_path [OF md_index_path [OF that]] by blast
  have "md_mail s' (g, i) = ((md_mail s)((folder, u) \<mapsto> data)) (g, i)" for g i
    using idx(1) [of g] data paths by (auto simp: md_mail_def split: option.splits)
  moreover have "md_mail s (folder, u) = None"
    using idx(2) by (simp add: md_mail_def)
  moreover have "fresh_names E n (mdFS s')"
    unfolding fresh_names_def
  proof (intro allI impI)
    fix q sec' m
    assume q: "file_at (mdFS s') q \<noteq> None" "uniqueID (last (snd q)) = unique_name E sec' m"
    consider "q = tmp" | "q = dst" | "q \<noteq> tmp" "q \<noteq> dst" by blast
    then show "m \<le> n \<or> sec' < oStart E"
    proof cases
      case 1
      then show ?thesis using q(2) idt tmp u by (simp add: child_def unique_name_inject)
    next
      case 2
      then show ?thesis using q(2) idf dst(1) u by (simp add: child_def unique_name_inject)
    next
      case 3
      then show ?thesis
        using q fil [OF 3] inv n fresh_namesD [of E n "mdFS s" q sec' m] by (simp add: md_inv_def)
    qed
  qed
  ultimately show ?thesis
    using idx(1) [of folder] inv d del n by (auto simp: md_inv_def delivered_def fun_eq_iff)
qed

lemma Append_state:
  assumes inv: "md_inv E s" and app: "mdAppend E flags date body s = (r, s')"
  shows "md_inv E s' \<and> mdFolder s' = mdFolder s \<and> (md_ready s \<longrightarrow> md_ready s')
    \<and> (case r of Inl _ \<Rightarrow> md_mail s' = md_mail s
       | Inr i \<Rightarrow> \<exists>f. mdFolder s = Some f \<and> md_mail s (f, i) = None \<and> md_mail s' = (md_mail s)((f, i) \<mapsto> lit_read body))"
proof -
  define n where "n = mdCounter s + oGap E (mdTick s) + 1"
  define sec where "sec = unix_sec (oNow E (mdTick s))"
  define u where "u = unique_name E sec n"
  define sub where "sub = (if flagSuffix flags \<noteq> [] then ''cur'' else ''new'')"
  define s0 where "s0 = tick (s\<lparr>mdCounter := n\<rparr>)"
  have s0: "mdFS s0 = mdFS s" "mdCounter s0 = n" "mdFolder s0 = mdFolder s" "mdFiles s0 = mdFiles s" "md_mail s0 = md_mail s"
    by (auto simp: s0_def tick_def md_mail_def fun_eq_iff split: option.splits)
  have inv0: "md_inv E s0"
    unfolding md_inv_def s0(1,2)
  proof (intro conjI)
    show "fresh_names E n (mdFS s)"
      unfolding fresh_names_def
    proof (intro allI impI)
      fix q sec' m
      assume "file_at (mdFS s) q \<noteq> None" "uniqueID (last (snd q)) = unique_name E sec' m"
      then have "m \<le> mdCounter s \<or> sec' < oStart E"
        using inv fresh_namesD unfolding md_inv_def by blast
      then show "m \<le> n \<or> sec' < oStart E"
        by (auto simp: n_def)
    qed
  qed (use inv in \<open>simp_all add: md_inv_def\<close>)
  have ready0: "md_ready s0 = md_ready s"
    by (simp add: md_ready_def s0)
  have fresh: "uniqueID (last (snd q)) \<noteq> u" if "file_at (mdFS s0) q \<noteq> None" for q
  proof
    assume "uniqueID (last (snd q)) = u"
    then have "n \<le> mdCounter s \<or> sec < oStart E"
      using inv that fresh_namesD [of E "mdCounter s" "mdFS s" q sec n] by (simp add: md_inv_def u_def s0(1))
    then show False
      using inv by (auto simp: n_def sec_def md_inv_def env_ok_def not_less [symmetric])
  qed
  have app': "mdAppend E flags date body s = (case mdFolder s of None \<Rightarrow> (Inl (errnew ''maildir: no folder selected''), s0)
      | Some folder \<Rightarrow> md_deliver E folder u sub (u @ flagSuffix flags) date (lit_read body) s0)"
    unfolding mdAppend_def Let_def n_def [symmetric] sec_def [symmetric] u_def [symmetric] sub_def [symmetric] s0_def [symmetric]
    by (rule refl)
  show ?thesis
  proof (cases "mdFolder s")
    case None
    then show ?thesis
      using app app' inv0 ready0 s0 by auto
  next
    case (Some folder)
    have sub: "sub \<in> {''new'', ''cur''}" "sub \<noteq> ''tmp''"
      by (simp_all add: sub_def)
    define tmp where "tmp = child (child folder ''tmp'') u"
    define dst where "dst = child (child folder sub) (u @ flagSuffix flags)"
    have tmp_n: "tmp = child (child folder ''tmp'') (unique_name E sec (mdCounter s0))"
      by (simp add: tmp_def u_def s0(2))
    have "md_deliver E folder u sub (u @ flagSuffix flags) date (lit_read body) s0 = (r, s')"
      using app app' Some by simp
    note out = md_deliver_outcome [OF this sub(2), folded tmp_def dst_def]
    show ?thesis
    proof (cases r)
      case (Inl e)
      then have fr: "tmp_frame tmp s0 s'"
        using out by simp
      show ?thesis
        using tmp_frame_inv [OF fr inv0 tmp_n] fr Inl ready0 s0 by (auto simp: md_ready_def tmp_frame_def)
    next
      case (Inr i)
      then have i: "i = u" and del: "delivered tmp dst u (lit_read body) s0 s'"
        using out by simp_all
      note st = delivered_inv [OF del inv0 s0(2) u_def fresh tmp_def dst_def sub(1) refl]
      have "md_ready s \<longrightarrow> md_ready s'"
        using st del Some s0 by (auto simp: md_ready_def delivered_def update_conv' distinct_update)
      then show ?thesis
        using st del Some Inr i s0 by (auto simp: delivered_def)
    qed
  qed
qed

section \<open>The maildir endpoint meets the contract\<close>

lemma maildirEndpoint_sel [simp]:
  "epSelect (maildirEndpoint E) = mdSelect E" "epListIDs (maildirEndpoint E) = mdListIDs E"
  "epFetchMeta (maildirEndpoint E) = mdFetchMeta E" "epOpen (maildirEndpoint E) = mdOpen E"
  "epAppend (maildirEndpoint E) = mdAppend E" "epReadOnly (maildirEndpoint E) = False" "epClose (maildirEndpoint E) = id"
  "epListFolders (maildirEndpoint E) = Some (mdListFolders E)" "epCreateFolder (maildirEndpoint E) = Some (mdCreateFolder E)"
  by (simp_all add: maildirEndpoint_def)

interpretation md: exact_endpoint "maildirEndpoint E" "md_inv E" md_mail mdFolder md_ready for E
proof (unfold_locales, goal_cases)
  case (1 s n rs s')
  then show ?case using Select_state [of E s n rs s'] by simp
next
  case (2 s rl s')
  then show ?case by (auto simp: mdListIDs_def)
next
  case (3 s ids rf s')
  then show ?case using FetchMeta_quiet [of E ids s rf s'] by (simp add: quiet_sel)
next
  case (4 s i ro s')
  then show ?case using Open_quiet [of E i s ro s'] by (simp add: quiet_sel)
next
  case (5 s fl d lit e s')
  then show ?case using Append_state [of E s fl d lit "Inl e" s'] by simp
next
  case (6 s fl d lit i s')
  then show ?case using Append_state [of E s fl d lit "Inr i" s'] by auto
next
  case (7 s)
  then show ?case by simp
next
  case (8 s lf ri s')
  then show ?case using ListFolders_quiet [of E s ri s'] by (auto simp: quiet_sel)
next
  case (9 s cf n rc s')
  then show ?case using CreateFolder_same [of E n s rc s'] same_files_inv [of s s' E] by auto
next
  case (10 s)
  then show ?case by (auto simp: md_ready_def)
next
  case (11 s n x s')
  then show ?case using Select_state [of E s n "Inr x" s'] by simp
next
  case (12 s ids rf s')
  then show ?case using FetchMeta_quiet [of E ids s rf s'] by (simp add: quiet_sel)
next
  case (13 s i ro s')
  then show ?case using Open_quiet [of E i s ro s'] by (simp add: quiet_sel)
next
  case (14 s fl d lit ra s')
  then show ?case using Append_state [of E s fl d lit ra s'] by simp
next
  case (15 s ms s')
  then show ?case using FetchMeta_all [of E s ms s'] by simp
next
  case (16 s rl s')
  then show ?case by (simp add: mdListIDs_def)
next
  case (17 s ids s')
  then show ?case using ListIDs_exact [of E s ids s'] by simp
next
  case (18 s ids ms s')
  then show ?case using FetchMeta_some [of E s ids ms s'] by simp
next
  case (19 s ids ms s' m g hh)
  then show ?case using FetchMeta_ready [of E s ids ms s' m g hh] by simp
next
  case (20 s i lit s')
  then show ?case using Open_ready [of E s i lit s'] by simp
qed

section \<open>Properties\<close>

text \<open>C14: an append to a Maildir either fails and leaves every message of every folder as it was, whichever
  system call failed, or stores exactly the bytes of the message under a new ID of the selected
  folder and changes nothing else; no existing message is ever overwritten.\<close>
theorem maildir_append:
  assumes "md_inv E s" and "mdAppend E flags date body s = (r, s')"
  shows "md_inv E s' \<and> (case r of Inl _ \<Rightarrow> md_mail s' = md_mail s
    | Inr i \<Rightarrow> \<exists>f. mdFolder s = Some f \<and> md_mail s (f, i) = None \<and> md_mail s' = (md_mail s)((f, i) \<mapsto> lit_read body))"
  using Append_state [OF assms] by blast

text \<open>C15: selecting a Maildir folder never changes a message, and afterwards listing the metadata of all messages
  gives every message of the folder exactly once, with a header block that parses as the whole message
  does; opening a message gives its bytes.\<close>
theorem maildir_listing_exact:
  assumes inv: "md_inv E s" and sel: "mdSelect E name s = (Inr x, s1)"
    and fetch: "mdFetchMeta E None s1 = (Inr ms, s2)" and open_m: "mdOpen E i s1 = (Inr lit, s3)"
  shows "md_mail s2 = md_mail s \<and> distinct (map mID ms)
    \<and> set (map mID ms) = {i. md_mail s (the (mdFolder s1), i) \<noteq> None}
    \<and> list_all (\<lambda>m. ParseFields g (mHeader m) hh = ParseFields g (the (md_mail s (the (mdFolder s1), mID m))) hh) ms
    \<and> lit = Buffer (the (md_mail s (the (mdFolder s1), i)))"
proof -
  have st: "md_inv E s1" "md_mail s1 = md_mail s" "md_ready s1"
    using Select_state [OF inv sel] by simp_all
  have "md_mail s2 = md_mail s"
    using quiet_sel(6) [OF FetchMeta_quiet [OF fetch]] st(2) by simp
  moreover have "list_all (\<lambda>m. ParseFields g (mHeader m) hh = ParseFields g (the (md_mail s (the (mdFolder s1), mID m))) hh) ms"
    using FetchMeta_ready [OF st(1,3) fetch] st(2) by (fastforce simp: list_all_iff)
  ultimately show ?thesis
    using FetchMeta_all [OF st(1,3) fetch] Open_ready [OF st(1,3) open_m] st(2) by auto
qed

subsection \<open>Flags\<close>

lemma str_index_colon: "CHR '':'' \<notin> set u \<Longrightarrow> str_index '':2,'' (u @ '':2,'' @ t) = Some (length u)"
  by (induction u) (auto simp: prefix_def)

lemma imap_letter: "map_of imapToFlagLetter f = Some l \<Longrightarrow> map_of flagLetterToIMAP l = Some f"
  by (auto simp: imapToFlagLetter_def flagLetterToIMAP_def bslash_def split: if_splits)

definition known_flag :: "string \<Rightarrow> bool" where "known_flag f = (map_of imapToFlagLetter f \<noteq> None)"

lemma letters_flags:
  "List.map_filter (map_of flagLetterToIMAP) (List.map_filter (map_of imapToFlagLetter) fl) = filter known_flag fl"
  by (induction fl) (auto simp: List.map_filter_simps known_flag_def imap_letter split: option.splits)

lemma mset_map_filter: "mset xs = mset ys \<Longrightarrow> mset (List.map_filter f xs) = mset (List.map_filter f ys)"
  by (simp add: List.map_filter_def)

text \<open>The flags written into a Maildir file name are the ones read back from it, for every flag that Maildir
  has a letter for; the others are dropped.\<close>
theorem flags_roundtrip:
  assumes "CHR '':'' \<notin> set u"
  shows "mset (flagsFromName (u @ flagSuffix fl)) = mset (filter known_flag fl)"
proof (cases "List.map_filter (map_of imapToFlagLetter) fl = []")
  case True
  have "str_index '':2,'' u = None"
    using assms by (induction u) (auto simp: prefix_def)
  moreover have "filter known_flag fl = []"
    using letters_flags [of fl] True by (simp add: List.map_filter_simps)
  ultimately show ?thesis
    using True by (simp add: flagsFromName_def flagSuffix_def)
next
  case False
  let ?ls = "List.map_filter (map_of imapToFlagLetter) fl"
  have "flagsFromName (u @ flagSuffix fl) = List.map_filter (map_of flagLetterToIMAP) (sort ?ls)"
    using str_index_colon [OF assms, of "sort ?ls"] False
    by (simp add: flagsFromName_def flagSuffix_def Let_def numeral_eq_Suc)
  then show ?thesis
    using mset_map_filter [of "sort ?ls" ?ls "map_of flagLetterToIMAP"] letters_flags [of fl] by (metis mset_sort)
qed

section \<open>Examples\<close>

definition env_ex :: mdenv where
  "env_ex = \<lparr>oFault = \<lambda>_. None, oNow = \<lambda>_. 5000000000, oOrder = \<lambda>_ xs. xs, oPart = \<lambda>_. 0, oGap = \<lambda>_. 0, oStart = 5,
     oHost = ''h'', oPid = 7, oUT = ut_ex\<rparr>"

definition dirs_ex :: "(apath, fnode) table" where
  "dirs_ex = [((''r'', []), FDir), ((''r'', [''tmp'']), FDir), ((''r'', [''new'']), FDir), ((''r'', [''cur'']), FDir)]"

definition mdir_ex :: "(apath, fnode) table \<Rightarrow> maildir" where
  "mdir_ex fs = \<lparr>mdFS = fs, mdTick = 0, mdCounter = 0, mdRoot = ''r'', mdUser = ''u'', mdFolder = Some (''r'', []), mdFiles = []\<rparr>"

lemma env_ex_ok: "env_ok env_ex"
  by (simp add: env_ok_def env_ex_def perm_fun_def unix_sec_def)

lemma mdir_ex_inv: "md_inv env_ex (mdir_ex dirs_ex)"
proof -
  have "file_at dirs_ex p = None" for p
    by (auto simp: file_at_def dirs_ex_def)
  then show ?thesis
    by (simp add: md_inv_def env_ex_ok mdir_ex_def fresh_names_def) (simp add: dirs_ex_def)
qed

theorem maildir_append_witness:
  "\<exists>i s'. mdAppend env_ex [] 9 (Buffer ''x'') (mdir_ex dirs_ex) = (Inr i, s') \<and> md_mail s' ((''r'', []), i) = Some ''x''"
proof -
  have "\<exists>i s'. mdAppend env_ex [] 9 (Buffer ''x'') (mdir_ex dirs_ex) = (Inr i, s')"
    by (simp add: mdAppend_def md_deliver_def Let_def mdir_ex_def dirs_ex_def flagSuffix_def List.map_filter_simps
        os_CreateExcl_def io_Copy_def os_CloseFile_def os_Chtimes_def os_Rename_def sys_def tick_def env_ex_def child_def
        parent_dir_def zero_time_def)
  then obtain i s' where a: "mdAppend env_ex [] 9 (Buffer ''x'') (mdir_ex dirs_ex) = (Inr i, s')"
    by blast
  show ?thesis
    using maildir_append [OF mdir_ex_inv a] a by (auto simp: mdir_ex_def)
qed

definition mbox_ex :: "(apath, fnode) table" where
  "mbox_ex = dirs_ex @ [((''r'', [''new'', ''m'']), FFile ''hi'' 1)]"

lemma mbox_ex_inv: "md_inv env_ex (mdir_ex mbox_ex)"
proof -
  have "p = (''r'', [''new'', ''m''])" if "file_at mbox_ex p \<noteq> None" for p
    using that by (auto simp: file_at_def mbox_ex_def dirs_ex_def split: if_splits)
  moreover have "''m'' \<noteq> unique_name env_ex sec n" for sec n
    using itoa_chars [of "CHR ''m''" sec] by (auto simp: unique_name_def Cons_eq_append_conv is_digit_def)
  moreover have "uniqueID ''m'' = ''m''"
    by (simp add: uniqueID_def str_cut_def)
  ultimately have "fresh_names env_ex 0 mbox_ex"
    unfolding fresh_names_def by (metis last.simps list.distinct(1) snd_conv)
  then show ?thesis
    by (simp add: md_inv_def env_ex_ok mdir_ex_def) (simp add: mbox_ex_def dirs_ex_def)
qed

theorem maildir_listing_exact_witness:
  "\<exists>s1 ms s2. mdSelect env_ex [] (mdir_ex mbox_ex) = (Inr (''INBOX'', ''maildir''), s1)
     \<and> mdFetchMeta env_ex None s1 = (Inr ms, s2) \<and> map mID ms = [''m''] \<and> md_mail s2 = md_mail (mdir_ex mbox_ex)"
proof -
  have id: "uniqueID ''m'' = ''m''"
    by (simp add: uniqueID_def str_cut_def)
  have sel: "\<exists>s1. mdSelect env_ex [] (mdir_ex mbox_ex) = (Inr (''INBOX'', ''maildir''), s1)
      \<and> mdFiles s1 = [(''m'', (''r'', [''new'', ''m'']))] \<and> mdFS s1 = mbox_ex"
    by (simp add: mdSelect_def folderPath_def root_path_def mdir_ex_def os_MkdirAll_def sys_def env_ex_def parents_def child_def
        is_file_def mbox_ex_def dirs_ex_def add_dir_def tick_def scan_def scan_sub_def os_ReadDir_def dir_entries_def
        scan_entries_def put_files_def folder_name_def id)
  then obtain s1 where s1: "mdSelect env_ex [] (mdir_ex mbox_ex) = (Inr (''INBOX'', ''maildir''), s1)"
    "mdFiles s1 = [(''m'', (''r'', [''new'', ''m'']))]" "mdFS s1 = mbox_ex"
    by blast
  have "\<exists>ms s2. mdFetchMeta env_ex None s1 = (Inr ms, s2) \<and> map mID ms = [''m'']"
    using s1(2,3) by (simp add: mdFetchMeta_def os_Stat_def readHeaderBlock_def os_ReadFile_def sys_def env_ex_def tick_def
        mbox_ex_def dirs_ex_def)
  moreover have "\<exists>lit s3. mdOpen env_ex ''m'' s1 = (Inr lit, s3)"
    using s1(2,3) by (simp add: mdOpen_def os_ReadFile_def sys_def env_ex_def tick_def mbox_ex_def dirs_ex_def)
  ultimately obtain ms s2 lit s3 where f: "mdFetchMeta env_ex None s1 = (Inr ms, s2)" "map mID ms = [''m'']"
    and o: "mdOpen env_ex ''m'' s1 = (Inr lit, s3)"
    by (elim exE conjE)
  show ?thesis
    using maildir_listing_exact [OF mbox_ex_inv s1(1) f(1) o] s1(1) f
    by (intro exI [of _ s1] exI [of _ ms] exI [of _ s2]) simp
qed

end
