(* ===== verification/SyncSafety.thy ===== *)
theory SyncSafety
  imports Syncer Maildir
begin

text \<open>
  Safety of the synchronizer: a small Hoare logic for the programs of \<^theory_text>\<open>Syncer\<close> and, on top of it, the
  proof that processing a user never changes or removes a message of either side and adds messages only
  where the direction and the endpoint allow it. The locale \<open>sync_sides\<close> states what is needed of the two
  backends: whatever they connect to meets the contract \<open>mail_endpoint\<close>.
\<close>

section \<open>Hoare triples\<close>

definition hoare :: "('s \<Rightarrow> bool) \<Rightarrow> ('s, 'x) state \<Rightarrow> ('x \<Rightarrow> 's \<Rightarrow> bool) \<Rightarrow> bool" where
  "hoare P m Q = (\<forall>s. P s \<longrightarrow> (case run_state m s of (x, s') \<Rightarrow> Q x s'))"

lemma hoareI: "(\<And>s x s'. P s \<Longrightarrow> run_state m s = (x, s') \<Longrightarrow> Q x s') \<Longrightarrow> hoare P m Q"
  by (auto simp: hoare_def split: prod.splits)

lemma hoareD: "hoare P m Q \<Longrightarrow> P s \<Longrightarrow> run_state m s = (x, s') \<Longrightarrow> Q x s'"
  by (fastforce simp: hoare_def)

lemma hoare_ret: "(\<And>s. P s \<Longrightarrow> Q x s) \<Longrightarrow> hoare P (ret x) Q"
  by (rule hoareI) auto

lemma hoare_bind: "hoare P m R \<Longrightarrow> (\<And>x. hoare (R x) (f x) Q) \<Longrightarrow> hoare P (State_Monad.bind m f) Q"
  by (fastforce simp: hoare_def split: prod.splits)

lemma hoare_weaken: "hoare P m Q \<Longrightarrow> (\<And>s. P' s \<Longrightarrow> P s) \<Longrightarrow> (\<And>x s. Q x s \<Longrightarrow> Q' x s) \<Longrightarrow> hoare P' m Q'"
  by (fastforce simp: hoare_def split: prod.splits)

text \<open>A fact about the result that does not mention the state can be moved into the assumptions.\<close>

lemma hoare_fact: "(F \<Longrightarrow> hoare P m Q) \<Longrightarrow> hoare (\<lambda>s. F \<and> P s) m Q"
  by (auto simp: hoare_def)

abbreviation keeps :: "('s \<Rightarrow> bool) \<Rightarrow> ('s, 'x) state \<Rightarrow> bool" where
  "keeps I m \<equiv> hoare I m (\<lambda>_. I)"

named_theorems keeps_intros \<open>programs that keep an invariant\<close>

lemma keeps_ret [keeps_intros]: "keeps I (ret x)"
  by (rule hoare_ret)

lemma keeps_bind [keeps_intros]: "keeps I m \<Longrightarrow> (\<And>x. keeps I (f x)) \<Longrightarrow> keeps I (State_Monad.bind m f)"
  by (rule hoare_bind)

lemma hoare_if [keeps_intros]: "(b \<Longrightarrow> hoare P m Q) \<Longrightarrow> (\<not> b \<Longrightarrow> hoare P n Q) \<Longrightarrow> hoare P (if b then m else n) Q"
  by simp

lemma hoare_option [keeps_intros]:
  "(x = None \<Longrightarrow> hoare P m Q) \<Longrightarrow> (\<And>y. x = Some y \<Longrightarrow> hoare P (f y) Q) \<Longrightarrow> hoare P (case x of None \<Rightarrow> m | Some y \<Rightarrow> f y) Q"
  by (cases x) auto

lemma hoare_sum [keeps_intros]:
  "(\<And>e. x = Inl e \<Longrightarrow> hoare P (g e) Q) \<Longrightarrow> (\<And>y. x = Inr y \<Longrightarrow> hoare P (f y) Q) \<Longrightarrow> hoare P (case x of Inl e \<Rightarrow> g e | Inr y \<Rightarrow> f y) Q"
  by (cases x) auto

lemma hoare_prod [keeps_intros]: "(\<And>a b. x = (a, b) \<Longrightarrow> hoare P (f a b) Q) \<Longrightarrow> hoare P (case x of (a, b) \<Rightarrow> f a b) Q"
  by (cases x) auto

lemma hoare_let [keeps_intros]: "hoare P (f x) Q \<Longrightarrow> hoare P (let y = x in f y) Q"
  by simp

lemmas hoare_cases = hoare_if hoare_option hoare_sum hoare_prod

section \<open>Invariants of the two sides\<close>

text \<open>A predicate of the world that looks only at the two sides.\<close>

definition sides_only :: "('e world \<Rightarrow> bool) \<Rightarrow> bool" where
  "sides_only I = (\<forall>w w'. wA w = wA w' \<and> wB w = wB w' \<longrightarrow> I w \<longrightarrow> I w')"

lemma sides_onlyD: "sides_only I \<Longrightarrow> I w \<Longrightarrow> wA w' = wA w \<Longrightarrow> wB w' = wB w \<Longrightarrow> I w'"
  unfolding sides_only_def by metis

lemma keeps_sides:
  assumes "sides_only I"
  shows "keeps I (on_db m)" "keeps I (on_stats g)" "keeps I (get_stats h)" "keeps I (ask a)" "keeps I (recordErr us e)"
    "keeps I (State (\<lambda>w. case k (wCol w) of (p, c) \<Rightarrow> (p, w\<lparr>wCol := c\<rparr>)))"
  using assms
  by (auto intro!: hoareI elim!: sides_onlyD simp: on_db_def on_stats_def get_stats_def ask_def recordErr_def split: prod.splits)

lemma keeps_records:
  assumes "sides_only I"
  shows "keeps I (recordErrs us es)" "keeps I (record_failure us p r)"
proof -
  show "keeps I (recordErrs us es)"
    by (induction es) (auto intro!: keeps_intros keeps_sides assms)
  show "keeps I (record_failure us p r)"
    unfolding record_failure_def by (intro keeps_intros keeps_sides assms)
qed

lemma keeps_bookkeeping:
  assumes "sides_only I"
  shows "keeps I (parse_fresh sess p ms fresh cached)" "keeps I (put_back sess pair side p' cache)" "keeps I (persistStatus S name us)"
    "keeps I (userStopped S name)" "keeps I (finish_incremental sess side pair p validity resyncAt curIDs cached fetched)"
proof -
  show parse: "keeps I (parse_fresh sess p ms fresh cached)" for ms fresh cached
    by (induction ms arbitrary: fresh cached) (auto intro!: keeps_intros keeps_sides assms split: sum.splits)
  show "keeps I (put_back sess pair side p' cache)" "keeps I (persistStatus S name us)" "keeps I (userStopped S name)"
    unfolding put_back_def persistStatus_def userStopped_def
    by (intro keeps_intros keeps_sides keeps_records assms)+
  show "keeps I (finish_incremental sess side pair p validity resyncAt curIDs cached fetched)"
    unfolding finish_incremental_def by (intro keeps_intros keeps_sides keeps_records assms parse)
qed

lemma hoare_dial:
  assumes conn: "hoare I (on_side side (bConnect bk u)) (\<lambda>r w. (\<forall>ep. r = Inr ep \<longrightarrow> G ep) \<and> I w)"
    and sides: "sides_only I"
  shows "hoare I (dial S ctx side bk u) (\<lambda>r w. (\<forall>ep. r = Inr ep \<longrightarrow> G ep) \<and> I w)"
proof -
  let ?Q = "\<lambda>r w. (\<forall>ep. r = Inr ep \<longrightarrow> G ep) \<and> I w"
  have "hoare I (dial_loop S ctx side bk u i n e) ?Q" for i n e
  proof (induction n arbitrary: i e)
    case (Suc n)
    show ?case
      unfolding dial_loop.simps
      by (rule hoare_bind [where R = "\<lambda>_. I"], intro keeps_intros keeps_sides sides)
        (intro hoare_cases hoare_bind [OF conn] hoare_fact Suc.IH; auto intro: hoare_ret)
  qed (auto intro: hoare_ret)
  then show ?thesis
    by (simp add: dial_def)
qed

section \<open>What the synchronizer needs of the sides\<close>

text \<open>
  \<open>usr\<close> is the user that is processed; only connections for that user matter. \<open>roA\<close> and \<open>roB\<close> say that the
  endpoints of a side declare themselves read-only.
\<close>

locale sync_sides =
  fixes S :: "'e Syncer" and usr :: User
    and invA :: "'e \<Rightarrow> bool" and mailA :: "'e \<Rightarrow> 'f \<times> string \<Rightarrow> string option" and curA :: "'e \<Rightarrow> 'f option" and roA :: bool
    and invB :: "'e \<Rightarrow> bool" and mailB :: "'e \<Rightarrow> 'g \<times> string \<Rightarrow> string option" and curB :: "'e \<Rightarrow> 'g option" and roB :: bool
  assumes connA: "invA s \<Longrightarrow> bConnect (yBackendA S) (ConnectAs usr ''a'') s = (r, s') \<Longrightarrow> invA s' \<and> mailA s' = mailA s
      \<and> (\<forall>ep. r = Inr ep \<longrightarrow> mail_endpoint ep invA mailA curA \<and> (roA \<longrightarrow> epReadOnly ep))"
    and connB: "invB s \<Longrightarrow> bConnect (yBackendB S) (ConnectAs usr ''b'') s = (r, s') \<Longrightarrow> invB s' \<and> mailB s' = mailB s
      \<and> (\<forall>ep. r = Inr ep \<longrightarrow> mail_endpoint ep invB mailB curB \<and> (roB \<longrightarrow> epReadOnly ep))"
begin

text \<open>The invariant relative to a first world \<open>w0\<close>: mail only grows, and not at all on a frozen side.\<close>

definition grown :: "'e world \<Rightarrow> 'e world \<Rightarrow> bool" where
  "grown w0 w = (invA (wA w) \<and> invB (wB w)
     \<and> mailA (wA w0) \<subseteq>\<^sub>m mailA (wA w) \<and> mailB (wB w0) \<subseteq>\<^sub>m mailB (wB w)
     \<and> (\<not> yDirBToA S \<or> roA \<longrightarrow> mailA (wA w) = mailA (wA w0)) \<and> (\<not> yDirAToB S \<or> roB \<longrightarrow> mailB (wB w) = mailB (wB w0)))"

definition linked :: "'e session \<Rightarrow> bool" where
  "linked sess = (ssS sess = S \<and> ssU sess = usr \<and> (\<exists>a b. ssA sess = Some a \<and> ssB sess = Some b
     \<and> mail_endpoint a invA mailA curA \<and> (roA \<longrightarrow> epReadOnly a) \<and> mail_endpoint b invB mailB curB \<and> (roB \<longrightarrow> epReadOnly b)))"

lemma grown_sides: "sides_only (grown w0)"
  by (auto simp: sides_only_def grown_def)

lemmas keeps_rest = keeps_sides [OF grown_sides] keeps_records [OF grown_sides] keeps_bookkeeping [OF grown_sides]

lemma keeps_on_A:
  assumes "\<And>s x s'. invA s \<Longrightarrow> f s = (x, s') \<Longrightarrow> invA s' \<and> mailA s \<subseteq>\<^sub>m mailA s' \<and> (\<not> yDirBToA S \<or> roA \<longrightarrow> mailA s' = mailA s)"
  shows "keeps (grown w0) (on_A f)"
  using assms by (fastforce intro!: hoareI simp: on_A_def grown_def dest: map_le_trans split: prod.splits)

lemma keeps_on_B:
  assumes "\<And>s x s'. invB s \<Longrightarrow> f s = (x, s') \<Longrightarrow> invB s' \<and> mailB s \<subseteq>\<^sub>m mailB s' \<and> (\<not> yDirAToB S \<or> roB \<longrightarrow> mailB s' = mailB s)"
  shows "keeps (grown w0) (on_B f)"
  using assms by (fastforce intro!: hoareI simp: on_B_def grown_def dest: map_le_trans split: prod.splits)

lemma keeps_same_A: "(\<And>s x s'. invA s \<Longrightarrow> f s = (x, s') \<Longrightarrow> invA s' \<and> mailA s' = mailA s) \<Longrightarrow> keeps (grown w0) (on_A f)"
  by (rule keeps_on_A) (metis map_le_refl)

lemma keeps_same_B: "(\<And>s x s'. invB s \<Longrightarrow> f s = (x, s') \<Longrightarrow> invB s' \<and> mailB s' = mailB s) \<Longrightarrow> keeps (grown w0) (on_B f)"
  by (rule keeps_on_B) (metis map_le_refl)

text \<open>Every call of a method that does not append.\<close>

lemma keeps_reads_A:
  assumes "mail_endpoint a invA mailA curA"
  shows "keeps (grown w0) (on_A (epSelect a n))" "keeps (grown w0) (on_A (epListIDs a))" "keeps (grown w0) (on_A (epFetchMeta a ids))"
    "keeps (grown w0) (on_A (epOpen a i))" "keeps (grown w0) (on_A (\<lambda>s. ((), epClose a s)))"
    "epListFolders a = Some lf \<Longrightarrow> keeps (grown w0) (on_A lf)" "epCreateFolder a = Some cf \<Longrightarrow> keeps (grown w0) (on_A (cf n))"
proof -
  note laws = mail_endpoint.select_mail [OF assms] mail_endpoint.list_mail [OF assms] mail_endpoint.fetch_mail [OF assms]
    mail_endpoint.open_mail [OF assms] mail_endpoint.close_mail [OF assms]
  show "keeps (grown w0) (on_A (epSelect a n))" by (rule keeps_same_A) (blast dest: laws)
  show "keeps (grown w0) (on_A (epListIDs a))" by (rule keeps_same_A) (blast dest: laws)
  show "keeps (grown w0) (on_A (epFetchMeta a ids))" by (rule keeps_same_A) (blast dest: laws)
  show "keeps (grown w0) (on_A (epOpen a i))" by (rule keeps_same_A) (blast dest: laws)
  show "keeps (grown w0) (on_A (\<lambda>s. ((), epClose a s)))" by (rule keeps_same_A) (auto dest: laws)
  show "keeps (grown w0) (on_A lf)" if "epListFolders a = Some lf"
    by (rule keeps_same_A) (blast dest: mail_endpoint.folders_mail [OF assms _ that])
  show "keeps (grown w0) (on_A (cf n))" if "epCreateFolder a = Some cf"
    by (rule keeps_same_A) (blast dest: mail_endpoint.create_mail [OF assms _ that])
qed

lemma keeps_reads_B:
  assumes "mail_endpoint b invB mailB curB"
  shows "keeps (grown w0) (on_B (epSelect b n))" "keeps (grown w0) (on_B (epListIDs b))" "keeps (grown w0) (on_B (epFetchMeta b ids))"
    "keeps (grown w0) (on_B (epOpen b i))" "keeps (grown w0) (on_B (\<lambda>s. ((), epClose b s)))"
    "epListFolders b = Some lf \<Longrightarrow> keeps (grown w0) (on_B lf)" "epCreateFolder b = Some cf \<Longrightarrow> keeps (grown w0) (on_B (cf n))"
proof -
  note laws = mail_endpoint.select_mail [OF assms] mail_endpoint.list_mail [OF assms] mail_endpoint.fetch_mail [OF assms]
    mail_endpoint.open_mail [OF assms] mail_endpoint.close_mail [OF assms]
  show "keeps (grown w0) (on_B (epSelect b n))" by (rule keeps_same_B) (blast dest: laws)
  show "keeps (grown w0) (on_B (epListIDs b))" by (rule keeps_same_B) (blast dest: laws)
  show "keeps (grown w0) (on_B (epFetchMeta b ids))" by (rule keeps_same_B) (blast dest: laws)
  show "keeps (grown w0) (on_B (epOpen b i))" by (rule keeps_same_B) (blast dest: laws)
  show "keeps (grown w0) (on_B (\<lambda>s. ((), epClose b s)))" by (rule keeps_same_B) (auto dest: laws)
  show "keeps (grown w0) (on_B lf)" if "epListFolders b = Some lf"
    by (rule keeps_same_B) (blast dest: mail_endpoint.folders_mail [OF assms _ that])
  show "keeps (grown w0) (on_B (cf n))" if "epCreateFolder b = Some cf"
    by (rule keeps_same_B) (blast dest: mail_endpoint.create_mail [OF assms _ that])
qed

lemma keeps_appends:
  assumes "linked sess"
  shows "allowBToA sess \<Longrightarrow> keeps (grown w0) (on_A (epAppend (the (ssA sess)) fl d lit))"
    "allowAToB sess \<Longrightarrow> keeps (grown w0) (on_B (epAppend (the (ssB sess)) fl d lit))"
proof -
  obtain a b where ab: "ssA sess = Some a" "ssB sess = Some b" "mail_endpoint a invA mailA curA" "mail_endpoint b invB mailB curB"
    "roA \<longrightarrow> epReadOnly a" "roB \<longrightarrow> epReadOnly b" "ssS sess = S"
    using assms by (auto simp: linked_def)
  show "keeps (grown w0) (on_A (epAppend (the (ssA sess)) fl d lit))" if "allowBToA sess"
    using mail_endpoint.append_grows [OF ab(3)] that ab
    by (intro keeps_on_A) (auto simp: allowBToA_def)
  show "keeps (grown w0) (on_B (epAppend (the (ssB sess)) fl d lit))" if "allowAToB sess"
    using mail_endpoint.append_grows [OF ab(4)] that ab
    by (intro keeps_on_B) (auto simp: allowAToB_def)
qed

lemma linked_sides:
  assumes "linked sess"
  shows "mail_endpoint (the (ssA sess)) invA mailA curA" "mail_endpoint (the (ssB sess)) invB mailB curB" "ssS sess = S"
  using assms by (auto simp: linked_def)

lemma keeps_reads:
  assumes "linked sess"
  shows "keeps (grown w0) (on_side side (epListIDs (endpoint sess side)))"
    "keeps (grown w0) (on_side side (epFetchMeta (endpoint sess side) ids))"
    "keeps (grown w0) (on_side side (epOpen (endpoint sess side) i))"
  using linked_sides [OF assms] by (simp_all add: on_side_def endpoint_def keeps_reads_A keeps_reads_B)

lemma keeps_indexFolder: "linked sess \<Longrightarrow> keeps (grown w0) (indexFolder sess side fp folder validity)"
  unfolding indexFolder_def indexFolderFull_def indexFolderIncremental_def
  by (intro keeps_intros keeps_reads keeps_rest; assumption)

definition writable :: "'e session \<Rightarrow> string \<Rightarrow> bool" where
  "writable sess dst = (if dst = ''b'' then allowAToB sess else allowBToA sess)"

lemma keeps_copyOne:
  assumes "linked sess" "writable sess dst"
  shows "keeps (grown w0) (copyOne sess src dst e)"
proof -
  have "keeps (grown w0) (on_side dst (epAppend (endpoint sess dst) fl d lit))" for fl d lit
    using assms by (simp add: writable_def on_side_def endpoint_def keeps_appends split: if_splits)
  then show ?thesis
    unfolding copyOne_def by (intro keeps_intros keeps_reads assms)
qed

lemma keeps_copy_loop:
  assumes "linked sess" "es \<noteq> [] \<longrightarrow> writable sess dst"
  shows "keeps (grown w0) (copy_loop sess src dst dir srcF dstF i es n cache)"
  using assms(2)
proof (induction es arbitrary: i n cache)
  case (Cons e es)
  then show ?case
    unfolding copy_loop.simps using assms(1) by (intro keeps_intros keeps_rest keeps_copyOne) auto
qed (simp add: keeps_ret)

lemma keeps_syncPair:
  assumes "linked sess"
  shows "keeps (grown w0) (syncPair sess fp)"
proof -
  have "keeps (grown w0) (copy_deltas sess fp fA fB iA iB)" for fA fB iA iB
    unfolding copy_deltas_def copyMissing_def
    by (intro keeps_intros keeps_rest keeps_copy_loop assms) (auto simp: writable_def)
  then show ?thesis
    unfolding syncPair_def
    by (intro keeps_intros keeps_reads_A keeps_reads_B keeps_indexFolder linked_sides assms)
qed

lemma keeps_create_missing:
  "keeps (grown w0) (create_missing side cf fs ps)" if "\<And>n. keeps (grown w0) (on_side side (cf n))"
proof (induction fs arbitrary: ps)
  case (Cons f fs)
  then show ?case
    unfolding create_missing.simps by (intro keeps_intros that)
qed (simp add: keeps_ret)

lemma keeps_resolveFolders:
  assumes "linked sess"
  shows "keeps (grown w0) (resolveFolders sess)"
proof -
  have cr: "epCreateFolder (the (ssA sess)) = Some cf \<Longrightarrow> keeps (grown w0) (on_side ''a'' (cf n))"
    "epCreateFolder (the (ssB sess)) = Some cf \<Longrightarrow> keeps (grown w0) (on_side ''b'' (cf n))" for cf n
    using linked_sides [OF assms] by (simp_all add: on_side_def keeps_reads_A keeps_reads_B)
  have "keeps (grown w0) (pairFolders sess fsA fsB)" for fsA fsB
    unfolding pairFolders_def by (intro keeps_intros keeps_create_missing cr)
  then show ?thesis
    unfolding resolveFolders_def
    by (intro keeps_intros keeps_reads_A(6) [OF linked_sides(1) [OF assms]] keeps_reads_B(6) [OF linked_sides(2) [OF assms]])
qed

text \<open>Connecting gives endpoints that meet the contract.\<close>

lemma connects:
  "hoare (grown w0) (on_side ''a'' (bConnect (yBackendA S) (ConnectAs usr ''a'')))
     (\<lambda>r w. (\<forall>ep. r = Inr ep \<longrightarrow> mail_endpoint ep invA mailA curA \<and> (roA \<longrightarrow> epReadOnly ep)) \<and> grown w0 w)"
  "hoare (grown w0) (on_side ''b'' (bConnect (yBackendB S) (ConnectAs usr ''b'')))
     (\<lambda>r w. (\<forall>ep. r = Inr ep \<longrightarrow> mail_endpoint ep invB mailB curB \<and> (roB \<longrightarrow> epReadOnly ep)) \<and> grown w0 w)"
proof (rule_tac [!] hoareI)
  fix s x s'
  assume g: "grown w0 s" and r: "run_state (on_side ''a'' (bConnect (yBackendA S) (ConnectAs usr ''a''))) s = (x, s')"
  have "bConnect (yBackendA S) (ConnectAs usr ''a'') (wA s) = (x, wA s')" "wB s' = wB s"
    using r by (auto simp: on_side_def on_A_def split: prod.splits)
  then show "(\<forall>ep. x = Inr ep \<longrightarrow> mail_endpoint ep invA mailA curA \<and> (roA \<longrightarrow> epReadOnly ep)) \<and> grown w0 s'"
    using connA [of "wA s" x "wA s'"] g by (simp add: grown_def)
next
  fix s x s'
  assume g: "grown w0 s" and r: "run_state (on_side ''b'' (bConnect (yBackendB S) (ConnectAs usr ''b''))) s = (x, s')"
  have "bConnect (yBackendB S) (ConnectAs usr ''b'') (wB s) = (x, wB s')" "wA s' = wA s"
    using r by (auto simp: on_side_def on_B_def split: prod.splits)
  then show "(\<forall>ep. x = Inr ep \<longrightarrow> mail_endpoint ep invB mailB curB \<and> (roB \<longrightarrow> epReadOnly ep)) \<and> grown w0 s'"
    using connB [of "wB s" x "wB s'"] g by (simp add: grown_def)
qed

lemmas dials = hoare_dial [OF connects(1) grown_sides] hoare_dial [OF connects(2) grown_sides]

definition closable :: "'e session \<Rightarrow> bool" where
  "closable sess = (ssS sess = S \<and> ssU sess = usr \<and> (\<forall>a. ssA sess = Some a \<longrightarrow> mail_endpoint a invA mailA curA)
     \<and> (\<forall>b. ssB sess = Some b \<longrightarrow> mail_endpoint b invB mailB curB))"

lemma linked_closable: "linked sess \<Longrightarrow> closable sess"
  by (auto simp: linked_def closable_def)

lemma close_spec:
  assumes "closable sess"
  shows "hoare (grown w0) (close sess) (\<lambda>sess' w. closable sess' \<and> grown w0 w)"
proof -
  have c: "\<And>a. ssA sess = Some a \<Longrightarrow> mail_endpoint a invA mailA curA" "\<And>b. ssB sess = Some b \<Longrightarrow> mail_endpoint b invB mailB curB"
    using assms by (auto simp: closable_def)
  have "keeps (grown w0) (case ssA sess of None \<Rightarrow> ret () | Some a \<Rightarrow> on_A (\<lambda>s. ((), epClose a s)))"
    "keeps (grown w0) (case ssB sess of None \<Rightarrow> ret () | Some b \<Rightarrow> on_B (\<lambda>s. ((), epClose b s)))"
    by (intro keeps_intros keeps_reads_A(5) keeps_reads_B(5) c; assumption)+
  moreover have "closable (sess\<lparr>ssA := None, ssB := None\<rparr>)"
    using assms by (simp add: closable_def)
  ultimately show ?thesis
    unfolding close_def by (intro hoare_bind [where R = "\<lambda>_. grown w0"] hoare_ret) simp_all
qed

lemma connect_spec:
  assumes "closable sess"
  shows "hoare (grown w0) (connect sess) (\<lambda>r w. ((fst r \<longrightarrow> linked (snd r)) \<and> closable (snd r)) \<and> grown w0 w)"
proof -
  have S: "ssS sess = S" "ssU sess = usr"
    using assms by (simp_all add: closable_def)
  have "linked (sess\<lparr>ssA := Some a, ssB := Some b\<rparr>)"
    if "mail_endpoint a invA mailA curA \<and> (roA \<longrightarrow> epReadOnly a)" "mail_endpoint b invB mailB curB \<and> (roB \<longrightarrow> epReadOnly b)" for a b
    using that S by (simp add: linked_def)
  then show ?thesis
    unfolding connect_def Let_def S
    by (intro hoare_bind [OF dials(1)] hoare_bind [OF dials(2)] hoare_bind [OF keeps_rest(5)] hoare_fact hoare_sum
        hoare_bind [OF keeps_reads_A(5)] hoare_ret)
      (simp_all add: assms linked_closable)
qed

lemma reconnect_spec:
  "closable sess \<Longrightarrow> hoare (grown w0) (reconnect sess) (\<lambda>r w. ((fst r \<longrightarrow> linked (snd r)) \<and> closable (snd r)) \<and> grown w0 w)"
  unfolding reconnect_def by (intro hoare_bind [OF close_spec] hoare_fact connect_spec)

lemma sync_pairs_spec:
  "linked sess \<Longrightarrow> hoare (grown w0) (sync_pairs sess fps) (\<lambda>sess' w. closable sess' \<and> grown w0 w)"
proof (induction fps arbitrary: sess)
  case Nil
  then show ?case by (simp add: hoare_ret linked_closable)
next
  case (Cons fp fps)
  show ?case
    unfolding sync_pairs.simps
    by (intro hoare_bind [OF keeps_rest(4)] hoare_bind [OF keeps_rest(5)] hoare_cases hoare_bind [OF keeps_syncPair]
        hoare_bind [OF reconnect_spec] hoare_fact hoare_ret Cons.IH)
      (auto simp: linked_closable Cons.prems)
qed

lemma keeps_sync_session:
  assumes "ssS sess0 = S" "ssU sess0 = usr" "ssA sess0 = None" "ssB sess0 = None"
  shows "keeps (grown w0) (sync_session sess0)"
proof -
  have "closable sess0"
    using assms by (simp add: closable_def)
  then show ?thesis
    unfolding sync_session_def
    by (intro hoare_bind [OF connect_spec] hoare_fact hoare_if hoare_prod keeps_ret hoare_bind [OF keeps_resolveFolders]
        hoare_bind [where R = "\<lambda>sess' w. closable sess' \<and> grown w0 w", OF hoare_sum] hoare_bind [OF keeps_rest(5)]
        hoare_bind [OF close_spec] sync_pairs_spec hoare_ret)
      (auto simp: linked_closable)
qed

lemma keeps_SyncUser: "keeps (grown w0) (SyncUser S ctx usr)"
  unfolding SyncUser_def by (intro keeps_intros keeps_rest keeps_sync_session) simp_all

theorem SyncUser_grown:
  assumes "invA (wA w)" "invB (wB w)" "run_state (SyncUser S ctx usr) w = (x, w')"
  shows "grown w w'"
  using hoareD [OF keeps_SyncUser _ assms(3), of w] assms(1,2) by (simp add: grown_def)

end

section \<open>Two Maildirs\<close>

definition md_syncer :: "mdenv \<Rightarrow> mdenv \<Rightarrow> env \<Rightarrow> Config \<Rightarrow> bool \<Rightarrow> maildir Syncer" where
  "md_syncer EA EB env cfg st = \<lparr>yCfg = cfg, yState = st, yBackendA = newMaildirBackend EA (cServerA cfg),
     yBackendB = newMaildirBackend EB (cServerB cfg), yDirAToB = (cDirection cfg \<noteq> DirectionBToA),
     yDirBToA = (cDirection cfg \<noteq> DirectionAToB), yEnv = env\<rparr>"

lemma md_syncer_sel [simp]:
  "yCfg (md_syncer EA EB env cfg st) = cfg" "yState (md_syncer EA EB env cfg st) = st" "yEnv (md_syncer EA EB env cfg st) = env"
  "yBackendA (md_syncer EA EB env cfg st) = newMaildirBackend EA (cServerA cfg)"
  "yBackendB (md_syncer EA EB env cfg st) = newMaildirBackend EB (cServerB cfg)"
  "yDirAToB (md_syncer EA EB env cfg st) = (cDirection cfg \<noteq> DirectionBToA)"
  "yDirBToA (md_syncer EA EB env cfg st) = (cDirection cfg \<noteq> DirectionAToB)"
  by (simp_all add: md_syncer_def)

lemma mdConnect_endpoint:
  assumes "md_inv E s" "bConnect (newMaildirBackend E srv) u s = (r, s')"
  shows "md_inv E s' \<and> md_mail s' = md_mail s \<and> (\<forall>ep. r = Inr ep \<longrightarrow> ep = maildirEndpoint E)"
proof -
  obtain r1 s1 where st: "os_Stat E (expandUser (sRoot srv) u, []) s = (r1, s1)"
    by (cases "os_Stat E (expandUser (sRoot srv) u, []) s")
  note q = quiet_sel [OF quiet_osE(1) [OF st]]
  define root where "root = expandUser (sRoot srv) u"
  have same: "md_inv E (s1\<lparr>mdRoot := root, mdUser := u, mdFolder := None, mdFiles := []\<rparr>) = md_inv E s1"
    "md_mail (s1\<lparr>mdRoot := root, mdUser := u, mdFolder := None, mdFiles := []\<rparr>) = md_mail s1"
    by (auto simp: md_inv_def md_mail_def fun_eq_iff split: option.split)
  have "s' = s1 \<or> s' = s1\<lparr>mdRoot := root, mdUser := u, mdFolder := None, mdFiles := []\<rparr>" "\<forall>ep. r = Inr ep \<longrightarrow> ep = maildirEndpoint E"
    using assms(2) st by (auto simp: newMaildirBackend_def mdConnect_def Let_def root_def split: sum.splits if_splits)
  then show ?thesis
    using assms(1) q(6,7) same by auto
qed

interpretation mds: sync_sides "md_syncer EA EB env cfg st" usr "md_inv EA" md_mail mdFolder False "md_inv EB" md_mail mdFolder False
  for EA EB env cfg st usr
proof (unfold_locales, goal_cases)
  case (1 s r s')
  then show ?case using mdConnect_endpoint [of EA s "cServerA cfg" _ r s'] md.mail_endpoint_axioms by (simp; blast)
next
  case (2 s r s')
  then show ?case using mdConnect_endpoint [of EB s "cServerB cfg" _ r s'] md.mail_endpoint_axioms by (simp; blast)
qed

text \<open>C2: synchronizing a user never loses mail: between two Maildir accounts, whatever system call or database
  statement fails and whenever the context is cancelled, every message of either side is still there with
  its bytes unchanged afterwards, and a side that the configured direction does not write to has
  exactly the messages it had.\<close>
theorem SyncUser_append_only:
  assumes "md_inv EA (wA w)" and "md_inv EB (wB w)"
    and "run_state (SyncUser (md_syncer EA EB env cfg st) ctx u) w = (x, w')"
  shows "md_mail (wA w) \<subseteq>\<^sub>m md_mail (wA w') \<and> md_mail (wB w) \<subseteq>\<^sub>m md_mail (wB w')
    \<and> (cDirection cfg = DirectionAToB \<longrightarrow> md_mail (wA w') = md_mail (wA w))
    \<and> (cDirection cfg = DirectionBToA \<longrightarrow> md_mail (wB w') = md_mail (wB w))
    \<and> md_inv EA (wA w') \<and> md_inv EB (wB w')"
  using mds.SyncUser_grown [OF assms] unfolding mds.grown_def by simp

definition wld_ex :: "maildir \<Rightarrow> maildir \<Rightarrow> maildir world" where
  "wld_ex a b = \<lparr>wA = a, wB = b, wDB = \<lparr>sdTables = empty_db, sdTick = 0\<rparr>, wCol = NewCollector, wErrs = [], wTick = 0\<rparr>"

definition senv_ex :: env where
  "senv_ex = \<lparr>evLib = lib_ex, evNow = (\<lambda>_. 5), evFaults = (\<lambda>_. None), evOrder = id\<rparr>"

definition ctx_ex :: gctx where "ctx_ex = \<lparr>cxErr = (\<lambda>_. None), cxWait = (\<lambda>_ _. None)\<rparr>"

theorem SyncUser_append_only_witness:
  "\<exists>w'. run_state (SyncUser (md_syncer env_ex env_ex senv_ex cfg_ex True) ctx_ex (usr_ex ''u'')) (wld_ex (mdir_ex mbox_ex) (mdir_ex dirs_ex)) = ((), w')
     \<and> md_mail (mdir_ex mbox_ex) \<subseteq>\<^sub>m md_mail (wA w')"
proof -
  obtain w' where r: "run_state (SyncUser (md_syncer env_ex env_ex senv_ex cfg_ex True) ctx_ex (usr_ex ''u''))
      (wld_ex (mdir_ex mbox_ex) (mdir_ex dirs_ex)) = ((), w')"
    by (metis old.unit.exhaust surj_pair)
  show ?thesis
    using SyncUser_append_only [OF _ _ r] mbox_ex_inv mdir_ex_inv r by (auto simp: wld_ex_def)
qed

end
