(* ===== verification/SyncComplete.thy ===== *)
theory SyncComplete
  imports SyncSafety
begin

text \<open>
  Completeness of the synchronizer, in full mode: after a pass over a folder pair that recorded no error,
  every message of one side has a counterpart on the other (same match key), and without duplicates inside a
  folder a second pass finds nothing to copy. The locale \<open>exact_session\<close> is a session whose two endpoints
  meet the contract \<open>exact_endpoint\<close>; everything in it is stated for a side name, so that each lemma
  covers both directions.
\<close>

section \<open>Recorded errors\<close>

definition logged :: "goerr list \<Rightarrow> 'e world \<Rightarrow> bool" where
  "logged es w = prefix es (wErrs w)"

lemma keeps_logged [keeps_intros]:
  "keeps (logged es) (on_A f)" "keeps (logged es) (on_B f)" "keeps (logged es) (on_side side f)" "keeps (logged es) (on_db m)"
  "keeps (logged es) (on_stats g)" "keeps (logged es) (get_stats h)" "keeps (logged es) (ask a)" "keeps (logged es) (recordErr us e)"
  by (auto intro!: hoareI simp: logged_def on_side_def on_A_def on_B_def on_db_def on_stats_def get_stats_def ask_def recordErr_def
      split: prod.splits if_splits)

lemma keeps_logged_rec [keeps_intros]:
  "keeps (logged es) (recordErrs us errs)" "keeps (logged es) (record_failure us p r)"
  "keeps (logged es) (parse_fresh sess p ms fresh cached)"
  "keeps (logged es) (copy_loop sess src dst dir sF dF i ents n cache)"
proof -
  show "keeps (logged es) (recordErrs us errs)"
    by (induction errs) (auto intro!: keeps_intros)
  show "keeps (logged es) (record_failure us p r)"
    unfolding record_failure_def by (intro keeps_intros)
  show "keeps (logged es) (parse_fresh sess p ms fresh cached)"
    by (induction ms arbitrary: fresh cached) (auto intro!: keeps_intros split: sum.splits)
  show "keeps (logged es) (copy_loop sess src dst dir sF dF i ents n cache)"
    by (induction ents arbitrary: i n cache) (auto intro!: keeps_intros simp: copyOne_def)
qed

lemma keeps_logged_ops [keeps_intros]:
  "keeps (logged es) (indexFolder sess side fp folder validity)" "keeps (logged es) (copy_deltas sess fp fA fB iA iB)"
  unfolding indexFolder_def indexFolderFull_def indexFolderIncremental_def finish_incremental_def
    copy_deltas_def copyMissing_def put_back_def
  by (intro keeps_intros)+

lemma logged_mono: "keeps (logged (wErrs w)) m \<Longrightarrow> run_state m w = (x, w') \<Longrightarrow> prefix (wErrs w) (wErrs w')"
  by (drule (1) hoareD [rotated 2]) (auto simp: logged_def)

lemma recordErrs_run: "run_state (recordErrs us es) w = (x, w') \<Longrightarrow> wErrs w' = wErrs w @ es \<and> wA w' = wA w \<and> wB w' = wB w"
  by (induction es arbitrary: w) (auto simp: recordErr_def split: prod.splits)

section \<open>The sides of a world\<close>

definition sd :: "string \<Rightarrow> 'e world \<Rightarrow> 'e" where
  "sd side w = (if side = ''b'' then wB w else wA w)"

definition sides :: "string set" where "sides = {''a'', ''b''}"

lemma sides_ab: "''a'' \<in> sides" "''b'' \<in> sides"
  by (simp_all add: sides_def)

lemma run_on_side:
  assumes "run_state (on_side side f) w = (x, w')" "side \<in> sides"
  shows "f (sd side w) = (x, sd side w')" "o' \<in> sides \<Longrightarrow> o' \<noteq> side \<Longrightarrow> sd o' w' = sd o' w" "wErrs w' = wErrs w"
  using assms by (auto simp: on_side_def on_A_def on_B_def sd_def sides_def split: prod.splits if_splits)

lemma run_ask: "run_state (ask f) w = (x, w') \<Longrightarrow> sd side w' = sd side w \<and> wErrs w' = wErrs w"
  by (auto simp: ask_def sd_def)

section \<open>Reading a folder\<close>

text \<open>The inputs that \<^verbatim>\<open>Build\<close> makes when every message parses.\<close>

lemma parse_all_ok:
  assumes "parse_all g hh ms = (ins, [])"
  shows "map inID ins = map mID ms
    \<and> (\<forall>i\<in>set ins. \<exists>m\<in>set ms. \<exists>f. inID i = mID m \<and> ParseFields g (mHeader m) hh = Inr f
         \<and> inKeys i = MatchKeys g f \<and> inSurrogate i = SurrogateHash g f)"
  using assms
proof (induction ms arbitrary: ins)
  case (Cons m ms)
  then obtain i ins' where p: "parse_all g hh ms = (ins', [])" "ParseMessage g m hh = Inr i" "ins = i # ins'"
    by (auto simp: Let_def split: prod.splits sum.splits)
  then obtain f where "ParseFields g (mHeader m) hh = Inr f" "inID i = mID m" "inKeys i = MatchKeys g f" "inSurrogate i = SurrogateHash g f"
    by (auto simp: ParseMessage_def MatchKeys_def Let_def split: sum.splits)
  then show ?case
    using Cons.IH [OF p(1)] p(3) by auto
qed simp

lemma BuildFrom_covers:
  assumes "i \<in> set ins" "inKeys i \<noteq> []"
  shows "\<exists>e\<in>set (ixEntries (BuildFrom ins)). set (inKeys i) \<inter> ekeys e \<noteq> {}"
proof -
  have grow: "set (ixEntries idx) \<subseteq> set (ixEntries (foldl idx_step idx js))" for idx js
  proof (induction js arbitrary: idx)
    case (Cons j js)
    have "set (ixEntries idx) \<subseteq> set (ixEntries (idx_step idx j))"
      by (auto simp: idx_step_def Let_def)
    then show ?case using Cons [of "idx_step idx j"] by auto
  qed simp
  obtain xs ys where ins: "ins = xs @ i # ys"
    using assms(1) by (auto simp: in_set_conv_decomp)
  let ?idx = "BuildFrom xs"
  have "\<exists>e\<in>set (ixEntries (idx_step ?idx i)). set (inKeys i) \<inter> ekeys e \<noteq> {}"
    using assms(2) has_keys_of [OF BuildFrom_inv, of xs "inKeys i"]
    by (auto simp: idx_step_def Let_def keys_of_def neq_Nil_conv)
  then show ?thesis
    using grow [of "idx_step ?idx i" ys] by (auto simp: ins BuildFrom_append)
qed

lemma entry_of_sel [simp]: "enID (entry_of i) = inID i" "enSurrogate (entry_of i) = inSurrogate i"
  by (simp_all add: entry_of_def)

lemma indexed_entry: "e \<in> set (ixEntries (BuildFrom ins)) \<Longrightarrow> \<exists>i\<in>set ins. e = entry_of i"
  using BuildFrom_entries_subset [of ins] by auto

lemma ParseFields_inject:
  assumes "tag_name hh" "ParseFields lib raw hh = Inr f"
  shows "ParseFields lib (InjectHashHeader (g_ut lib) raw hh (SurrogateHash lib f)) hh
     = Inr (if HasHeader (g_ut lib) raw hh then f else f\<lparr>fHashHdr := SurrogateHash lib f\<rparr>)"
  using ParseFields_tag [OF assms(1) surrogate_plain assms(2)] assms(2) by (simp add: InjectHashHeader_def)

lemma Missing_entry: "e \<in> set (Missing (BuildFrom ins) idx) \<Longrightarrow> \<exists>i\<in>set ins. e = entry_of i"
  using BuildFrom_entries_subset [of ins] by (auto simp: Missing_def)

text \<open>The stages of a pass that reports no folder-level error.\<close>

lemma bind_okE:
  assumes "run_state (State_Monad.bind m f) w = (x, w')"
  obtains y v where "run_state m w = (y, v)" "run_state (f y) v = (x, w')"
  using assms by (cases "run_state m w") simp

lemma syncPair_ok:
  assumes "run_state (syncPair sess fp) w = (None, w')"
  obtains x v1 y v2 idxA v3 idxB v4 where
    "run_state (on_A (epSelect (the (ssA sess)) (fpA fp))) w = (Inr x, v1)"
    "run_state (on_B (epSelect (the (ssB sess)) (fpB fp))) v1 = (Inr y, v2)"
    "run_state (indexFolder sess ''a'' fp (fst x) (snd x)) v2 = (Inr idxA, v3)"
    "run_state (indexFolder sess ''b'' fp (fst y) (snd y)) v3 = (Inr idxB, v4)"
    "run_state (copy_deltas sess fp (fst x) (fst y) idxA idxB) v4 = ((), w')"
  using assms unfolding syncPair_def Let_def
  by (elim bind_okE) (auto split: sum.splits prod.splits elim!: bind_okE)

section \<open>A session with exact endpoints\<close>

locale exact_session =
  fixes sess :: "'e session"
    and inv :: "string \<Rightarrow> 'e \<Rightarrow> bool" and mail :: "string \<Rightarrow> 'e \<Rightarrow> 'f \<times> string \<Rightarrow> string option"
    and cur :: "string \<Rightarrow> 'e \<Rightarrow> 'f option" and ready :: "string \<Rightarrow> 'e \<Rightarrow> bool"
  assumes exact: "side \<in> sides \<Longrightarrow> exact_endpoint (endpoint sess side) (inv side) (mail side) (cur side) (ready side)"
begin

abbreviation lib :: golib where "lib \<equiv> evLib (yEnv (ssS sess))"
abbreviation hh :: string where "hh \<equiv> cHashHeader (yCfg (ssS sess))"

definition good :: "'e world \<Rightarrow> bool" where
  "good w = (\<forall>side\<in>sides. inv side (sd side w) \<and> ready side (sd side w))"

definition folder :: "string \<Rightarrow> 'e world \<Rightarrow> 'f" where "folder side w = the (cur side (sd side w))"

definition msg :: "string \<Rightarrow> 'e world \<Rightarrow> string \<Rightarrow> string option" where
  "msg side w i = mail side (sd side w) (folder side w, i)"

text \<open>A step that changes no message and no selected folder of a side.\<close>

definition same :: "string \<Rightarrow> 'e world \<Rightarrow> 'e world \<Rightarrow> bool" where
  "same side w w' = (mail side (sd side w') = mail side (sd side w) \<and> cur side (sd side w') = cur side (sd side w))"

lemma same_msg: "same side w w' \<Longrightarrow> msg side w' = msg side w \<and> folder side w' = folder side w"
  by (simp add: same_def msg_def folder_def fun_eq_iff)

lemma same_trans: "same side w w1 \<Longrightarrow> same side w1 w2 \<Longrightarrow> same side w w2"
  by (simp add: same_def)

lemma same_sd: "sd side w' = sd side w \<Longrightarrow> same side w w'"
  by (simp add: same_def)

lemma good_sd: "good w \<Longrightarrow> (\<And>side. side \<in> sides \<Longrightarrow> sd side w' = sd side w) \<Longrightarrow> good w'"
  by (simp add: good_def)

lemma law: "side \<in> sides \<Longrightarrow> mail_endpoint (endpoint sess side) (inv side) (mail side) (cur side)"
  by (rule exact_endpoint.axioms(1)) (rule exact)

lemma goodD: "good w \<Longrightarrow> side \<in> sides \<Longrightarrow> inv side (sd side w)" "good w \<Longrightarrow> side \<in> sides \<Longrightarrow> ready side (sd side w)"
  by (simp_all add: good_def)

text \<open>A call on one side that keeps its messages and its readiness.\<close>

lemma quiet_call:
  assumes run: "run_state (on_side side f) w = (x, w')" and side: "side \<in> sides" "s \<in> sides" and good: "good w"
    and step: "\<And>st'. f (sd side w) = (x, st') \<Longrightarrow> inv side st' \<and> mail side st' = mail side (sd side w)
      \<and> cur side st' = cur side (sd side w) \<and> ready side st'"
  shows "good w' \<and> same s w w' \<and> wErrs w' = wErrs w"
proof -
  note r = run_on_side [OF run side(1)]
  have "same side w w'" "inv side (sd side w') \<and> ready side (sd side w')"
    using step [OF r(1)] by (simp_all add: same_def)
  moreover have "same o' w w' \<and> inv o' (sd o' w') \<and> ready o' (sd o' w')" if "o' \<in> sides" "o' \<noteq> side" for o'
    using r(2) [OF that] good that by (simp add: same_def good_def)
  ultimately show ?thesis
    using r(3) side(2) unfolding good_def by metis
qed

lemma fetch_call:
  assumes "run_state (on_side side (epFetchMeta (endpoint sess side) ids)) w = (r, w')" "side \<in> sides" "s \<in> sides" "good w"
  shows "good w' \<and> same s w w' \<and> wErrs w' = wErrs w"
proof (rule quiet_call [OF assms])
  fix st' assume "epFetchMeta (endpoint sess side) ids (sd side w) = (r, st')"
  from exact_endpoint.fetch_ready [OF exact [OF assms(2)] goodD [OF assms(4,2)] this]
    mail_endpoint.fetch_mail [OF law [OF assms(2)] goodD(1) [OF assms(4,2)] this]
  show "inv side st' \<and> mail side st' = mail side (sd side w) \<and> cur side st' = cur side (sd side w) \<and> ready side st'"
    by blast
qed

lemma open_call:
  assumes "run_state (on_side side (epOpen (endpoint sess side) i)) w = (r, w')" "side \<in> sides" "s \<in> sides" "good w"
  shows "good w' \<and> same s w w' \<and> wErrs w' = wErrs w"
proof (rule quiet_call [OF assms])
  fix st' assume "epOpen (endpoint sess side) i (sd side w) = (r, st')"
  from exact_endpoint.open_ready [OF exact [OF assms(2)] goodD [OF assms(4,2)] this]
    mail_endpoint.open_mail [OF law [OF assms(2)] goodD(1) [OF assms(4,2)] this]
  show "inv side st' \<and> mail side st' = mail side (sd side w) \<and> cur side st' = cur side (sd side w) \<and> ready side st'"
    by blast
qed

section \<open>The index of a folder\<close>

definition keys :: "string \<Rightarrow> 'e world \<Rightarrow> string \<Rightarrow> string set" where
  "keys side w i = (case msg side w i of None \<Rightarrow> {} | Some data \<Rightarrow>
     (case ParseFields lib data hh of Inl _ \<Rightarrow> {} | Inr f \<Rightarrow> set (MatchKeys lib f)))"

text \<open>The inputs of an index that shows exactly the messages of the selected folder, all of which parse.\<close>

definition listed :: "string \<Rightarrow> 'e world \<Rightarrow> Input list \<Rightarrow> bool" where
  "listed side w ins = (distinct (map inID ins) \<and> set (map inID ins) = {i. msg side w i \<noteq> None}
     \<and> (\<forall>i\<in>set ins. \<exists>f. ParseFields lib (the (msg side w (inID i))) hh = Inr f
          \<and> inKeys i = MatchKeys lib f \<and> inSurrogate i = SurrogateHash lib f))"

text \<open>The weaker form that cached rows give: the key of the surrogate is there, and every key is one of the message.\<close>

definition covered :: "string \<Rightarrow> 'e world \<Rightarrow> Input list \<Rightarrow> bool" where
  "covered side w ins = (set (map inID ins) = {i. msg side w i \<noteq> None}
     \<and> (\<forall>i\<in>set ins. \<exists>f. ParseFields lib (the (msg side w (inID i))) hh = Inr f
          \<and> ''hash:'' @ inSurrogate i \<in> set (inKeys i) \<and> set (inKeys i) \<subseteq> set (MatchKeys lib f) \<and> inSurrogate i = SurrogateHash lib f))"

lemma covered_ids: "covered side w ins \<Longrightarrow> set (map inID ins) = {i. msg side w i \<noteq> None}"
  unfolding covered_def by (rule conjunct1)

lemma coveredD:
  assumes "covered side w ins" "i \<in> set ins"
  obtains f where "ParseFields lib (the (msg side w (inID i))) hh = Inr f" "''hash:'' @ inSurrogate i \<in> set (inKeys i)"
    "set (inKeys i) \<subseteq> set (MatchKeys lib f)" "inSurrogate i = SurrogateHash lib f"
  using assms unfolding covered_def by blast

lemma hash_key: "''hash:'' @ SurrogateHash g f \<in> set (MatchKeys g f)"
  unfolding MatchKeys_def by (rule surrogate_key_in)

lemma listed_covered:
  assumes "listed side w ins"
  shows "covered side w ins"
  unfolding covered_def
proof (intro conjI ballI)
  show "set (map inID ins) = {i. msg side w i \<noteq> None}"
    using assms by (simp add: listed_def)
  fix i assume "i \<in> set ins"
  then obtain f where f: "ParseFields lib (the (msg side w (inID i))) hh = Inr f" "inKeys i = MatchKeys lib f" "inSurrogate i = SurrogateHash lib f"
    using assms by (auto simp: listed_def)
  show "\<exists>f. ParseFields lib (the (msg side w (inID i))) hh = Inr f \<and> ''hash:'' @ inSurrogate i \<in> set (inKeys i)
     \<and> set (inKeys i) \<subseteq> set (MatchKeys lib f) \<and> inSurrogate i = SurrogateHash lib f"
    unfolding f(2,3) using f(1) hash_key by blast
qed

lemma covered_ex:
  assumes "covered side w ins" "msg side w i \<noteq> None"
  shows "\<exists>m\<in>set ins. inID m = i"
proof -
  have "i \<in> set (map inID ins)"
    using assms(2) unfolding covered_ids [OF assms(1)] by simp
  then show ?thesis by auto
qed

lemma covered_msg: "covered side w ins \<Longrightarrow> i \<in> set ins \<Longrightarrow> msg side w (inID i) \<noteq> None"
  using covered_ids [of side w ins] by auto

lemma covered_keys:
  assumes "covered side w ins" "i \<in> set ins"
  shows "set (inKeys i) \<subseteq> keys side w (inID i) \<and> inKeys i \<noteq> []"
proof -
  obtain f where f: "ParseFields lib (the (msg side w (inID i))) hh = Inr f" "''hash:'' @ inSurrogate i \<in> set (inKeys i)" "set (inKeys i) \<subseteq> set (MatchKeys lib f)"
    using coveredD [OF assms] by metis
  then have "keys side w (inID i) = set (MatchKeys lib f)"
    using covered_msg [OF assms] by (auto simp: keys_def)
  moreover have "inKeys i \<noteq> []"
    using f(2) by (metis empty_iff empty_set)
  ultimately show ?thesis
    using f(3) by simp
qed

lemma listed_keys: "listed side w ins \<Longrightarrow> i \<in> set ins \<Longrightarrow> keys side w (inID i) = set (inKeys i) \<and> inKeys i \<noteq> []"
  unfolding listed_def keys_def by (fastforce simp: MatchKeys_def split: option.splits)

lemma listed_ex: "listed side w ins \<Longrightarrow> msg side w i \<noteq> None \<Longrightarrow> \<exists>m\<in>set ins. inID m = i"
  unfolding listed_def by (metis (mono_tags, lifting) imageE list.set_map mem_Collect_eq)

lemma listed_same: "same side w w' \<Longrightarrow> listed side w' ins = listed side w ins \<and> covered side w' ins = covered side w ins \<and> keys side w' = keys side w"
  by (simp add: listed_def covered_def keys_def same_msg fun_eq_iff)

lemma index_full:
  assumes run: "run_state (indexFolderFull sess side fname) w = (Inr idx, w')" and side: "side \<in> sides" and good: "good w"
    and quiet: "wErrs w' = wErrs w"
  shows "good w' \<and> (\<forall>s\<in>sides. same s w w') \<and> (\<exists>ins. idx = BuildFrom ins \<and> listed side w ins)"
proof -
  obtain r w1 where f: "run_state (on_side side (epFetchMeta (endpoint sess side) None)) w = (r, w1)"
    by (cases "run_state (on_side side (epFetchMeta (endpoint sess side) None)) w")
  obtain ms where r: "r = Inr ms"
    using run f by (cases r) (auto simp: indexFolderFull_def)
  obtain ins errs where p: "parse_all lib hh ms = (ins, errs)"
    by (cases "parse_all lib hh ms")
  have "idx = BuildFrom ins" and rec: "run_state (recordErrs (ssUs sess) (map (\<lambda>e. wrapf (folder_msg sess side fname @ ''parse: '') e) errs)) w1 = ((), w')"
    using run f r p by (auto simp: indexFolderFull_def Build_def split: prod.splits)
  note c = fetch_call [OF f side _ good] and rr = recordErrs_run [OF rec]
  have "errs = []"
    using rr quiet c [of side] side by auto
  with p have po: "parse_all lib hh ms = (ins, [])" by simp
  have sd1: "sd s w' = sd s w1" for s
    using rr by (simp add: sd_def)
  have g': "good w'" "\<forall>s\<in>sides. same s w w'"
    using c [OF side] c same_trans [OF _ same_sd [OF sd1]] good_sd [OF _ sd1] by blast+
  have fe: "epFetchMeta (endpoint sess side) None (sd side w) = (Inr ms, sd side w1)"
    using run_on_side(1) [OF f side] r by simp
  have st: "inv side (sd side w)" "ready side (sd side w)"
    using goodD [OF good side] .
  have "listed side w ins"
    unfolding listed_def
  proof (intro conjI ballI)
    show "distinct (map inID ins)" "set (map inID ins) = {i. msg side w i \<noteq> None}"
      using exact_endpoint.fetch_all [OF exact [OF side] st fe] parse_all_ok [OF po] by (simp_all add: msg_def folder_def)
    fix i assume "i \<in> set ins"
    then obtain m f where m: "m \<in> set ms" "inID i = mID m" "ParseFields lib (mHeader m) hh = Inr f" "inKeys i = MatchKeys lib f"
      "inSurrogate i = SurrogateHash lib f"
      using parse_all_ok [OF po] by blast
    then show "\<exists>f. ParseFields lib (the (msg side w (inID i))) hh = Inr f \<and> inKeys i = MatchKeys lib f \<and> inSurrogate i = SurrogateHash lib f"
      using exact_endpoint.fetch_header [OF exact [OF side] st fe m(1), of lib hh]
      by (intro exI [of _ f]) (auto simp: msg_def folder_def)
  qed
  then show ?thesis
    using g' \<open>idx = BuildFrom ins\<close> by blast
qed

section \<open>Copying\<close>

text \<open>The bytes stored for an entry of the source side.\<close>

definition copy_of :: "string \<Rightarrow> 'e world \<Rightarrow> Entry \<Rightarrow> string" where
  "copy_of src w e = InjectHashHeader (g_ut lib) (the (msg src w (enID e))) hh (enSurrogate e)"

definition elsewhere :: "string \<Rightarrow> 'e world \<Rightarrow> 'e world \<Rightarrow> bool" where
  "elsewhere side w w' = (\<forall>f i. f \<noteq> folder side w \<longrightarrow> mail side (sd side w') (f, i) = mail side (sd side w) (f, i))"

lemma elsewhere_trans: "elsewhere side w w1 \<Longrightarrow> folder side w1 = folder side w \<Longrightarrow> elsewhere side w1 w2 \<Longrightarrow> elsewhere side w w2"
  by (simp add: elsewhere_def)

lemma elsewhere_same: "same side w w' \<Longrightarrow> elsewhere side w w'"
  by (simp add: elsewhere_def same_def)

lemma append_call:
  assumes run: "run_state (on_side dst (epAppend (endpoint sess dst) fl d lit)) w = (Inr i, w')" and dst: "dst \<in> sides" and good: "good w"
  shows "good w' \<and> (\<forall>s\<in>sides. s \<noteq> dst \<longrightarrow> same s w w') \<and> folder dst w' = folder dst w \<and> wErrs w' = wErrs w
    \<and> elsewhere dst w w' \<and> (\<exists>j. msg dst w j = None \<and> msg dst w' = (msg dst w)(j \<mapsto> lit_read lit) \<and> (i = j \<or> i = []))"
proof -
  note r = run_on_side [OF run dst] and g = goodD [OF good dst]
  obtain f j where f: "cur dst (sd dst w) = Some f" "mail dst (sd dst w) (f, j) = None"
    "mail dst (sd dst w') = (mail dst (sd dst w))((f, j) \<mapsto> lit_read lit)" "cur dst (sd dst w') = cur dst (sd dst w)" "inv dst (sd dst w')" "i = j \<or> i = []"
    using mail_endpoint.append_ok [OF law [OF dst] g(1) r(1)] by blast
  have "good w'"
    unfolding good_def
  proof
    fix s assume "s \<in> sides"
    then show "inv s (sd s w') \<and> ready s (sd s w')"
      using f(5) exact_endpoint.append_ready [OF exact [OF dst] g r(1)] r(2) [of s] goodD [OF good, of s] by (cases "s = dst") auto
  qed
  moreover have "\<forall>s\<in>sides. s \<noteq> dst \<longrightarrow> same s w w'"
    using r(2) by (auto simp: same_def)
  ultimately show ?thesis
    using r(3) f(1-4,6) by (auto simp: msg_def folder_def fun_eq_iff elsewhere_def)
qed

lemma copyOne_ok:
  assumes run: "run_state (copyOne sess src dst e) w = (Inr i, w')" and sd: "src \<in> sides" "dst \<in> sides" "src \<noteq> dst" and good: "good w"
  shows "good w' \<and> same src w w' \<and> folder dst w' = folder dst w \<and> wErrs w' = wErrs w
    \<and> elsewhere dst w w' \<and> (\<exists>j. msg dst w j = None \<and> msg dst w' = (msg dst w)(j \<mapsto> copy_of src w e) \<and> (i = j \<or> i = []))"
proof -
  obtain r w1 where o: "run_state (on_side src (epOpen (endpoint sess src) (enID e))) w = (r, w1)"
    by (cases "run_state (on_side src (epOpen (endpoint sess src) (enID e))) w")
  obtain body where r: "r = Inr body"
    using run o by (cases r) (auto simp: copyOne_def)
  have c: "good w1" "same src w w1" "same dst w w1" "wErrs w1 = wErrs w"
    using open_call [OF o sd(1) _ good] sd by blast+
  obtain data where data: "msg src w (enID e) = Some data" "body = Buffer data"
    using exact_endpoint.open_data [OF exact [OF sd(1)] goodD [OF good sd(1)] run_on_side(1) [OF o sd(1), unfolded r]]
    by (auto simp: msg_def folder_def)
  have ap: "run_state (on_side dst (epAppend (endpoint sess dst) (filterFlags (enFlags e)) (enInternalDate e)
         (WithHeader (g_ut lib) (Buffer data) hh (enSurrogate e)))) w1 = (Inr i, w')"
    using run o r data(2) by (simp add: copyOne_def)
  have "lit_read (WithHeader (g_ut lib) (Buffer data) hh (enSurrogate e)) = copy_of src w e"
    by (simp add: copy_of_def data(1) WithHeader_def InjectHashHeader_def)
  then show ?thesis
    using append_call [OF ap sd(2) c(1)] same_msg [OF c(3)] same_trans [OF c(2)] c(4) sd(1,3)
      elsewhere_trans [OF elsewhere_same [OF c(3)]] by auto
qed

lemma copyOne_errs: "run_state (copyOne sess src dst e) w = (r, w') \<Longrightarrow> src \<in> sides \<Longrightarrow> dst \<in> sides \<Longrightarrow> wErrs w' = wErrs w"
  by (auto simp: copyOne_def split: prod.splits sum.splits dest!: run_on_side(3))

text \<open>What a loop of copies without an error has done to the target: each entry is there once, under a new ID.\<close>

definition copied :: "string \<Rightarrow> string \<Rightarrow> Entry list \<Rightarrow> 'e world \<Rightarrow> 'e world \<Rightarrow> bool" where
  "copied src dst es w w' = (\<exists>js. length js = length es \<and> distinct js \<and> (\<forall>k<length es. msg dst w (js ! k) = None
     \<and> msg dst w' (js ! k) = Some (copy_of src w (es ! k))) \<and> (\<forall>j. j \<notin> set js \<longrightarrow> msg dst w' j = msg dst w j))"

lemma copied_Nil: "copied src dst [] w w' \<longleftrightarrow> msg dst w' = msg dst w"
  by (auto simp: copied_def fun_eq_iff)

lemma copied_old: "copied src dst es w w' \<Longrightarrow> msg dst w j \<noteq> None \<Longrightarrow> msg dst w' j = msg dst w j"
  unfolding copied_def by (metis in_set_conv_nth)

lemma copied_Cons:
  assumes j: "msg dst w j = None" "msg dst w1 = (msg dst w)(j \<mapsto> copy_of src w e)" and src: "msg src w1 = msg src w"
    and rest: "copied src dst es w1 w'"
  shows "copied src dst (e # es) w w'"
proof -
  obtain js where js: "length js = length es" "distinct js" "\<And>k. k < length es \<Longrightarrow> msg dst w1 (js ! k) = None
     \<and> msg dst w' (js ! k) = Some (copy_of src w1 (es ! k))" "\<And>j. j \<notin> set js \<Longrightarrow> msg dst w' j = msg dst w1 j"
    using rest by (auto simp: copied_def)
  have new: "x \<noteq> j \<and> msg dst w x = None" if "x \<in> set js" for x
  proof -
    have "msg dst w1 x = None"
      using that js(1,3) by (auto simp: in_set_conv_nth)
    then show ?thesis
      using j(2) by (simp split: if_splits)
  qed
  have "copy_of src w1 = copy_of src w"
    using src by (simp add: copy_of_def fun_eq_iff)
  then have "\<forall>k<length (e # es). msg dst w ((j # js) ! k) = None \<and> msg dst w' ((j # js) ! k) = Some (copy_of src w ((e # es) ! k))"
    using j new js(1,3) js(4) [of j] by (auto simp: nth_Cons split: nat.splits)
  moreover have "\<forall>x. x \<notin> set (j # js) \<longrightarrow> msg dst w' x = msg dst w x"
    using js(4) j(2) by auto
  ultimately show ?thesis
    unfolding copied_def using js(1,2) new by (intro exI [of _ "j # js"]) auto
qed

text \<open>A step of the loop that records no error copies its entry.\<close>

lemma copy_loop_Cons:
  assumes run: "run_state (copy_loop sess src dst dir sF dF i (e # es) n cache) w = (r, w')" and quiet: "wErrs w' = wErrs w"
    and sd: "src \<in> sides" "dst \<in> sides"
  obtains w1 j w2 where "\<forall>s. sd s w1 = sd s w" "run_state (copyOne sess src dst e) w1 = (Inr j, w2)" "wErrs w2 = wErrs w"
    "run_state (copy_loop sess src dst dir sF dF (Suc i) es (Suc n)
      (if incremental (ssS sess) \<and> j \<noteq> [] then cache @ [copied_msg j e] else cache)) w2 = (r, w')"
proof -
  obtain stop w1 where st: "run_state (if i mod 64 = 0 then ctx_err (ssCtx sess) else ret None) w = (stop, w1)"
    by (cases "run_state (if i mod 64 = 0 then ctx_err (ssCtx sess) else ret None) w")
  have w1: "sd s w1 = sd s w" "wErrs w1 = wErrs w" for s
    using st by (auto dest: run_ask split: if_splits)
  have stop: "stop = None"
    using run quiet st w1 by (cases stop) (auto simp: recordErr_def)
  obtain r2 w2 where c: "run_state (copyOne sess src dst e) w1 = (r2, w2)"
    by (cases "run_state (copyOne sess src dst e) w1")
  have e2: "wErrs w2 = wErrs w"
    using copyOne_errs [OF c sd] w1 by simp
  have "\<exists>j. r2 = Inr j"
  proof (rule ccontr)
    assume "\<nexists>j. r2 = Inr j"
    then obtain err w3 where "run_state (copy_loop sess src dst dir sF dF (Suc i) es n cache) w3 = (r, w')" "wErrs w3 = wErrs w @ [err]"
      using run st stop c e2 by (cases r2) (auto simp: recordErr_def)
    then show False
      using logged_mono [OF keeps_logged_rec(4)] quiet by (fastforce dest: prefix_length_le)
  qed
  then show thesis
    using that [of w1] w1(1) run st stop c e2 by auto
qed

lemma copy_loop_ok:
  assumes "run_state (copy_loop sess src dst dir sF dF i es n cache) w = (r, w')" "wErrs w' = wErrs w"
    and sd: "src \<in> sides" "dst \<in> sides" "src \<noteq> dst" and "good w"
  shows "good w' \<and> same src w w' \<and> folder dst w' = folder dst w \<and> elsewhere dst w w' \<and> copied src dst es w w'
    \<and> (\<forall>cm\<in>set (snd r). cm \<in> set cache \<or> (\<exists>e\<in>set es. \<exists>j. cm = copied_msg j e \<and> msg dst w' j = Some (copy_of src w e)))"
  using assms(1,2,6)
proof (induction es arbitrary: i n cache w)
  case Nil
  then show ?case by (auto simp: copied_Nil same_def elsewhere_def)
next
  case (Cons e es)
  obtain w1 j w2 where w1: "\<forall>s. sd s w1 = sd s w" and c: "run_state (copyOne sess src dst e) w1 = (Inr j, w2)" and e2: "wErrs w2 = wErrs w"
    and rest: "run_state (copy_loop sess src dst dir sF dF (Suc i) es (Suc n)
      (if incremental (ssS sess) \<and> j \<noteq> [] then cache @ [copied_msg j e] else cache)) w2 = (r, w')"
    by (rule copy_loop_Cons [OF Cons.prems(1,2) sd(1,2)])
  have g1: "good w1"
    using good_sd [OF Cons.prems(3)] w1 by blast
  have s1: "msg s w1 = msg s w" "folder s w1 = folder s w" "copy_of src w1 e = copy_of src w e" "same s w w1" for s
    using same_msg [OF same_sd [OF w1 [THEN spec]]] same_sd [OF w1 [THEN spec]] by (auto simp: copy_of_def)
  note k = copyOne_ok [OF c sd g1, unfolded s1]
  note ih = Cons.IH [OF rest]
  have ih': "good w' \<and> same src w2 w' \<and> folder dst w' = folder dst w2 \<and> elsewhere dst w2 w' \<and> copied src dst es w2 w'"
    and cache: "\<forall>cm\<in>set (snd r). cm \<in> set (if incremental (ssS sess) \<and> j \<noteq> [] then cache @ [copied_msg j e] else cache)
      \<or> (\<exists>e\<in>set es. \<exists>j. cm = copied_msg j e \<and> msg dst w' j = Some (copy_of src w2 e))"
    using ih e2 Cons.prems(2) k by simp_all
  have src2: "copy_of src w2 = copy_of src w"
    using k same_msg [of src w1 w2] s1 by (simp add: copy_of_def fun_eq_iff)
  have "msg dst w' j = Some (copy_of src w e)" if "j \<noteq> []"
    using k that copied_old [of src dst es w2 w' j] ih' by auto
  then have "\<forall>cm\<in>set (snd r). cm \<in> set cache \<or> (\<exists>e'\<in>set (e # es). \<exists>j. cm = copied_msg j e' \<and> msg dst w' j = Some (copy_of src w e'))"
    using cache unfolding src2 by (fastforce split: if_splits)
  moreover have "copied src dst (e # es) w w'"
    using ih' k same_msg [of src w1 w2] s1 by (auto intro: copied_Cons)
  moreover have "elsewhere dst w w'"
    using k ih' s1 elsewhere_same [OF s1(4)] elsewhere_trans by metis
  ultimately show ?case
    using k ih' s1(4) [of src] same_trans by metis
qed

text \<open>When the endpoints name the messages they store, every copy has a row.\<close>

definition named :: bool where
  "named = (incremental (ssS sess) \<and> (\<forall>side\<in>sides. \<forall>fl d lit s i s'. inv side s \<longrightarrow> epAppend (endpoint sess side) fl d lit s = (Inr i, s') \<longrightarrow> i \<noteq> []))"

definition all_rows :: "string \<Rightarrow> 'e world \<Rightarrow> 'e world \<Rightarrow> CachedMsg list \<Rightarrow> bool" where
  "all_rows dst w w' cache = (named \<longrightarrow> (\<forall>j. msg dst w j = None \<longrightarrow> msg dst w' j \<noteq> None \<longrightarrow> j \<in> cmID ` set cache))"

lemma copyOne_named:
  assumes named and run: "run_state (copyOne sess src dst e) w = (Inr i, w')" and sd: "src \<in> sides" "dst \<in> sides" and good: "good w"
  shows "i \<noteq> []"
proof -
  obtain r w1 where o: "run_state (on_side src (epOpen (endpoint sess src) (enID e))) w = (r, w1)"
    by (cases "run_state (on_side src (epOpen (endpoint sess src) (enID e))) w")
  obtain body where r: "r = Inr body"
    using run o by (cases r) (auto simp: copyOne_def)
  have "good w1"
    using open_call [OF o sd(1) _ good] sd by blast
  then have "inv dst (sd dst w1)"
    by (rule goodD(1) [OF _ sd(2)])
  moreover have "epAppend (endpoint sess dst) (filterFlags (enFlags e)) (enInternalDate e) (WithHeader (g_ut lib) body hh (enSurrogate e)) (sd dst w1)
      = (Inr i, sd dst w')"
    using run o r by (intro run_on_side(1) [OF _ sd(2)]) (simp add: copyOne_def)
  ultimately show ?thesis
    using assms(1) sd(2) unfolding named_def by blast
qed

lemma copy_loop_rows:
  assumes "run_state (copy_loop sess src dst dir sF dF i es n cache) w = (r, w')" "wErrs w' = wErrs w"
    and sd: "src \<in> sides" "dst \<in> sides" "src \<noteq> dst" and "good w" and nm: named
  shows "set cache \<subseteq> set (snd r) \<and> (\<forall>j. msg dst w j = None \<longrightarrow> msg dst w' j \<noteq> None \<longrightarrow> j \<in> cmID ` set (snd r))"
  using assms(1,2,6)
proof (induction es arbitrary: i n cache w)
  case (Cons e es)
  obtain w1 j w2 where w1: "\<forall>s. sd s w1 = sd s w" and c: "run_state (copyOne sess src dst e) w1 = (Inr j, w2)" and e2: "wErrs w2 = wErrs w"
    and rest: "run_state (copy_loop sess src dst dir sF dF (Suc i) es (Suc n)
      (if incremental (ssS sess) \<and> j \<noteq> [] then cache @ [copied_msg j e] else cache)) w2 = (r, w')"
    by (rule copy_loop_Cons [OF Cons.prems(1,2) sd(1,2)])
  have g1: "good w1"
    using good_sd [OF Cons.prems(3)] w1 by blast
  have j: "j \<noteq> []" "incremental (ssS sess)"
    using copyOne_named [OF nm c sd(1,2) g1] nm by (auto simp: named_def)
  note k = copyOne_ok [OF c sd g1]
  have "msg dst w1 = msg dst w"
    using same_msg [OF same_sd [OF w1 [THEN spec]]] by blast
  then have m2: "\<exists>d. msg dst w2 = (msg dst w)(j \<mapsto> d)" "good w2"
    using k j(1) by auto
  have ih: "set (cache @ [copied_msg j e]) \<subseteq> set (snd r) \<and> (\<forall>j. msg dst w2 j = None \<longrightarrow> msg dst w' j \<noteq> None \<longrightarrow> j \<in> cmID ` set (snd r))"
    using Cons.IH [OF rest _ m2(2)] e2 Cons.prems(2) j by simp
  have "cmID (copied_msg j e) = j"
    by (simp add: copied_msg_def)
  with ih have "j \<in> cmID ` set (snd r)"
    by (metis UnI2 image_eqI list.set_intros(1) set_append subsetD)
  moreover have "msg dst w2 x = None" if "msg dst w x = None" "x \<noteq> j" for x
    using m2(1) that by auto
  ultimately show ?case
    using ih by (metis Un_subset_iff set_append)
qed auto

section \<open>One pass\<close>

text \<open>A pass over a pair that recorded no error, with both directions allowed: the folders were listed
  completely, and every entry that was missing on a side has been copied to it.\<close>

definition passed :: "'e world \<Rightarrow> 'e world \<Rightarrow> Input list \<Rightarrow> Input list \<Rightarrow> bool" where
  "passed w w' insA insB = (good w \<and> good w' \<and> covered ''a'' w insA \<and> covered ''b'' w insB
     \<and> folder ''a'' w' = folder ''a'' w \<and> folder ''b'' w' = folder ''b'' w \<and> elsewhere ''a'' w w' \<and> elsewhere ''b'' w w'
     \<and> copied ''a'' ''b'' (Missing (BuildFrom insA) (BuildFrom insB)) w w'
     \<and> copied ''b'' ''a'' (Missing (BuildFrom insB) (BuildFrom insA)) w w')"

lemma copied_cong:
  assumes "copied src dst es w w'" "msg dst v = msg dst w" "msg src v = msg src w" "msg dst v' = msg dst w'"
  shows "copied src dst es v v'"
proof -
  have "copy_of src v = copy_of src w"
    using assms(3) by (simp add: copy_of_def fun_eq_iff)
  then show ?thesis
    using assms by (simp add: copied_def)
qed

lemma run_on_stats: "run_state (on_stats f) w = (x, w') \<Longrightarrow> sd s w' = sd s w \<and> wErrs w' = wErrs w"
  by (auto simp: on_stats_def sd_def)

text \<open>Select: the messages stay, both sides become ready.\<close>

lemma select_calls:
  assumes a: "run_state (on_A (epSelect (the (ssA sess)) nA)) w = (Inr x, w1)"
    and b: "run_state (on_B (epSelect (the (ssB sess)) nB)) w1 = (Inr y, w2)"
    and inv: "inv ''a'' (wA w)" "inv ''b'' (wB w)"
  shows "good w2 \<and> mail ''a'' (wA w2) = mail ''a'' (wA w) \<and> mail ''b'' (wB w2) = mail ''b'' (wB w) \<and> wErrs w2 = wErrs w"
proof -
  have A: "epSelect (endpoint sess ''a'') nA (wA w) = (Inr x, wA w1)" "wB w1 = wB w" "wErrs w1 = wErrs w"
    using a by (auto simp: on_A_def endpoint_def split: prod.splits)
  have B: "epSelect (endpoint sess ''b'') nB (wB w1) = (Inr y, wB w2)" "wA w2 = wA w1" "wErrs w2 = wErrs w1"
    using b by (auto simp: on_B_def endpoint_def split: prod.splits)
  have iB: "inv ''b'' (wB w1)"
    using inv(2) A(2) by simp
  show ?thesis
    using mail_endpoint.select_mail [OF law [OF sides_ab(1)] inv(1) A(1)] exact_endpoint.select_ready [OF exact [OF sides_ab(1)] inv(1) A(1)]
      mail_endpoint.select_mail [OF law [OF sides_ab(2)] iB B(1)] exact_endpoint.select_ready [OF exact [OF sides_ab(2)] iB B(1)]
      A(2,3) B(2,3)
    by (simp add: good_def sides_def sd_def)
qed

text \<open>The two copy loops of a pass. With the state cache, the rows of the copies are written back at the end.\<close>

definition rows_ok :: "string \<Rightarrow> string \<Rightarrow> Entry list \<Rightarrow> 'e world \<Rightarrow> 'e world \<Rightarrow> CachedMsg list \<Rightarrow> bool" where
  "rows_ok src dst es w w' cache = (\<forall>cm\<in>set cache. \<exists>e\<in>set es. \<exists>j. cm = copied_msg j e \<and> msg dst w' j = Some (copy_of src w e))"

definition write_back :: "FolderPair \<Rightarrow> string \<Rightarrow> string \<Rightarrow> CachedMsg list \<Rightarrow> CachedMsg list \<Rightarrow> ('e, unit) sync" where
  "write_back fp fA fB cacheB cacheA = (if incremental (ssS sess) then do {
     put_back sess (PairKey (fpA fp) (fpB fp)) ''b'' (''user '' @ uName (ssU sess) @ '', folder B '' @ quote_str (yUT (ssS sess)) fB @ '': post-write to cache: '') cacheB;
     put_back sess (PairKey (fpA fp) (fpB fp)) ''a'' (''user '' @ uName (ssU sess) @ '', folder A '' @ quote_str (yUT (ssS sess)) fA @ '': post-write to cache: '') cacheA }
   else ret ())"

lemma keeps_write_back: "sides_only I \<Longrightarrow> keeps I (write_back fp fA fB cB cA)"
  unfolding write_back_def by (intro keeps_intros keeps_bookkeeping)

lemma logged_write_back: "keeps (logged es) (write_back fp fA fB cB cA)"
  unfolding write_back_def put_back_def by (intro keeps_intros)

lemma run_write_back:
  assumes "run_state (write_back fp fA fB cB cA) w = (x, w')"
  shows "sd s w' = sd s w"
proof -
  have "sides_only (\<lambda>v. sd s v = sd s w)"
    by (auto simp: sides_only_def sd_def)
  from hoareD [OF keeps_write_back [OF this] _ assms] show ?thesis by simp
qed

lemma copy_loop_db: "run_state (copy_loop sess src dst dir sF dF i es n cache) w = (r, w') \<Longrightarrow> wDB w' = wDB w"
proof -
  assume run: "run_state (copy_loop sess src dst dir sF dF i es n cache) w = (r, w')"
  have prim: "keeps (\<lambda>v. wDB v = d) (on_side side f)" "keeps (\<lambda>v. wDB v = d) (ask a)" "keeps (\<lambda>v. wDB v = d) (recordErr us e)" for d side f a us e
    by (auto intro!: hoareI simp: on_side_def on_A_def on_B_def ask_def recordErr_def split: prod.splits if_splits)
  have "keeps (\<lambda>v. wDB v = d) (copy_loop sess src dst dir sF dF i es n cache)" for d
    by (induction es arbitrary: i n cache) (auto intro!: keeps_intros prim simp: copyOne_def)
  from hoareD [OF this _ run] show ?thesis by simp
qed

lemma copy_deltas_ok:
  assumes run: "run_state (copy_deltas sess fp fA fB (BuildFrom insA) (BuildFrom insB)) w = (x, w')" and quiet: "wErrs w' = wErrs w"
    and good: "good w" and allow: "allowAToB sess" "allowBToA sess"
    and li: "covered ''a'' w insA" "covered ''b'' w insB"
  shows "passed w w' insA insB \<and> (\<exists>v cacheB cacheA. wDB v = wDB w \<and> wErrs v = wErrs w \<and> run_state (write_back fp fA fB cacheB cacheA) v = ((), w')
    \<and> rows_ok ''a'' ''b'' (Missing (BuildFrom insA) (BuildFrom insB)) w w' cacheB
    \<and> rows_ok ''b'' ''a'' (Missing (BuildFrom insB) (BuildFrom insA)) w w' cacheA
    \<and> all_rows ''b'' w w' cacheB \<and> all_rows ''a'' w w' cacheA)"
proof -
  define onB where "onB = Missing (BuildFrom insA) (BuildFrom insB)"
  define onA where "onA = Missing (BuildFrom insB) (BuildFrom insA)"
  define skip :: "('e, unit) sync" where "skip = (let k = (Len (BuildFrom insA) - length onB) + (Len (BuildFrom insB) - length onA) in
    if k > 0 then on_stats (IncSkippedDup (ssUs sess) k) else ret ())"
  obtain x0 w0 where 0: "run_state skip w = (x0, w0)"
    by (cases "run_state skip w")
  obtain r1 w1 where 1: "run_state (copyMissing sess ''a'' ''b'' onB ''A->B'' fA fB) w0 = (r1, w1)"
    by (cases "run_state (copyMissing sess ''a'' ''b'' onB ''A->B'' fA fB) w0")
  obtain x2 w2 where 2: "run_state (on_stats (IncCopiedAToB (ssUs sess) (fst r1))) w1 = (x2, w2)"
    by (cases "run_state (on_stats (IncCopiedAToB (ssUs sess) (fst r1))) w1")
  obtain r3 w3 where 3: "run_state (copyMissing sess ''b'' ''a'' onA ''B->A'' fB fA) w2 = (r3, w3)"
    by (cases "run_state (copyMissing sess ''b'' ''a'' onA ''B->A'' fB fA) w2")
  obtain x4 w4 where 4: "run_state (on_stats (IncCopiedBToA (ssUs sess) (fst r3))) w3 = (x4, w4)"
    by (cases "run_state (on_stats (IncCopiedBToA (ssUs sess) (fst r3))) w3")
  have "copy_deltas sess fp fA fB (BuildFrom insA) (BuildFrom insB) = do {
      skip; r1 \<leftarrow> copyMissing sess ''a'' ''b'' onB ''A->B'' fA fB; on_stats (IncCopiedAToB (ssUs sess) (fst r1));
      r3 \<leftarrow> copyMissing sess ''b'' ''a'' onA ''B->A'' fB fA; on_stats (IncCopiedBToA (ssUs sess) (fst r3));
      write_back fp fA fB (snd r1) (snd r3) }"
    using allow unfolding skip_def onA_def onB_def copy_deltas_def Delta_def write_back_def Let_def prod.case_eq_if fst_conv snd_conv by simp
  then have 5: "run_state (write_back fp fA fB (snd r1) (snd r3)) w4 = ((), w')"
    using run by (simp add: 0 1 2 3 4 prod.case_eq_if)
  have s: "sd s w0 = sd s w" "sd s w2 = sd s w1" "sd s w' = sd s w3" "wErrs w0 = wErrs w" "wErrs w2 = wErrs w1" "wErrs w4 = wErrs w3"
    "wDB w0 = wDB w" "wDB w2 = wDB w1" "wDB w4 = wDB w3" for s
    using 0 2 4 run_write_back [OF 5, of s] by (auto simp: skip_def Let_def on_stats_def sd_def split: if_splits)
  have "prefix (wErrs w0) (wErrs w1)" "prefix (wErrs w2) (wErrs w3)" "prefix (wErrs w4) (wErrs w')"
    using 1 3 logged_mono [OF keeps_logged_rec(4)] logged_mono [OF logged_write_back 5] unfolding copyMissing_def by blast+
  then have q: "wErrs w1 = wErrs w0" "wErrs w3 = wErrs w2" "wErrs w4 = wErrs w"
    using quiet s(4-6) by (metis prefix_order.antisym prefix_order.trans)+
  have g0: "good w0"
    using good_sd [OF good s(1)] .
  note c1 = copy_loop_ok [OF 1 [unfolded copyMissing_def] q(1) sides_ab _ g0]
  have g2: "good w2"
    using good_sd [OF _ s(2)] c1 by simp
  note c3 = copy_loop_ok [OF 3 [unfolded copyMissing_def] q(2) sides_ab(2,1) _ g2]
  have m: "msg s w0 = msg s w" "msg s w2 = msg s w1" "msg s w' = msg s w3" "folder s w0 = folder s w" "folder s w2 = folder s w1" "folder s w' = folder s w3" for s
    using same_msg [OF same_sd [OF s(1)]] same_msg [OF same_sd [OF s(2)]] same_msg [OF same_sd [OF s(3)]] by blast+
  have a1: "msg ''a'' w1 = msg ''a'' w" "folder ''a'' w1 = folder ''a'' w" "msg ''b'' w3 = msg ''b'' w1" "folder ''b'' w3 = folder ''b'' w1"
    using c1 c3 same_msg [of "''a''" w0 w1] same_msg [of "''b''" w2 w3] m by auto
  have "copied ''a'' ''b'' onB w0 w1" using c1 by simp
  then have cB: "copied ''a'' ''b'' onB w w'"
    by (rule copied_cong) (simp_all add: m a1)
  have orig: "copy_of ''b'' w2 e = copy_of ''b'' w e" if e: "e \<in> set onA" for e
  proof -
    obtain i where "i \<in> set insB" "enID e = inID i"
      using Missing_entry e onA_def by (metis entry_of_sel(1))
    then have "msg ''b'' w (enID e) \<noteq> None"
      using covered_msg [OF li(2)] by simp
    then have "msg ''b'' w1 (enID e) = msg ''b'' w (enID e)"
      using copied_old [of "''a''" "''b''" onB w0 w1 "enID e"] c1 m by simp
    then show ?thesis
      using m by (simp add: copy_of_def)
  qed
  have "copied ''b'' ''a'' onA w2 w3" using c3 by simp
  then have cA: "copied ''b'' ''a'' onA w w'"
    using m a1 orig by (simp add: copied_def)
  have "copy_of ''a'' w0 = copy_of ''a'' w"
    using m by (simp add: copy_of_def fun_eq_iff)
  then have rows: "rows_ok ''a'' ''b'' onB w w' (snd r1)" "rows_ok ''b'' ''a'' onA w w' (snd r3)"
    using c1 c3 m a1 orig unfolding rows_ok_def by (auto simp: Ball_def)
  have arows: "all_rows ''b'' w w' (snd r1)" "all_rows ''a'' w w' (snd r3)"
    using copy_loop_rows [OF 1 [unfolded copyMissing_def] q(1) sides_ab _ g0] copy_loop_rows [OF 3 [unfolded copyMissing_def] q(2) sides_ab(2,1) _ g2]
    by (simp_all add: all_rows_def m a1)
  have "good w'" "elsewhere ''a'' w w'" "elsewhere ''b'' w w'"
    using good_sd [OF _ s(3)] c1 c3 s m a1 by (auto simp: elsewhere_def same_def)
  then have "passed w w' insA insB"
    using good li c1 c3 m a1 cA cB by (simp add: passed_def onA_def onB_def)
  then show ?thesis
    using 5 q(3) rows arows copy_loop_db [OF 1 [unfolded copyMissing_def]] copy_loop_db [OF 3 [unfolded copyMissing_def]] s(7-9)
    unfolding onA_def onB_def by metis
qed

lemma syncPair_passed:
  assumes run: "run_state (syncPair sess fp) w = (None, w')" and quiet: "wErrs w' = wErrs w"
    and inv: "inv ''a'' (wA w)" "inv ''b'' (wB w)"
    and full: "\<not> incremental (ssS sess)" and allow: "allowAToB sess" "allowBToA sess"
  shows "\<exists>w1 insA insB. passed w1 w' insA insB \<and> listed ''a'' w1 insA \<and> listed ''b'' w1 insB
    \<and> mail ''a'' (wA w1) = mail ''a'' (wA w) \<and> mail ''b'' (wB w1) = mail ''b'' (wB w)"
proof -
  obtain x v1 y v2 idxA v3 idxB v4 where
    A: "run_state (on_A (epSelect (the (ssA sess)) (fpA fp))) w = (Inr x, v1)" and
    B: "run_state (on_B (epSelect (the (ssB sess)) (fpB fp))) v1 = (Inr y, v2)" and
    IF: "run_state (indexFolder sess ''a'' fp (fst x) (snd x)) v2 = (Inr idxA, v3)"
      "run_state (indexFolder sess ''b'' fp (fst y) (snd y)) v3 = (Inr idxB, v4)" and
    C: "run_state (copy_deltas sess fp (fst x) (fst y) idxA idxB) v4 = ((), w')"
    using syncPair_ok [OF run] .
  have I: "run_state (indexFolderFull sess ''a'' (fst x)) v2 = (Inr idxA, v3)" "run_state (indexFolderFull sess ''b'' (fst y)) v3 = (Inr idxB, v4)"
    using IF full by (simp_all add: indexFolder_def)
  note sel = select_calls [OF A B inv]
  have "prefix (wErrs v2) (wErrs v3)" "prefix (wErrs v3) (wErrs v4)" "prefix (wErrs v4) (wErrs w')"
    using logged_mono [OF keeps_logged_ops(1) IF(1)] logged_mono [OF keeps_logged_ops(1) IF(2)] logged_mono [OF keeps_logged_ops(2) C] by blast+
  then have q: "wErrs v3 = wErrs v2" "wErrs v4 = wErrs v3" "wErrs w' = wErrs v4"
    using sel quiet by (metis prefix_order.antisym prefix_order.trans)+
  have sg: "good v2" using sel by simp
  obtain insA where a: "idxA = BuildFrom insA" "listed ''a'' v2 insA" "good v3" "\<forall>s\<in>sides. same s v2 v3"
    using index_full [OF I(1) sides_ab(1) sg q(1)] by blast
  obtain insB where b: "idxB = BuildFrom insB" "listed ''b'' v3 insB" "good v4" "\<forall>s\<in>sides. same s v3 v4"
    using index_full [OF I(2) sides_ab(2) a(3) q(2)] by blast
  have li: "listed ''a'' v4 insA" "listed ''b'' v4 insB"
    using a b listed_same same_trans sides_ab by blast+
  have "passed v4 w' insA insB"
    using copy_deltas_ok [OF C [unfolded a(1) b(1)] q(3) b(3) allow listed_covered listed_covered] li by blast
  moreover have "mail ''a'' (wA v4) = mail ''a'' (wA w)" "mail ''b'' (wB v4) = mail ''b'' (wB w)"
    using sel a(4) b(4) sides_ab by (auto simp: same_def sd_def)
  ultimately show ?thesis using li by blast
qed

section \<open>Counterparts\<close>

text \<open>A copy carries the surrogate key of its original.\<close>

lemma copy_keys:
  assumes tag: "tag_name hh" and li: "covered src w ins" and i: "i \<in> set ins" and c: "msg dst w' j = Some (copy_of src w (entry_of i))"
  shows "keys dst w' j \<inter> set (inKeys i) \<noteq> {}"
proof -
  obtain f where f: "ParseFields lib (the (msg src w (inID i))) hh = Inr f" "inSurrogate i = SurrogateHash lib f" "''hash:'' @ inSurrogate i \<in> set (inKeys i)"
    using coveredD [OF li i] by metis
  obtain f' where f': "ParseFields lib (copy_of src w (entry_of i)) hh = Inr f'" "SurrogateHash lib f' = SurrogateHash lib f"
    using ParseFields_inject [OF tag f(1)] f(2) by (auto simp: copy_of_def SurrogateHash_def)
  have "keys dst w' j = set (MatchKeys lib f')"
    using f'(1) c by (simp add: keys_def)
  then have "''hash:'' @ inSurrogate i \<in> keys dst w' j"
    using hash_key [of lib f'] unfolding f'(2) f(2) by blast
  then show ?thesis
    using f(3) by blast
qed

lemma keys_msg: "keys side w i \<noteq> {} \<Longrightarrow> msg side w i \<noteq> None"
  by (auto simp: keys_def)

lemma has_counterpart:
  assumes li: "covered dst w ins" and h: "has (BuildFrom ins) ks"
  shows "\<exists>j. msg dst w j \<noteq> None \<and> set ks \<inter> keys dst w j \<noteq> {}"
proof -
  obtain e where "e \<in> set (ixEntries (BuildFrom ins))" "set ks \<inter> ekeys e \<noteq> {}"
    using h by (auto simp: has_keys_of [OF BuildFrom_inv] keys_of_def)
  then obtain i where "i \<in> set ins" "set ks \<inter> set (inKeys i) \<noteq> {}"
    using indexed_entry by (metis entry_of_keys(2))
  then show ?thesis
    using covered_keys [OF li] covered_msg [OF li] by (meson disjoint_iff subsetD)
qed

lemma copied_new:
  assumes "copied src dst es w w'" "msg dst w j = None" "msg dst w' j \<noteq> None"
  shows "\<exists>k<length es. msg dst w' j = Some (copy_of src w (es ! k))"
  using assms unfolding copied_def by (metis in_set_conv_nth)

lemma keys_old: "copied src dst es w w' \<Longrightarrow> msg dst w j \<noteq> None \<Longrightarrow> keys dst w' j = keys dst w j"
  using copied_old [of src dst es w w' j] by (simp add: keys_def)

text \<open>Every message of a side shares a key with a message of its own folder that shares one with the other side.\<close>

lemma counterpart:
  assumes tag: "tag_name hh" and src: "covered src w insS" and dst: "covered dst w insD"
    and cp: "copied src dst (Missing (BuildFrom insS) (BuildFrom insD)) w w'"
    and pc: "copied dst src (Missing (BuildFrom insD) (BuildFrom insS)) w w'"
    and i: "msg src w' i \<noteq> None"
  shows "\<exists>i' j. keys src w' i \<inter> keys src w' i' \<noteq> {} \<and> keys src w' i' \<inter> keys dst w' j \<noteq> {}"
proof (cases "msg src w i")
  case None
  obtain k where k: "k < length (Missing (BuildFrom insD) (BuildFrom insS))"
    "msg src w' i = Some (copy_of dst w (Missing (BuildFrom insD) (BuildFrom insS) ! k))"
    using copied_new [OF pc None i] by blast
  then obtain d where d: "d \<in> set insD" "msg src w' i = Some (copy_of dst w (entry_of d))"
    using Missing_entry [OF nth_mem [OF k(1)]] by auto
  have ks: "keys src w' i \<inter> set (inKeys d) \<noteq> {}"
    using copy_keys [OF tag dst d] by auto
  have "set (inKeys d) \<subseteq> keys dst w' (inID d)"
    using keys_old [OF cp covered_msg [OF dst d(1)]] covered_keys [OF dst d(1)] by simp
  then show ?thesis
    using ks by (intro exI [of _ i] exI [of _ "inID d"]) auto
next
  case (Some data)
  obtain m where m: "m \<in> set insS" "inID m = i"
    using covered_ex [OF src] Some by auto
  obtain e where e: "e \<in> set (ixEntries (BuildFrom insS))" "set (inKeys m) \<inter> ekeys e \<noteq> {}"
    using BuildFrom_covers [OF m(1)] covered_keys [OF src m(1)] by blast
  then obtain m' where m': "m' \<in> set insS" "e = entry_of m'"
    using indexed_entry by blast
  have old: "set (inKeys x) \<subseteq> keys src w' (inID x)" if "x \<in> set insS" for x
    using keys_old [OF pc covered_msg [OF src that]] covered_keys [OF src that] by simp
  have mm: "keys src w' i \<inter> keys src w' (inID m') \<noteq> {}"
    using e(2) m' old [OF m'(1)] old [OF m(1)] m(2) by auto
  have "\<exists>j. keys src w' (inID m') \<inter> keys dst w' j \<noteq> {}"
  proof (cases "has (BuildFrom insD) (enKeys e)")
    case True
    obtain j where "msg dst w j \<noteq> None" "set (enKeys e) \<inter> keys dst w j \<noteq> {}"
      using has_counterpart [OF dst True] by blast
    then show ?thesis
      using keys_old [OF cp, of j] old [OF m'(1)] m' by (intro exI [of _ j]) auto
  next
    case False
    then have "e \<in> set (Missing (BuildFrom insS) (BuildFrom insD))"
      using e(1) by (simp add: Missing_def)
    then obtain j where "msg dst w' j = Some (copy_of src w e)"
      using cp unfolding copied_def by (metis in_set_conv_nth)
    then have "keys dst w' j \<inter> set (inKeys m') \<noteq> {}"
      using copy_keys [OF tag src m'(1)] m'(2) by auto
    then show ?thesis
      using old [OF m'(1)] by (intro exI [of _ j]) auto
  qed
  then show ?thesis
    using mm by blast
qed

lemma passed_counterparts:
  assumes "tag_name hh" "passed w w' insA insB"
  shows "msg ''a'' w' i \<noteq> None \<Longrightarrow> \<exists>i' j. keys ''a'' w' i \<inter> keys ''a'' w' i' \<noteq> {} \<and> keys ''a'' w' i' \<inter> keys ''b'' w' j \<noteq> {}"
    "msg ''b'' w' i \<noteq> None \<Longrightarrow> \<exists>i' j. keys ''b'' w' i \<inter> keys ''b'' w' i' \<noteq> {} \<and> keys ''b'' w' i' \<inter> keys ''a'' w' j \<noteq> {}"
  using assms counterpart [OF assms(1), of "''a''" w insA "''b''" insB w' i] counterpart [OF assms(1), of "''b''" w insB "''a''" insA w' i]
  by (simp_all add: passed_def)

section \<open>A second pass\<close>

definition nodup :: "string \<Rightarrow> 'e world \<Rightarrow> bool" where
  "nodup side w = (\<forall>i j. i \<noteq> j \<longrightarrow> keys side w i \<inter> keys side w j = {})"

lemma nodup_entries:
  assumes "listed side w ins" "nodup side w"
  shows "ixEntries (BuildFrom ins) = map entry_of ins"
proof -
  have "disjoint_keys (map entry_of xs)" if "distinct (map inID xs)" "set xs \<subseteq> set ins" for xs
    using that
  proof (induction xs)
    case (Cons x xs)
    have "set (inKeys x) \<inter> set (inKeys y) = {}" if y: "y \<in> set xs" for y
    proof -
      have "inID x \<noteq> inID y" "x \<in> set ins" "y \<in> set ins"
        using Cons.prems y by auto
      then show ?thesis
        using assms(2) listed_keys [OF assms(1)] unfolding nodup_def by metis
    qed
    then show ?case
      using Cons by auto
  qed simp
  then have "disjoint_keys (map entry_of ins)"
    using assms(1) by (simp add: listed_def)
  then show ?thesis
    using BuildFrom_disjoint by blast
qed

lemma nodup_has:
  assumes "listed side w ins" "nodup side w" "set ks \<inter> keys side w j \<noteq> {}"
  shows "has (BuildFrom ins) ks"
proof -
  have "msg side w j \<noteq> None"
    using assms(3) keys_msg by blast
  then obtain d where d: "d \<in> set ins" "inID d = j"
    using listed_ex [OF assms(1)] by blast
  then have "keys side w j = ekeys (entry_of d)"
    using listed_keys [OF assms(1) d(1)] by simp
  then show ?thesis
    using assms(3) d(1) by (auto simp: has_keys_of [OF BuildFrom_inv] nodup_entries [OF assms(1,2)] keys_of_def)
qed

text \<open>When every message of the source has a counterpart and neither folder holds duplicates, nothing is missing.\<close>

lemma nothing_missing:
  assumes src: "listed src w insS" "nodup src w" and dst: "listed dst w insD" "nodup dst w"
    and cp: "\<And>i. msg src w i \<noteq> None \<Longrightarrow> \<exists>i' j. keys src w i \<inter> keys src w i' \<noteq> {} \<and> keys src w i' \<inter> keys dst w j \<noteq> {}"
  shows "Missing (BuildFrom insS) (BuildFrom insD) = []"
proof -
  have "has (BuildFrom insD) (enKeys e)" if e: "e \<in> set (ixEntries (BuildFrom insS))" for e
  proof -
    obtain m where m: "m \<in> set insS" "e = entry_of m"
      using indexed_entry [OF e] by blast
    have "msg src w (inID m) \<noteq> None"
      using src(1) m(1) by (auto simp: listed_def)
    then obtain i' j where "keys src w (inID m) \<inter> keys src w i' \<noteq> {}" "keys src w i' \<inter> keys dst w j \<noteq> {}"
      using cp by blast
    then have "keys src w (inID m) \<inter> keys dst w j \<noteq> {}"
      using src(2) unfolding nodup_def by metis
    then show ?thesis
      using nodup_has [OF dst, of "enKeys e" j] listed_keys [OF src(1) m(1)] m(2) by simp
  qed
  then show ?thesis
    by (simp add: Missing_def filter_empty_conv)
qed

lemma second_pass:
  assumes first: "run_state (syncPair sess fp) w = (None, w1)" "wErrs w1 = wErrs w"
    and second: "run_state (syncPair sess fp) w1 = (None, w2)" "wErrs w2 = wErrs w1"
    and inv: "inv ''a'' (wA w)" "inv ''b'' (wB w)" and tag: "tag_name hh"
    and full: "\<not> incremental (ssS sess)" and allow: "allowAToB sess" "allowBToA sess"
    and nd: "nodup ''a'' w1" "nodup ''b'' w1"
    and folder: "folder ''a'' w2 = folder ''a'' w1" "folder ''b'' w2 = folder ''b'' w1"
  shows "mail ''a'' (wA w2) = mail ''a'' (wA w1) \<and> mail ''b'' (wB w2) = mail ''b'' (wB w1)"
proof -
  obtain v insA insB where p: "passed v w1 insA insB"
    using syncPair_passed [OF first inv full allow] by blast
  have "good w1"
    using p by (simp add: passed_def)
  then have inv1: "inv ''a'' (wA w1)" "inv ''b'' (wB w1)"
    using goodD(1) sides_ab by (force simp: sd_def)+
  obtain u jnsA jnsB where q: "passed u w2 jnsA jnsB" and jl: "listed ''a'' u jnsA" "listed ''b'' u jnsB" and qm: "mail ''a'' (wA u) = mail ''a'' (wA w1)" "mail ''b'' (wB u) = mail ''b'' (wB w1)"
    using syncPair_passed [OF second inv1 full allow] by blast
  have m: "msg ''a'' u = msg ''a'' w1" "msg ''b'' u = msg ''b'' w1"
    using q qm folder by (auto simp: passed_def msg_def sd_def fun_eq_iff)
  then have k: "keys ''a'' u = keys ''a'' w1" "keys ''b'' u = keys ''b'' w1"
    by (simp_all add: keys_def fun_eq_iff)
  have li: "listed ''a'' u jnsA" "nodup ''a'' u" "listed ''b'' u jnsB" "nodup ''b'' u"
    using jl nd k by (auto simp: nodup_def)
  have "Missing (BuildFrom jnsA) (BuildFrom jnsB) = []" "Missing (BuildFrom jnsB) (BuildFrom jnsA) = []"
    by (rule nothing_missing [OF li]; use passed_counterparts [OF tag p] m k in simp)
      (rule nothing_missing [OF li(3,4,1,2)]; use passed_counterparts [OF tag p] m k in simp)
  then have "msg ''a'' w2 = msg ''a'' u" "msg ''b'' w2 = msg ''b'' u" "elsewhere ''a'' u w2" "elsewhere ''b'' u w2"
    using q by (simp_all add: passed_def copied_Nil)
  then have "mail s (sd s w2) = mail s (sd s u)" if "s \<in> sides" for s
    using that q by (auto simp: sides_def msg_def elsewhere_def passed_def fun_eq_iff) metis+
  then show ?thesis
    using qm sides_ab by (force simp: sd_def)
qed

end

section \<open>Two Maildirs\<close>

definition md_session :: "mdenv \<Rightarrow> mdenv \<Rightarrow> env \<Rightarrow> Config \<Rightarrow> bool \<Rightarrow> gctx \<Rightarrow> User \<Rightarrow> sref \<Rightarrow> maildir session" where
  "md_session EA EB env cfg st ctx u us = \<lparr>ssS = md_syncer EA EB env cfg st, ssCtx = ctx, ssU = u, ssUs = us,
     ssA = Some (maildirEndpoint EA), ssB = Some (maildirEndpoint EB)\<rparr>"

lemma md_session_sel [simp]:
  "ssS (md_session EA EB env cfg st ctx u us) = md_syncer EA EB env cfg st"
  "endpoint (md_session EA EB env cfg st ctx u us) side = maildirEndpoint (if side = ''b'' then EB else EA)"
  "allowAToB (md_session EA EB env cfg st ctx u us) = (cDirection cfg \<noteq> DirectionBToA)"
  "allowBToA (md_session EA EB env cfg st ctx u us) = (cDirection cfg \<noteq> DirectionAToB)"
  "incremental (md_syncer EA EB env cfg st) = (cStateCache cfg \<and> st)"
  by (simp_all add: md_session_def endpoint_def allowAToB_def allowBToA_def incremental_def)

interpretation mdx: exact_session "md_session EA EB env cfg st ctx u us" "\<lambda>side. md_inv (if side = ''b'' then EB else EA)"
  "\<lambda>_. md_mail" "\<lambda>_. mdFolder" "\<lambda>_. md_ready" for EA EB env cfg st ctx u us
  by (rule exact_session.intro) (simp only: md_session_sel md.exact_endpoint_axioms)

text \<open>The match keys of a message, none if its header does not parse, and the messages of the selected folder.\<close>

definition data_keys :: "golib \<Rightarrow> string \<Rightarrow> string \<Rightarrow> string set" where
  "data_keys g hh data = (case ParseFields g data hh of Inl _ \<Rightarrow> {} | Inr f \<Rightarrow> set (MatchKeys g f))"

definition md_selected :: "maildir \<Rightarrow> string \<Rightarrow> string option" where
  "md_selected s i = md_mail s (the (mdFolder s), i)"

lemma md_msg: "mdx.msg side w i = md_selected (if side = ''b'' then wB w else wA w) i"
  by (simp add: mdx.msg_def mdx.folder_def md_selected_def sd_def)

lemma md_keys:
  "mdx.keys EA EB env cfg st ctx u us side w i =
     (case md_selected (if side = ''b'' then wB w else wA w) i of None \<Rightarrow> {} | Some d \<Rightarrow> data_keys (evLib env) (cHashHeader cfg) d)"
  unfolding mdx.keys_def md_msg data_keys_def md_session_sel md_syncer_sel ..

lemma md_counterparts:
  assumes "tag_name (cHashHeader cfg)" and "mdx.passed EA EB env cfg st ctx u us w1 w' insA insB"
  defines "K \<equiv> data_keys (evLib env) (cHashHeader cfg)"
  shows "\<forall>i d. md_selected (wA w') i = Some d \<longrightarrow> (\<exists>i' d' j e. md_selected (wA w') i' = Some d' \<and> md_selected (wB w') j = Some e
      \<and> K d \<inter> K d' \<noteq> {} \<and> K d' \<inter> K e \<noteq> {})"
    "\<forall>j e. md_selected (wB w') j = Some e \<longrightarrow> (\<exists>j' e' i d. md_selected (wB w') j' = Some e' \<and> md_selected (wA w') i = Some d
      \<and> K e \<inter> K e' \<noteq> {} \<and> K e' \<inter> K d \<noteq> {})"
proof -
  note c = mdx.passed_counterparts [OF _ assms(2), unfolded md_msg md_keys, folded K_def]
  show "\<forall>i d. md_selected (wA w') i = Some d \<longrightarrow> (\<exists>i' d' j e. md_selected (wA w') i' = Some d' \<and> md_selected (wB w') j = Some e
      \<and> K d \<inter> K d' \<noteq> {} \<and> K d' \<inter> K e \<noteq> {})"
  proof (intro allI impI)
    fix i d assume "md_selected (wA w') i = Some d"
    then show "\<exists>i' d' j e. md_selected (wA w') i' = Some d' \<and> md_selected (wB w') j = Some e \<and> K d \<inter> K d' \<noteq> {} \<and> K d' \<inter> K e \<noteq> {}"
      using c(1) [of i] assms(1) by (fastforce split: option.splits)
  qed
  show "\<forall>j e. md_selected (wB w') j = Some e \<longrightarrow> (\<exists>j' e' i d. md_selected (wB w') j' = Some e' \<and> md_selected (wA w') i = Some d
      \<and> K e \<inter> K e' \<noteq> {} \<and> K e' \<inter> K d \<noteq> {})"
  proof (intro allI impI)
    fix i d assume "md_selected (wB w') i = Some d"
    then show "\<exists>i' d' j e. md_selected (wB w') i' = Some d' \<and> md_selected (wA w') j = Some e \<and> K d \<inter> K d' \<noteq> {} \<and> K d' \<inter> K e \<noteq> {}"
      using c(2) [of i] assms(1) by (fastforce split: option.splits)
  qed
qed


text \<open>No two messages of the selected folder share a match key.\<close>

definition md_nodup :: "golib \<Rightarrow> string \<Rightarrow> maildir \<Rightarrow> bool" where
  "md_nodup g hh s = (\<forall>i j d e. i \<noteq> j \<longrightarrow> md_selected s i = Some d \<longrightarrow> md_selected s j = Some e \<longrightarrow> data_keys g hh d \<inter> data_keys g hh e = {})"

text \<open>C6: synchronization converges: when neither folder holds duplicates after a clean pass, a second clean pass
  over the same folders copies nothing, in either direction.\<close>
theorem second_pass_copies_nothing:
  assumes "md_inv EA (wA w)" and "md_inv EB (wB w)" and "tag_name (cHashHeader cfg)"
    and "\<not> (cStateCache cfg \<and> st)" and "cDirection cfg = DirectionBoth"
    and "run_state (syncPair (md_session EA EB env cfg st ctx u us) fp) w = (None, w1)" and "wErrs w1 = wErrs w"
    and "run_state (syncPair (md_session EA EB env cfg st ctx u us) fp) w1 = (None, w2)" and "wErrs w2 = wErrs w1"
    and "md_nodup (evLib env) (cHashHeader cfg) (wA w1)" and "md_nodup (evLib env) (cHashHeader cfg) (wB w1)"
    and "mdFolder (wA w2) = mdFolder (wA w1)" and "mdFolder (wB w2) = mdFolder (wB w1)"
  shows "md_mail (wA w2) = md_mail (wA w1) \<and> md_mail (wB w2) = md_mail (wB w1)"
proof -
  have nd: "mdx.nodup EA EB env cfg st ctx u us ''a'' w1" "mdx.nodup EA EB env cfg st ctx u us ''b'' w1"
    using assms(10,11) unfolding mdx.nodup_def md_keys md_nodup_def by (auto split: option.splits)
  have f: "mdx.folder ''a'' w2 = mdx.folder ''a'' w1" "mdx.folder ''b'' w2 = mdx.folder ''b'' w1"
    using assms(12,13) by (simp_all add: mdx.folder_def sd_def)
  show ?thesis
    using mdx.second_pass [OF assms(6-9) _ _ _ _ _ _ nd f] assms(1-5) by (simp add: direction_names)
qed

section \<open>Examples\<close>

text \<open>Two Maildirs, one message on side A; and the same message on both sides.\<close>

definition sync_cfg_ex :: Config where
  "sync_cfg_ex = cfg_ex\<lparr>cHashHeader := hh_ex, cDirection := DirectionBoth, cStateCache := False\<rparr>"

definition inbox_ex :: FolderPair where "inbox_ex = \<lparr>fpA = [], fpB = []\<rparr>"

abbreviation sess_ex :: "maildir session" where
  "sess_ex \<equiv> md_session env_ex env_ex senv_ex sync_cfg_ex False ctx_ex (usr_ex ''u'') 0"

definition mail_box_ex :: "(apath, fnode) table" where
  "mail_box_ex = dirs_ex @ [((''r'', [''new'', ''m'']), FFile raw_ex 1)]"

definition full_ex :: "nat \<Rightarrow> (string, apath) table \<Rightarrow> maildir" where
  "full_ex k fl = (mdir_ex mail_box_ex)\<lparr>mdTick := k, mdFiles := fl\<rparr>"

definition empty_ex :: "nat \<Rightarrow> (string, apath) table \<Rightarrow> maildir" where
  "empty_ex k fl = (mdir_ex dirs_ex)\<lparr>mdTick := k, mdFiles := fl\<rparr>"

abbreviation files_ex :: "(string, apath) table" where "files_ex \<equiv> [(''m'', (''r'', [''new'', ''m'']))]"

definition sync_wld_ex :: "maildir \<Rightarrow> maildir \<Rightarrow> maildir world" where
  "sync_wld_ex a b = (wld_ex a b)\<lparr>wCol := snd (BeginUser 5 ''u'' NewCollector)\<rparr>"

definition fields_ex :: Fields where
  "fields_ex = \<lparr>fMessageID = [], fDate = zero_time, fSubject = ''hi'', fFrom = ''a@b'', fHashHdr = []\<rparr>"

definition meta_ex :: EMessage where
  "meta_ex = \<lparr>mID = ''m'', mFlags = [], mInternalDate = 1, mSize = of_nat (length raw_ex), mHeader = header_block raw_ex\<rparr>"

definition input_ex :: Input where
  "input_ex = \<lparr>inID = ''m'', inFlags = [], inInternalDate = 1, inSize = of_nat (length raw_ex), inMsgID = [], inXHash = [],
     inSurrogate = SurrogateHash lib_ex fields_ex, inKeys = MatchKeys lib_ex fields_ex\<rparr>"

lemma select_ex:
  "\<exists>k'. mdSelect env_ex [] (full_ex k fl) = (Inr (''INBOX'', ''maildir''), full_ex k' files_ex)"
  "\<exists>k'. mdSelect env_ex [] (empty_ex k fl) = (Inr (''INBOX'', ''maildir''), empty_ex k' [])"
  by (simp_all add: full_ex_def empty_ex_def mdSelect_def folderPath_def root_path_def mdir_ex_def os_MkdirAll_def sys_def env_ex_def
      parents_def child_def mail_box_ex_def dirs_ex_def is_file_def add_dir_def tick_def scan_def scan_sub_def os_ReadDir_def
      dir_entries_def scan_entries_def put_files_def folder_name_def uniqueID_def str_cut_def)

lemma fetch_ex:
  "\<exists>k'. mdFetchMeta env_ex None (full_ex k files_ex) = (Inr [meta_ex], full_ex k' files_ex)"
  "mdFetchMeta env_ex None (empty_ex k []) = (Inr [], empty_ex k [])"
  by (auto simp: mdFetchMeta_def os_Stat_def readHeaderBlock_def os_ReadFile_def sys_def env_ex_def tick_def full_ex_def empty_ex_def
      mdir_ex_def mail_box_ex_def dirs_ex_def node_meta_def meta_ex_def flagsFromName_def str_index.simps)

lemma open_ex: "\<exists>k'. mdOpen env_ex ''m'' (full_ex k files_ex) = (Inr (Buffer raw_ex), full_ex k' files_ex)"
  by (auto simp: mdOpen_def os_ReadFile_def sys_def env_ex_def tick_def full_ex_def mdir_ex_def mail_box_ex_def dirs_ex_def)

lemma append_ex: "\<exists>i s. mdAppend env_ex [] 1 lit (empty_ex k []) = (Inr i, s)"
  by (simp add: mdAppend_def md_deliver_def Let_def mdir_ex_def empty_ex_def dirs_ex_def flagSuffix_def List.map_filter_simps
      os_CreateExcl_def io_Copy_def os_CloseFile_def os_Chtimes_def os_Rename_def sys_def tick_def env_ex_def child_def
      parent_dir_def zero_time_def)

lemma build_ex: "Build lib_ex [meta_ex] hh_ex = (BuildFrom [input_ex], [])" "Build lib_ex [] hh_ex = (BuildFrom [], [])"
proof -
  have "ParseFields lib_ex (header_block raw_ex) hh_ex = Inr fields_ex"
    unfolding fields_ex_def header_block_parse by (rule parse_ex)
  then show "Build lib_ex [meta_ex] hh_ex = (BuildFrom [input_ex], [])"
    by (simp add: Build_def ParseMessage_def meta_ex_def Let_def input_ex_def fields_ex_def MatchKeys_def)
qed (simp add: Build_def)

lemma index_ex: "ixEntries (BuildFrom [input_ex]) = [entry_of input_ex]" "ixEntries (BuildFrom []) = []"
  using BuildFrom_disjoint [of "[input_ex]"] BuildFrom_disjoint [of "[]"] by simp_all

lemma delta_ex:
  "Delta (BuildFrom [input_ex]) (BuildFrom []) = ([entry_of input_ex], [])"
  "Delta (BuildFrom [input_ex]) (BuildFrom [input_ex]) = ([], [])"
proof -
  have "ekeys (entry_of input_ex) \<noteq> {}"
    by (simp add: input_ex_def MatchKeys_def)
  then show "Delta (BuildFrom [input_ex]) (BuildFrom []) = ([entry_of input_ex], [])"
    "Delta (BuildFrom [input_ex]) (BuildFrom [input_ex]) = ([], [])"
    by (simp_all add: Delta_def Missing_eq BuildFrom_inv index_ex del: entry_of_keys(2))
qed

lemma sess_ex_sel:
  "the (ssA sess_ex) = maildirEndpoint env_ex" "the (ssB sess_ex) = maildirEndpoint env_ex" "ssUs sess_ex = 0" "ssCtx sess_ex = ctx_ex"
  "cHashHeader sync_cfg_ex = hh_ex" "cDirection sync_cfg_ex = DirectionBoth" "evLib senv_ex = lib_ex" "g_ut lib_ex = ut_ex"
  "enFlags (entry_of input_ex) = []" "enInternalDate (entry_of input_ex) = 1" "inID input_ex = ''m''"
  "filterFlags [] = []" "cxErr ctx_ex = (\<lambda>_. None)"
  by (simp_all add: md_session_def sync_cfg_ex_def senv_ex_def lib_ex_def entry_of_def input_ex_def filterFlags_def ctx_ex_def)

lemmas sync_eval = syncPair_def Let_def on_A_def on_B_def on_side_def indexFolder_def indexFolderFull_def
  copy_deltas_def copyMissing_def copyOne_def ask_def on_stats_def

lemma pass_ex: "\<exists>w'. run_state (syncPair sess_ex inbox_ex) (sync_wld_ex (full_ex 0 []) (empty_ex 0 [])) = (None, w') \<and> wErrs w' = []"
proof -
  obtain k1 k2 k3 k4 where S: "mdSelect env_ex [] (full_ex 0 []) = (Inr (''INBOX'', ''maildir''), full_ex k1 files_ex)"
    "mdSelect env_ex [] (empty_ex 0 []) = (Inr (''INBOX'', ''maildir''), empty_ex k2 [])"
    and F: "mdFetchMeta env_ex None (full_ex k1 files_ex) = (Inr [meta_ex], full_ex k3 files_ex)"
    and O: "mdOpen env_ex ''m'' (full_ex k3 files_ex) = (Inr (Buffer raw_ex), full_ex k4 files_ex)"
    using select_ex fetch_ex open_ex by metis
  define lit where "lit = WithHeader ut_ex (Buffer raw_ex) hh_ex (inSurrogate input_ex)"
  obtain i s where P: "mdAppend env_ex [] 1 lit (empty_ex k2 []) = (Inr i, s)"
    using append_ex by blast
  show ?thesis
    by (simp add: sync_eval sync_wld_ex_def wld_ex_def inbox_ex_def sess_ex_sel direction_names S F fetch_ex(2) build_ex delta_ex O P flip: lit_def)
qed

lemma pass_equal_ex:
  "\<exists>k k' w'. run_state (syncPair sess_ex inbox_ex) w = (None, w') \<and> wErrs w' = wErrs w \<and> wA w' = full_ex k files_ex \<and> wB w' = full_ex k' files_ex"
  if "wA w = full_ex i fl" "wB w = full_ex j fl'" for w
proof -
  obtain k1 k2 k3 k4 where S: "mdSelect env_ex [] (full_ex i fl) = (Inr (''INBOX'', ''maildir''), full_ex k1 files_ex)"
    "mdSelect env_ex [] (full_ex j fl') = (Inr (''INBOX'', ''maildir''), full_ex k2 files_ex)"
    and F: "mdFetchMeta env_ex None (full_ex k1 files_ex) = (Inr [meta_ex], full_ex k3 files_ex)"
    "mdFetchMeta env_ex None (full_ex k2 files_ex) = (Inr [meta_ex], full_ex k4 files_ex)"
    using select_ex fetch_ex by metis
  show ?thesis
    by (simp add: sync_eval inbox_ex_def sess_ex_sel direction_names that S F build_ex delta_ex) blast
qed

lemma full_ex_sel: "md_mail (full_ex k fl) = md_mail (mdir_ex mail_box_ex)" "mdFolder (full_ex k fl) = Some (''r'', [])"
  by (auto simp: full_ex_def mdir_ex_def md_mail_def fun_eq_iff split: option.splits)

lemma md_inv_frame: "md_inv E (s\<lparr>mdTick := k, mdFiles := fl\<rparr>) = md_inv E s"
  by (simp add: md_inv_def)

lemma full_ex_inv: "md_inv env_ex (full_ex k fl)"
proof -
  have "p = (''r'', [''new'', ''m''])" if "file_at mail_box_ex p \<noteq> None" for p
    using that by (auto simp: file_at_def mail_box_ex_def dirs_ex_def split: if_splits)
  moreover have "''m'' \<noteq> unique_name env_ex sec n" for sec n
    using itoa_chars [of "CHR ''m''" sec] by (auto simp: unique_name_def Cons_eq_append_conv is_digit_def)
  moreover have "uniqueID ''m'' = ''m''"
    by (simp add: uniqueID_def str_cut_def)
  ultimately have "fresh_names env_ex 0 mail_box_ex"
    unfolding fresh_names_def by (metis last.simps list.distinct(1) snd_conv)
  then have "md_inv env_ex (mdir_ex mail_box_ex)"
    by (simp add: md_inv_def env_ex_ok mdir_ex_def) (simp add: mail_box_ex_def dirs_ex_def)
  then show ?thesis
    by (simp add: full_ex_def md_inv_frame)
qed

lemma empty_ex_inv: "md_inv env_ex (empty_ex k fl)"
  unfolding empty_ex_def md_inv_frame by (rule mdir_ex_inv)

lemma full_ex_nodup: "md_nodup g hh (full_ex k fl)"
proof -
  have "i = ''m''" if "md_selected (full_ex k fl) i \<noteq> None" for i
  proof -
    have "md_selected (full_ex 0 []) i \<noteq> None"
      using that by (simp add: md_selected_def full_ex_sel)
    moreover obtain k1 where "mdSelect env_ex [] (full_ex 0 []) = (Inr (''INBOX'', ''maildir''), full_ex k1 files_ex)"
      using select_ex by blast
    from Select_state [OF full_ex_inv this] have "md_ready (full_ex k1 files_ex)"
      by simp
    ultimately show ?thesis
      using ready_mail(2) [OF full_ex_inv, of k1 files_ex i]
      by (simp add: md_selected_def full_ex_sel) (simp add: full_ex_def split: if_splits)
  qed
  then show ?thesis
    unfolding md_nodup_def by (metis option.distinct(1))
qed


theorem second_pass_copies_nothing_witness:
  "\<exists>w1 w2. run_state (syncPair sess_ex inbox_ex) (sync_wld_ex (full_ex 0 []) (full_ex 0 [])) = (None, w1)
     \<and> run_state (syncPair sess_ex inbox_ex) w1 = (None, w2) \<and> md_mail (wA w2) = md_mail (wA w1)"
proof -
  let ?w = "sync_wld_ex (full_ex 0 []) (full_ex 0 [])"
  have w: "wA ?w = full_ex 0 []" "wB ?w = full_ex 0 []"
    by (simp_all add: sync_wld_ex_def wld_ex_def)
  obtain k k' w1 where 1: "run_state (syncPair sess_ex inbox_ex) ?w = (None, w1)" "wErrs w1 = wErrs ?w"
    "wA w1 = full_ex k files_ex" "wB w1 = full_ex k' files_ex"
    using pass_equal_ex [OF w] by blast
  obtain l l' w2 where 2: "run_state (syncPair sess_ex inbox_ex) w1 = (None, w2)" "wErrs w2 = wErrs w1"
    "wA w2 = full_ex l files_ex" "wB w2 = full_ex l' files_ex"
    using pass_equal_ex [OF 1(3,4)] by blast
  have "md_mail (wA w2) = md_mail (wA w1) \<and> md_mail (wB w2) = md_mail (wB w1)"
    by (rule second_pass_copies_nothing [OF _ _ _ _ _ 1(1,2) 2(1,2)])
      (simp_all add: w 1(3,4) 2(3,4) full_ex_inv full_ex_nodup full_ex_sel tag_name_ex sess_ex_sel)
  then show ?thesis
    using 1(1) 2(1) by blast
qed

end
