(* ===== verification/SyncIncremental.thy ===== *)
theory SyncIncremental
  imports SyncComplete
begin

text \<open>
  The incremental mode of the synchronizer: an index made from the state cache covers the folder as a full
  index does, as long as the cache is coherent (a cached row of a message that is in the folder has
  keys of that message), and a clean pass keeps the cache coherent.
\<close>

section \<open>Quiet runs\<close>

lemma quiet_bindE:
  assumes run: "run_state (State_Monad.bind m f) w = (x, w')" and quiet: "wErrs w' = wErrs w"
    and l: "\<And>es. keeps (logged es) m" "\<And>es y. keeps (logged es) (f y)"
  obtains y v where "run_state m w = (y, v)" "wErrs v = wErrs w" "run_state (f y) v = (x, w')" "wErrs w' = wErrs v"
proof -
  obtain y v where b: "run_state m w = (y, v)" "run_state (f y) v = (x, w')"
    using bind_okE [OF run] .
  have "prefix (wErrs w) (wErrs v)" "prefix (wErrs v) (wErrs w')"
    using logged_mono [OF l(1) b(1)] logged_mono [OF l(2) b(2)] .
  then show ?thesis
    using that b quiet by (metis prefix_order.antisym)
qed

lemma run_on_db: "run_state (on_db m) w = (r, w') \<Longrightarrow> m (wDB w) = (r, wDB w') \<and> sd s w' = sd s w \<and> wErrs w' = wErrs w"
  by (auto simp: on_db_def sd_def split: prod.splits)

lemma record_failure_quiet: "run_state (record_failure us p r) w = (x, w') \<Longrightarrow> wErrs w' = wErrs w \<Longrightarrow> r = Inr () \<and> w' = w"
  by (cases r) (auto simp: record_failure_def recordErr_def)

lemma atomic_run: "atomic m f \<Longrightarrow> m s = (Inr u, s') \<Longrightarrow> sdTables s' = f (sdTables s)"
  by (erule atomicE [where s = s]) auto

text \<open>A statement whose failure is recorded, run without a recorded error.\<close>

lemma recorded_db:
  assumes "run_state (State_Monad.bind (on_db m) (\<lambda>r. State_Monad.bind (record_failure us p r) f)) w = (x, w')" "wErrs w' = wErrs w"
    and "\<And>es y. keeps (logged es) (f y)"
  obtains v where "m (wDB w) = (Inr (), wDB v)" "\<And>s. sd s v = sd s w" "wErrs v = wErrs w" "run_state (f ()) v = (x, w')"
proof (rule quiet_bindE [OF assms(1,2)])
  fix r v assume 1: "run_state (on_db m) w = (r, v)" "wErrs v = wErrs w" "run_state (State_Monad.bind (record_failure us p r) f) v = (x, w')" "wErrs w' = wErrs v"
  show ?thesis
  proof (rule quiet_bindE [OF 1(3,4)])
    fix y v' assume "run_state (record_failure us p r) v = (y, v')" "wErrs v' = wErrs v" "run_state (f y) v' = (x, w')"
    with record_failure_quiet [OF this(1,2)] show ?thesis
      using that run_on_db [OF 1(1)] 1(2) by (metis old.unit.exhaust)
  qed (intro keeps_intros assms(3))+
qed (intro keeps_intros assms(3))+

lemma logged_finish:
  "keeps (logged es) (finish_incremental sess side pair p validity resyncAt curIDs cached fetched)"
  unfolding finish_incremental_def by (intro keeps_intros)

section \<open>The stages of an incremental index\<close>

lemma LoadEndpoint_rows:
  assumes "LoadEndpoint F user pair side s = (Inr (saved, c), s')"
  shows "sdTables s' = sdTables s \<and> (c = [] \<or> c = cache_of (user, pair, side) (sdTables s))"
  using assms
  by (auto simp: LoadEndpoint_def db_rows_def db_defs Let_def split: option.splits)

lemma incremental_stages:
  assumes "run_state (indexFolderIncremental sess side fp fname validity) w = (Inr idx, w')"
    and "F = evFaults (yEnv (ssS sess))" "user = uName (ssU sess)" "ep = endpoint sess side" "pair = PairKey (fpA fp) (fpB fp)" "p = folder_msg sess side fname"
  obtains saved cached0 v1 now v2 cached resyncAt v3 ids v4 fetched v5 where
    "run_state (on_db (LoadEndpoint F user pair side)) w = (Inr (saved, cached0), v1)"
    "run_state (clock (ssS sess)) v1 = (now, v2)"
    "run_state (if needs_reset (ssS sess) saved validity now then do {
                   rr \<leftarrow> on_db (ResetEndpoint F user pair side);
                   case rr of Inl e \<Rightarrow> ret (Inl (wrapf (p @ ''resetting cache: '') e))
                   | Inr _ \<Rightarrow> do { t \<leftarrow> clock (ssS sess); ret (Inr ([], t)) } }
                 else ret (Inr (cached0, seFullResyncAt saved))) v2 = (Inr (cached, resyncAt), v3)"
    "run_state (on_side side (epListIDs ep)) v3 = (Inr ids, v4)"
    "run_state (on_side side (epFetchMeta ep (nil_slice (filter (\<lambda>i. map_of cached i = None) (sort ids))))) v4 = (Inr fetched, v5)"
    "run_state (finish_incremental sess side pair p validity resyncAt (sort ids) cached fetched) v5 = (Inr idx, w')"
proof -
  obtain r0 v1 where 0: "run_state (on_db (LoadEndpoint F user pair side)) w = (r0, v1)"
    by (cases "run_state (on_db (LoadEndpoint F user pair side)) w")
  then obtain saved cached0 where r0: "r0 = Inr (saved, cached0)"
    using assms(1) unfolding indexFolderIncremental_def Let_def assms(2-6) [symmetric] by (cases r0) auto
  obtain now v2 where 1: "run_state (clock (ssS sess)) v1 = (now, v2)"
    by (cases "run_state (clock (ssS sess)) v1")
  note run1 = assms(1) [unfolded indexFolderIncremental_def Let_def, folded assms(2-6), unfolded run_state_bind 0 r0 prod.case sum.case 1]
  show thesis
    using that [OF 0 [unfolded r0] 1] run1
    by (auto simp del: run_state_bind elim!: bind_okE split: sum.splits prod.splits simp: run_state_bind [symmetric])
qed

section \<open>Parsing what was fetched\<close>

definition freshly :: "golib \<Rightarrow> string \<Rightarrow> EMessage list \<Rightarrow> CachedMsg \<Rightarrow> string \<Rightarrow> bool" where
  "freshly g hh ms cm i = (\<exists>m\<in>set ms. \<exists>x. ParseMessage g m hh = Inr x \<and> cm = fresh_msg m x \<and> mID m = i)"

lemma parse_fresh_ok:
  assumes "run_state (parse_fresh sess p ms fresh cached) w = ((fr, ca), w')" "wErrs w' = wErrs w"
    and "g = evLib (yEnv (ssS sess))" "hh = cHashHeader (yCfg (ssS sess))"
  shows "w' = w \<and> (\<forall>i cm. map_of ca i = Some cm \<longrightarrow> map_of cached i = Some cm \<or> freshly g hh ms cm i)
    \<and> (\<forall>m\<in>set ms. map_of ca (mID m) \<noteq> None) \<and> (\<forall>i. map_of cached i \<noteq> None \<longrightarrow> map_of ca i \<noteq> None)
    \<and> (\<forall>cm\<in>set fr. cm \<in> set fresh \<or> freshly g hh ms cm (cmID cm))"
  using assms(1,2)
proof (induction ms arbitrary: fresh cached w)
  case (Cons m ms)
  show ?case
  proof (cases "ParseMessage g m hh")
    case (Inl e)
    then have r: "run_state (State_Monad.bind (recordErr (ssUs sess) (wrapf p e)) (\<lambda>_. parse_fresh sess p ms fresh cached)) w = ((fr, ca), w')"
      using Cons.prems(1) assms(3,4) by simp
    show ?thesis
    proof (rule quiet_bindE [OF r Cons.prems(2)])
      fix y v assume "run_state (recordErr (ssUs sess) (wrapf p e)) w = (y, v)" "wErrs v = wErrs w"
      then show ?thesis by (auto simp: recordErr_def)
    qed (intro keeps_intros)+
  next
    case (Inr x)
    let ?cm = "fresh_msg m x"
    have r: "run_state (parse_fresh sess p ms (fresh @ [?cm]) (AList.update (mID m) ?cm cached)) w = ((fr, ca), w')"
      using Cons.prems(1) Inr assms(3,4) by simp
    note ih = Cons.IH [OF r Cons.prems(2)]
    have new: "freshly g hh (m # ms) ?cm (mID m)" "cmID ?cm = mID m"
      using Inr by (auto simp: freshly_def fresh_msg_def)
    have mono: "freshly g hh ms cm i \<Longrightarrow> freshly g hh (m # ms) cm i" for cm i
      by (auto simp: freshly_def)
    show ?thesis
      using ih new mono by (auto simp: update_conv') (metis option.inject)
  qed
qed simp

section \<open>A coherent cache\<close>

text \<open>The Message-ID of an input is among its keys.\<close>

definition mids :: "Input list \<Rightarrow> bool" where
  "mids ins = (\<forall>i\<in>set ins. inMsgID i \<noteq> [] \<longrightarrow> ''mid:'' @ inMsgID i \<in> set (inKeys i))"

lemma set_map_filter_eq: "set (List.map_filter f xs) = {y. \<exists>x\<in>set xs. f x = Some y}"
  by (induction xs) (auto simp: List.map_filter_simps split: option.splits)

lemma cached_mids: "mids (List.map_filter (\<lambda>i. map_option cached_input (c i)) xs)"
  by (auto simp: mids_def set_map_filter_eq cached_input_def Keys_def set_MatchKeysFrom)

lemma mid_key: "''mid:'' @ x \<in> set (MatchKeysFrom mid h sur) \<longleftrightarrow> mid \<noteq> [] \<and> x = mid"
  by (auto simp: set_MatchKeysFrom)

locale incremental_session = exact_session sess inv mail cur ready
  for sess :: "'e session" and inv :: "string \<Rightarrow> 'e \<Rightarrow> bool" and mail :: "string \<Rightarrow> 'e \<Rightarrow> 'f \<times> string \<Rightarrow> string option"
    and cur :: "string \<Rightarrow> 'e \<Rightarrow> 'f option" and ready :: "string \<Rightarrow> 'e \<Rightarrow> bool" +
  assumes append_id: "side \<in> sides \<Longrightarrow> inv side s \<Longrightarrow> epAppend (endpoint sess side) fl d lit s = (Inr i, s') \<Longrightarrow> i \<noteq> []"
begin

definition ckey :: "FolderPair \<Rightarrow> string \<Rightarrow> ep_key" where
  "ckey fp side = (uName (ssU sess), PairKey (fpA fp) (fpB fp), side)"

definition crows :: "FolderPair \<Rightarrow> string \<Rightarrow> 'e world \<Rightarrow> string \<Rightarrow> CachedMsg option" where
  "crows fp side w = map_of (cache_of (ckey fp side) (sdTables (wDB w)))"

definition cm_ok :: "CachedMsg \<Rightarrow> string \<Rightarrow> bool" where
  "cm_ok cm data = (\<exists>f. ParseFields lib data hh = Inr f \<and> set (Keys (cmMsgID cm) (cmXHash cm) (cmSurrogate cm)) \<subseteq> set (MatchKeys lib f)
     \<and> cmSurrogate cm = SurrogateHash lib f)"

text \<open>Rows of messages that are in the selected folder belong to them.\<close>

definition fits :: "string \<Rightarrow> 'e world \<Rightarrow> (string \<rightharpoonup> CachedMsg) \<Rightarrow> bool" where
  "fits side w c = (\<forall>i cm data. c i = Some cm \<longrightarrow> msg side w i = Some data \<longrightarrow> cmID cm = i \<and> cm_ok cm data)"

lemma fits_cong: "same side w w' \<Longrightarrow> fits side w' c = fits side w c"
  by (simp add: fits_def same_msg)

lemma cm_ok_row: "cm_ok (cached_of i (cache_row cm)) data = cm_ok cm data" "cmID (cached_of i r) = i"
  by (simp_all add: cm_ok_def cached_of_def cache_row_def)

text \<open>The effect of the statements of the cache on the rows.\<close>

lemma rows_put:
  assumes "sdTables (wDB v') = put_cached (ckey fp side) fr (sdTables (wDB v))"
  shows "crows fp side v' i = Some cm \<Longrightarrow> crows fp side v i = Some cm \<or> (\<exists>m\<in>set fr. cmID m = i \<and> cm = cached_of i (cache_row m))"
    "side' \<noteq> side \<Longrightarrow> crows fp side' v' = crows fp side' v"
proof -
  assume "crows fp side v' i = Some cm"
  then show "crows fp side v i = Some cm \<or> (\<exists>m\<in>set fr. cmID m = i \<and> cm = cached_of i (cache_row m))"
    unfolding crows_def assms cache_of_put map_add_Some_iff by (auto dest!: map_of_SomeD)
next
  assume "side' \<noteq> side"
  then show "crows fp side' v' = crows fp side' v"
    unfolding crows_def assms by (simp add: cache_of_put_other ckey_def)
qed

lemma rows_del:
  assumes "sdTables (wDB v') = del_cached (ckey fp side) ids (sdTables (wDB v))"
  shows "crows fp side v' i = Some cm \<Longrightarrow> crows fp side v i = Some cm" "side' \<noteq> side \<Longrightarrow> crows fp side' v' = crows fp side' v"
  unfolding crows_def assms by (auto simp: fun_eq_iff map_of_cache_of del_cached_def ckey_def split: if_splits)

lemma rows_reset:
  assumes "sdTables (wDB v') = reset_endpoint (ckey fp side) (sdTables (wDB v))"
  shows "crows fp side v' i = None" "side' \<noteq> side \<Longrightarrow> crows fp side' v' = crows fp side' v"
  unfolding crows_def assms by (auto simp: fun_eq_iff map_of_cache_of reset_endpoint_def ckey_def)

lemma rows_save:
  assumes "sdTables (wDB v') = save_endpoint (ckey fp side) r (sdTables (wDB v))"
  shows "crows fp side' v' = crows fp side' v"
  unfolding crows_def assms by (auto simp: fun_eq_iff map_of_cache_of save_endpoint_def)

text \<open>Fresh rows fit.\<close>

lemma fresh_fits:
  assumes f: "freshly lib hh ms cm i" and side: "side \<in> sides" and good: "good w"
    and fetch: "epFetchMeta (endpoint sess side) ids (sd side w) = (Inr ms, st)" and d: "msg side w i = Some data"
  shows "cmID cm = i \<and> cm_ok cm data"
proof -
  obtain m x where m: "m \<in> set ms" "ParseMessage lib m hh = Inr x" "cm = fresh_msg m x" "mID m = i"
    using f by (auto simp: freshly_def)
  have "ParseFields lib (mHeader m) hh = ParseFields lib data hh"
    using exact_endpoint.fetch_header [OF exact [OF side] goodD [OF good side] fetch m(1), of lib hh] d m(4)
    by (auto simp: msg_def folder_def)
  then show ?thesis
    using m(2-4) by (auto simp: ParseMessage_def fresh_msg_def cm_ok_def Let_def Keys_def MatchKeys_def split: sum.splits)
qed

text \<open>The optional delete of the rows of messages that are gone.\<close>

lemma drop_run:
  assumes "run_state (if gone \<noteq> [] then do { r2 \<leftarrow> on_db (DeleteCachedMsgs F (uName (ssU sess)) (PairKey (fpA fp) (fpB fp)) side gone);
      record_failure us p r2 } else ret ()) v = ((), v')" "wErrs v' = wErrs v"
  shows "sd s v' = sd s v \<and> (\<exists>ids. sdTables (wDB v') = del_cached (ckey fp side) ids (sdTables (wDB v)))"
proof (cases "gone = []")
  case True
  have "del_cached k {} d = d" for k d
    by (simp add: del_cached_def tbl_del_def)
  then show ?thesis
    using assms True by (auto intro!: exI [of _ "{}"])
next
  case False
  let ?m = "DeleteCachedMsgs F (uName (ssU sess)) (PairKey (fpA fp) (fpB fp)) side gone"
  obtain r v1 where r: "run_state (on_db ?m) v = (r, v1)"
    by (cases "run_state (on_db ?m) v")
  then have "run_state (record_failure us p r) v1 = ((), v')"
    using assms(1) False by simp
  from record_failure_quiet [OF this] have "r = Inr ()" "v' = v1"
    using assms(2) run_on_db [OF r] by auto
  then show ?thesis
    using run_on_db [OF r] DeleteCachedMsgs_outcome [where F = F and user = "uName (ssU sess)" and pair = "PairKey (fpA fp) (fpB fp)"
        and side = side and ids = gone and s = "wDB v"]
    by (auto simp: ckey_def)
qed

lemma covered_rows:
  assumes cur: "set curIDs = {i. msg side w i \<noteq> None}" and full: "\<forall>i\<in>set curIDs. c i \<noteq> None" and fits: "fits side w c"
  shows "covered side w (List.map_filter (\<lambda>i. map_option cached_input (c i)) curIDs)"
proof -
  have set: "set (List.map_filter (\<lambda>i. map_option cached_input (c i)) curIDs) = {cached_input cm |i cm. i \<in> set curIDs \<and> c i = Some cm}"
    by (auto simp: set_map_filter_eq)
  have row: "\<exists>data. msg side w i = Some data \<and> cmID cm = i \<and> cm_ok cm data" if "i \<in> set curIDs" "c i = Some cm" for i cm
    using fits that cur unfolding fits_def by blast
  have id: "inID (cached_input cm) = cmID cm" "inSurrogate (cached_input cm) = cmSurrogate cm"
    "inKeys (cached_input cm) = Keys (cmMsgID cm) (cmXHash cm) (cmSurrogate cm)" for cm
    by (simp_all add: cached_input_def)
  show ?thesis
    unfolding covered_def
  proof (intro conjI ballI)
    show "set (map inID (List.map_filter (\<lambda>i. map_option cached_input (c i)) curIDs)) = {i. msg side w i \<noteq> None}"
      unfolding set_map set cur [symmetric] using full row id(1) by (fastforce simp: image_iff)
    fix x assume "x \<in> set (List.map_filter (\<lambda>i. map_option cached_input (c i)) curIDs)"
    then obtain i cm data where x: "x = cached_input cm" "msg side w i = Some data" "cmID cm = i" "cm_ok cm data"
      unfolding set using row by blast
    then show "\<exists>f. ParseFields lib (the (msg side w (inID x))) hh = Inr f \<and> ''hash:'' @ inSurrogate x \<in> set (inKeys x)
       \<and> set (inKeys x) \<subseteq> set (MatchKeys lib f) \<and> inSurrogate x = SurrogateHash lib f"
      unfolding x(1) id cm_ok_def Keys_def using surrogate_key_in by (metis option.sel)
  qed
qed

lemma finish_ok:
  assumes run: "run_state (finish_incremental sess side (PairKey (fpA fp) (fpB fp)) p validity resyncAt curIDs cached fetched) w = (Inr idx, w')"
    and quiet: "wErrs w' = wErrs w"
    and cached: "fits side w (map_of cached)" and rows: "fits side w (crows fp side w)"
    and cur: "set curIDs = {i. msg side w i \<noteq> None}"
    and fresh: "\<And>cm i data. freshly lib hh fetched cm i \<Longrightarrow> msg side w i = Some data \<Longrightarrow> cmID cm = i \<and> cm_ok cm data"
    and complete: "\<forall>i\<in>set curIDs. map_of cached i \<noteq> None \<or> i \<in> mID ` set fetched"
  shows "(\<forall>s. sd s w' = sd s w) \<and> (\<exists>ins. idx = BuildFrom ins \<and> covered side w ins \<and> mids ins) \<and> fits side w (crows fp side w')
    \<and> (\<forall>o'. o' \<noteq> side \<longrightarrow> crows fp o' w' = crows fp o' w)"
proof -
  let ?F = "evFaults (yEnv (ssS sess))" and ?u = "uName (ssU sess)" and ?pair = "PairKey (fpA fp) (fpB fp)"
  let ?gone = "filter (\<lambda>i. i \<notin> set curIDs) (evOrder (yEnv (ssS sess)) (map fst cached))"
  define tail where "tail = (\<lambda>ca. do {
      now \<leftarrow> clock (ssS sess); r3 \<leftarrow> on_db (SaveEndpoint ?F now ?u ?pair side validity resyncAt);
      record_failure (ssUs sess) (p @ ''writing endpoint: '') r3;
      ret (Inr (BuildFrom (List.map_filter (\<lambda>i. map_option cached_input (map_of (tbl_del (\<lambda>j. j \<in> set ?gone) ca) i)) curIDs))) :: ('e, Index result) sync })"
  define drop where "drop = (if ?gone \<noteq> [] then do { r2 \<leftarrow> on_db (DeleteCachedMsgs ?F ?u ?pair side ?gone);
      record_failure (ssUs sess) (p @ ''cleaning cache: '') r2 } else ret () :: ('e, unit) sync)"
  have lt: "keeps (logged es) (tail ca)" "keeps (logged es) drop" for es ca
    unfolding tail_def drop_def by (intro keeps_intros)+
  have fin: "finish_incremental sess side ?pair p validity resyncAt curIDs cached fetched = do {
      r \<leftarrow> parse_fresh sess p fetched [] cached; r1 \<leftarrow> on_db (PutCachedMsgs ?F ?u ?pair side (fst r));
      record_failure (ssUs sess) (p @ ''writing cache: '') r1; drop; tail (snd r) }"
    unfolding finish_incremental_def Let_def tail_def drop_def prod.case_eq_if by simp
  obtain fr ca v0 where 0: "run_state (parse_fresh sess p fetched [] cached) w = ((fr, ca), v0)" "wErrs v0 = wErrs w"
    and r0: "run_state (do { r1 \<leftarrow> on_db (PutCachedMsgs ?F ?u ?pair side fr); record_failure (ssUs sess) (p @ ''writing cache: '') r1; drop; tail ca }) v0 = (Inr idx, w')"
      "wErrs w' = wErrs v0"
  proof (rule quiet_bindE [OF run [unfolded fin] quiet])
    fix r v assume "run_state (parse_fresh sess p fetched [] cached) w = (r, v)" "wErrs v = wErrs w"
      "run_state (do { r1 \<leftarrow> on_db (PutCachedMsgs ?F ?u ?pair side (fst r)); record_failure (ssUs sess) (p @ ''writing cache: '') r1; drop; tail (snd r) }) v = (Inr idx, w')"
      "wErrs w' = wErrs v"
    then show thesis using that [of "fst r" "snd r" v] by simp
  qed (intro keeps_intros lt)+
  note pf = parse_fresh_ok [OF 0 refl refl]
  obtain v1 where 1: "PutCachedMsgs ?F ?u ?pair side fr (wDB w) = (Inr (), wDB v1)" "\<And>s. sd s v1 = sd s w" "wErrs v1 = wErrs w"
    and r1: "run_state (do { drop; tail ca }) v1 = (Inr idx, w')"
  proof (rule recorded_db [OF r0 keeps_bind [OF lt(2) lt(1)]])
    fix v assume "PutCachedMsgs ?F ?u ?pair side fr (wDB v0) = (Inr (), wDB v)" "\<And>s. sd s v = sd s v0" "wErrs v = wErrs v0"
      "run_state (do { drop; tail ca }) v = (Inr idx, w')"
    then show thesis
      using that [of v] pf by simp
  qed
  obtain v2 where 2: "run_state drop v1 = ((), v2)" "wErrs v2 = wErrs v1" and r2: "run_state (tail ca) v2 = (Inr idx, w')" "wErrs w' = wErrs v2"
    using quiet_bindE [OF r1 _ lt(2) lt(1)] quiet 1(3) by (metis old.unit.exhaust)
  have d2: "sd s v2 = sd s v1" "\<exists>ids. sdTables (wDB v2) = del_cached (ckey fp side) ids (sdTables (wDB v1))" for s
    using drop_run [OF 2 [unfolded drop_def]] by blast+
  obtain now v3 where 3: "run_state (clock (ssS sess)) v2 = (now, v3)"
    and r3: "run_state (do { r3 \<leftarrow> on_db (SaveEndpoint ?F now ?u ?pair side validity resyncAt); record_failure (ssUs sess) (p @ ''writing endpoint: '') r3;
      ret (Inr (BuildFrom (List.map_filter (\<lambda>i. map_option cached_input (map_of (tbl_del (\<lambda>j. j \<in> set ?gone) ca) i)) curIDs))) }) v3 = (Inr idx :: Index result, w')"
    using bind_okE [OF r2(1) [unfolded tail_def]] .
  have c3: "wDB v3 = wDB v2" "sd s v3 = sd s v2" "wErrs v3 = wErrs v2" for s
    using 3 by (auto simp: ask_def sd_def)
  obtain v4 where 4: "SaveEndpoint ?F now ?u ?pair side validity resyncAt (wDB v3) = (Inr (), wDB v4)" "\<And>s. sd s v4 = sd s v3"
    and r4: "run_state (ret (Inr (BuildFrom (List.map_filter (\<lambda>i. map_option cached_input (map_of (tbl_del (\<lambda>j. j \<in> set ?gone) ca) i)) curIDs)))) v4 = (Inr idx :: Index result, w')"
  proof (rule recorded_db [OF r3 _ keeps_ret])
    show "wErrs w' = wErrs v3"
      using r2(2) c3(3) by simp
  qed (rule that)
  have idx: "idx = BuildFrom (List.map_filter (\<lambda>i. map_option cached_input (map_of (tbl_del (\<lambda>j. j \<in> set ?gone) ca) i)) curIDs)" and w': "w' = v4"
    using r4 by auto
  note t1 = atomic_run [OF PutCachedMsgs_atomic 1(1), folded ckey_def] and t4 = atomic_run [OF SaveEndpoint_atomic 4(1), folded ckey_def]
  obtain ids where t2: "sdTables (wDB v2) = del_cached (ckey fp side) ids (sdTables (wDB v1))"
    using d2(2) by blast
  have sdw: "sd s w' = sd s w" for s
    using 1(2) d2(1) c3(2) 4(2) w' by simp
  have fca: "fits side w (map_of ca)"
    using pf cached fresh unfolding fits_def by meson
  have rows': "crows fp side w' i = Some cm \<Longrightarrow> crows fp side w i = Some cm \<or> (\<exists>m\<in>set fr. cmID m = i \<and> cm = cached_of i (cache_row m))" for i cm
    using rows_save [OF t4, of side] rows_del(1) [OF t2] rows_put(1) [OF t1] c3(1) w' by (simp add: crows_def)
  have "fits side w (crows fp side w')"
    unfolding fits_def
  proof (intro allI impI)
    fix i cm data assume "crows fp side w' i = Some cm" and d: "msg side w i = Some data"
    from rows' [OF this(1)] show "cmID cm = i \<and> cm_ok cm data"
      using rows d pf fresh cm_ok_row unfolding fits_def by (metis empty_iff empty_set)
  qed
  moreover have "crows fp o' w' = crows fp o' w" if "o' \<noteq> side" for o'
    using rows_save [OF t4, of o'] rows_del(2) [OF t2 that] rows_put(2) [OF t1 that] c3(1) w' by (simp add: crows_def)
  moreover have "covered side w (List.map_filter (\<lambda>i. map_option cached_input (map_of (tbl_del (\<lambda>j. j \<in> set ?gone) ca) i)) curIDs)"
  proof (rule covered_rows [OF cur])
    show "\<forall>i\<in>set curIDs. map_of (tbl_del (\<lambda>j. j \<in> set ?gone) ca) i \<noteq> None"
      using complete pf by auto
    show "fits side w (map_of (tbl_del (\<lambda>j. j \<in> set ?gone) ca))"
      using fca unfolding fits_def by (simp split: if_splits)
  qed
  ultimately show ?thesis
    using sdw idx cached_mids by blast
qed

lemma list_call:
  assumes "run_state (on_side side (epListIDs (endpoint sess side))) w = (r, w')" "side \<in> sides" "s \<in> sides" "good w"
  shows "good w' \<and> same s w w' \<and> wErrs w' = wErrs w"
proof (rule quiet_call [OF assms])
  fix st' assume "epListIDs (endpoint sess side) (sd side w) = (r, st')"
  from exact_endpoint.list_ready [OF exact [OF assms(2)] goodD [OF assms(4,2)] this]
    mail_endpoint.list_mail [OF law [OF assms(2)] goodD(1) [OF assms(4,2)] this]
  show "inv side st' \<and> mail side st' = mail side (sd side w) \<and> cur side st' = cur side (sd side w) \<and> ready side st'"
    by blast
qed

text \<open>The optional reset: afterwards the rows in memory and in the table fit.\<close>

lemma reset_ok:
  assumes run: "run_state (if b then do { rr \<leftarrow> on_db (ResetEndpoint F (uName (ssU sess)) (PairKey (fpA fp) (fpB fp)) side);
      case rr of Inl e \<Rightarrow> ret (Inl (wrapf q e)) | Inr _ \<Rightarrow> do { t \<leftarrow> clock (ssS sess); ret (Inr ([], t)) } }
    else ret (Inr (cached0, t0))) v = (Inr (cached, resyncAt), v')"
    and rows: "fits side w (crows fp side v)" and mem: "fits side w (map_of cached0)"
  shows "(\<forall>s. sd s v' = sd s v) \<and> wErrs v' = wErrs v \<and> fits side w (crows fp side v') \<and> fits side w (map_of cached)
    \<and> (\<forall>o'. o' \<noteq> side \<longrightarrow> crows fp o' v' = crows fp o' v)"
proof (cases b)
  case False
  then show ?thesis using run rows mem by auto
next
  case True
  let ?m = "ResetEndpoint F (uName (ssU sess)) (PairKey (fpA fp) (fpB fp)) side"
  obtain rr v1 where r: "run_state (on_db ?m) v = (rr, v1)"
    by (cases "run_state (on_db ?m) v")
  obtain t where rr: "rr = Inr ()" and t: "run_state (clock (ssS sess)) v1 = (t, v')" and c: "cached = []"
    using run True r by (cases rr) (auto simp: ask_def)
  note d = run_on_db [OF r]
  have dm: "?m (wDB v) = (Inr (), wDB v1)"
    using d rr by blast
  have tb: "sdTables (wDB v1) = reset_endpoint (ckey fp side) (sdTables (wDB v))"
    using atomic_run [OF ResetEndpoint_atomic dm] by (simp add: ckey_def)
  have v': "wDB v' = wDB v1" "sd s v' = sd s v1" "wErrs v' = wErrs v1" for s
    using t by (auto simp: ask_def sd_def)
  have cr: "crows fp o' v' = crows fp o' v1" for o'
    using v' by (simp add: crows_def)
  have "fits side w (crows fp side v')" "fits side w (map_of cached)"
    unfolding fits_def cr using rows_reset(1) [OF tb] c by simp_all
  then show ?thesis
    using d v' cr rows_reset(2) [OF tb] by simp
qed

lemma index_incremental:
  assumes run: "run_state (indexFolderIncremental sess side fp fname validity) w = (Inr idx, w')" and quiet: "wErrs w' = wErrs w"
    and side: "side \<in> sides" and good: "good w" and rows: "fits side w (crows fp side w)"
  shows "good w' \<and> (\<forall>s\<in>sides. same s w w') \<and> (\<exists>ins. idx = BuildFrom ins \<and> covered side w ins \<and> mids ins) \<and> fits side w (crows fp side w')
    \<and> (\<forall>o'. o' \<noteq> side \<longrightarrow> crows fp o' w' = crows fp o' w)"
proof -
  obtain saved cached0 v1 now v2 cached resyncAt v3 ids v4 fetched v5 where
    0: "run_state (on_db (LoadEndpoint (evFaults (yEnv (ssS sess))) (uName (ssU sess)) (PairKey (fpA fp) (fpB fp)) side)) w = (Inr (saved, cached0), v1)" and
    1: "run_state (clock (ssS sess)) v1 = (now, v2)" and
    2: "run_state (if needs_reset (ssS sess) saved validity now then do {
          rr \<leftarrow> on_db (ResetEndpoint (evFaults (yEnv (ssS sess))) (uName (ssU sess)) (PairKey (fpA fp) (fpB fp)) side);
          case rr of Inl e \<Rightarrow> ret (Inl (wrapf (folder_msg sess side fname @ ''resetting cache: '') e))
          | Inr _ \<Rightarrow> do { t \<leftarrow> clock (ssS sess); ret (Inr ([], t)) } }
        else ret (Inr (cached0, seFullResyncAt saved))) v2 = (Inr (cached, resyncAt), v3)" and
    3: "run_state (on_side side (epListIDs (endpoint sess side))) v3 = (Inr ids, v4)" and
    4: "run_state (on_side side (epFetchMeta (endpoint sess side) (nil_slice (filter (\<lambda>i. map_of cached i = None) (sort ids))))) v4 = (Inr fetched, v5)" and
    5: "run_state (finish_incremental sess side (PairKey (fpA fp) (fpB fp)) (folder_msg sess side fname) validity resyncAt (sort ids) cached fetched) v5 = (Inr idx, w')"
    by (rule incremental_stages [OF run refl refl refl refl refl])
  note d0 = run_on_db [OF 0]
  have ld0: "LoadEndpoint (evFaults (yEnv (ssS sess))) (uName (ssU sess)) (PairKey (fpA fp) (fpB fp)) side (wDB w) = (Inr (saved, cached0), wDB v1)"
    using d0 by blast
  have ld: "sdTables (wDB v1) = sdTables (wDB w)" "cached0 = [] \<or> cached0 = cache_of (ckey fp side) (sdTables (wDB w))"
    using LoadEndpoint_rows [OF ld0] by (simp_all add: ckey_def)
  have s2: "sd s v2 = sd s w" "wErrs v2 = wErrs w" "crows fp o' v2 = crows fp o' w" for s o'
    using run_ask [OF 1] d0 ld(1) 1 by (auto simp: crows_def ask_def sd_def)
  have mem: "fits side w (map_of cached0)"
    using ld(2) rows by (auto simp: fits_def crows_def)
  have r3: "(\<forall>s. sd s v3 = sd s v2) \<and> wErrs v3 = wErrs v2 \<and> fits side w (crows fp side v3) \<and> fits side w (map_of cached)
      \<and> (\<forall>o'. o' \<noteq> side \<longrightarrow> crows fp o' v3 = crows fp o' v2)"
    using reset_ok [OF 2 _ mem] rows s2(3) by simp
  have g3: "good v3" "same s w v3" for s
    using good_sd [OF good] same_sd r3 s2 by metis+
  have g4: "good v4" "s \<in> sides \<Longrightarrow> same s v3 v4" "wErrs v4 = wErrs v3" for s
    using list_call [OF 3 side _ g3(1)] side by auto
  have g5: "good v5" "s \<in> sides \<Longrightarrow> same s v4 v5" "wErrs v5 = wErrs v4" for s
    using fetch_call [OF 4 side _ g4(1)] side by auto
  have sw: "same s w v4" "same s w v5" if "s \<in> sides" for s
    using g3(2) g4(2) [OF that] g5(2) [OF that] same_trans by blast+
  have db: "wDB v5 = wDB v3"
    using 3 4 by (auto simp: on_side_def on_A_def on_B_def split: if_splits prod.splits)
  then have cr5: "crows fp o' v5 = crows fp o' v3" for o'
    by (simp add: crows_def)
  have "set ids = {i. msg side v3 i \<noteq> None}"
    using exact_endpoint.list_exact [OF exact [OF side] goodD [OF g3(1) side] run_on_side(1) [OF 3 side]]
    by (simp add: msg_def folder_def)
  then have cur: "set (sort ids) = {i. msg side v5 i \<noteq> None}"
    using same_msg [OF sw(2) [OF side]] same_msg [OF g3(2), of side] by simp
  let ?new = "filter (\<lambda>i. map_of cached i = None) (sort ids)"
  note fe = run_on_side(1) [OF 4 side]
  have complete: "\<forall>i\<in>set (sort ids). map_of cached i \<noteq> None \<or> i \<in> mID ` set fetched"
  proof (cases "?new = []")
    case True
    then show ?thesis by (auto simp: filter_empty_conv)
  next
    case False
    have "set (map mID fetched) = {i \<in> set ?new. mail side (sd side v4) (the (cur side (sd side v4)), i) \<noteq> None}"
      using exact_endpoint.fetch_some [OF exact [OF side] goodD [OF g4(1) side] False] fe False by (simp add: nil_slice_def)
    then have "set (map mID fetched) = {i \<in> set ?new. msg side v4 i \<noteq> None}"
      by (simp add: msg_def folder_def)
    moreover have "msg side v4 = msg side v5"
      using same_msg [OF g5(2) [OF side]] by simp
    ultimately show ?thesis
      using cur by auto
  qed
  have fr: "cmID cm = i \<and> cm_ok cm data" if "freshly lib hh fetched cm i" "msg side v5 i = Some data" for cm i data
    using fresh_fits [OF that(1) side g4(1) fe, of data] that(2) same_msg [OF g5(2) [OF side]] by simp
  have f5: "fits side v5 (map_of cached)" "fits side v5 (crows fp side v5)"
    using r3 fits_cong [OF sw(2) [OF side]] cr5 by auto
  have q5: "wErrs w' = wErrs v5"
    using quiet s2(2) r3 g4(3) g5(3) by simp
  note fin = finish_ok [OF 5 q5 f5 cur fr complete]
  have "good w'" "same s w w'" if "s \<in> sides" for s
    using good_sd [OF g5(1)] fin sw(2) [OF that] same_sd same_trans by metis+
  moreover have "covered side v5 ins = covered side w ins" for ins
    using listed_same [OF sw(2) [OF side]] by simp
  moreover have "fits side v5 c = fits side w c" for c
    using fits_cong [OF sw(2) [OF side]] .
  moreover have "crows fp o' w' = crows fp o' w" if "o' \<noteq> side" for o'
    using fin r3 cr5 s2(3) that by simp
  ultimately show ?thesis
    using fin side by blast
qed

section \<open>A pass\<close>

lemma syncPair_incremental_stages:
  assumes run: "run_state (syncPair sess fp) w = (None, w')" and quiet: "wErrs w' = wErrs w"
    and inv: "inv ''a'' (wA w)" "inv ''b'' (wB w)" and on: "incremental (ssS sess)"
    and rows: "\<And>x v1 y v2 side. run_state (on_A (epSelect (the (ssA sess)) (fpA fp))) w = (Inr x, v1) \<Longrightarrow>
      run_state (on_B (epSelect (the (ssB sess)) (fpB fp))) v1 = (Inr y, v2) \<Longrightarrow> side \<in> sides \<Longrightarrow> fits side v2 (crows fp side v2)"
  obtains v insA insB fA fB where
    "run_state (copy_deltas sess fp fA fB (BuildFrom insA) (BuildFrom insB)) v = ((), w')" "wErrs v = wErrs w" "good v"
    "covered ''a'' v insA" "covered ''b'' v insB" "mids insA" "mids insB"
    "\<forall>side\<in>sides. fits side v (crows fp side v)"
proof -
  obtain x v1 y v2 idxA v3 idxB v4 where
    A: "run_state (on_A (epSelect (the (ssA sess)) (fpA fp))) w = (Inr x, v1)" and
    B: "run_state (on_B (epSelect (the (ssB sess)) (fpB fp))) v1 = (Inr y, v2)" and
    IF: "run_state (indexFolder sess ''a'' fp (fst x) (snd x)) v2 = (Inr idxA, v3)"
      "run_state (indexFolder sess ''b'' fp (fst y) (snd y)) v3 = (Inr idxB, v4)" and
    C: "run_state (copy_deltas sess fp (fst x) (fst y) idxA idxB) v4 = ((), w')"
    using syncPair_ok [OF run] .
  have I: "run_state (indexFolderIncremental sess ''a'' fp (fst x) (snd x)) v2 = (Inr idxA, v3)"
    "run_state (indexFolderIncremental sess ''b'' fp (fst y) (snd y)) v3 = (Inr idxB, v4)"
    using IF on by (simp_all add: indexFolder_def)
  note sel = select_calls [OF A B inv]
  have "prefix (wErrs v2) (wErrs v3)" "prefix (wErrs v3) (wErrs v4)" "prefix (wErrs v4) (wErrs w')"
    using logged_mono [OF keeps_logged_ops(1) IF(1)] logged_mono [OF keeps_logged_ops(1) IF(2)] logged_mono [OF keeps_logged_ops(2) C] by blast+
  then have q: "wErrs v3 = wErrs v2" "wErrs v4 = wErrs v3" "wErrs v4 = wErrs w"
    using sel quiet by (metis prefix_order.antisym prefix_order.trans)+
  have g2: "good v2" using sel by simp
  have f2: "fits side v2 (crows fp side v2)" if "side \<in> sides" for side
    using rows [OF A B that] .
  obtain insA where a: "idxA = BuildFrom insA" "covered ''a'' v2 insA" "mids insA" "good v3" "\<forall>s\<in>sides. same s v2 v3"
    "fits ''a'' v2 (crows fp ''a'' v3)" "crows fp ''b'' v3 = crows fp ''b'' v2"
    using index_incremental [OF I(1) q(1) sides_ab(1) g2 f2 [OF sides_ab(1)]] by auto
  have f3: "fits ''b'' v3 (crows fp ''b'' v3)"
    using f2 [OF sides_ab(2)] a(5,7) fits_cong sides_ab by metis
  obtain insB where b: "idxB = BuildFrom insB" "covered ''b'' v3 insB" "mids insB" "good v4" "\<forall>s\<in>sides. same s v3 v4"
    "fits ''b'' v3 (crows fp ''b'' v4)" "crows fp ''a'' v4 = crows fp ''a'' v3"
    using index_incremental [OF I(2) q(2) sides_ab(2) a(4) f3] by auto
  have cov: "covered ''a'' v4 insA" "covered ''b'' v4 insB"
    using a b listed_same same_trans sides_ab by blast+
  have "fits ''a'' v4 (crows fp ''a'' v4)" "fits ''b'' v4 (crows fp ''b'' v4)"
    using a(5,6) b(5,6,7) fits_cong sides_ab by metis+
  then have "\<forall>side\<in>sides. fits side v4 (crows fp side v4)"
    by (simp add: sides_def)
  then show thesis
    using that [OF C [unfolded a(1) b(1)] q(3) b(4) cov a(3) b(3)] by blast
qed

text \<open>The row written for a copy belongs to the copy.\<close>

lemma copied_row_ok:
  assumes tag: "tag_name hh" and cov: "covered src w ins" "mids ins" and e: "e \<in> set (Missing (BuildFrom ins) idx)"
  shows "cm_ok (copied_msg j e) (copy_of src w e)"
proof -
  obtain i where i: "i \<in> set ins" "e = entry_of i"
    using Missing_entry [OF e] by blast
  obtain f where f: "ParseFields lib (the (msg src w (inID i))) hh = Inr f" "set (inKeys i) \<subseteq> set (MatchKeys lib f)" "inSurrogate i = SurrogateHash lib f"
    using coveredD [OF cov(1) i(1)] by metis
  obtain f' where f': "ParseFields lib (copy_of src w e) hh = Inr f'" "SurrogateHash lib f' = SurrogateHash lib f" "fMessageID f' = fMessageID f"
    using ParseFields_inject [OF tag f(1)] f(3) i(2) by (auto simp: copy_of_def SurrogateHash_def)
  have "inMsgID i \<noteq> [] \<Longrightarrow> inMsgID i = fMessageID f"
    using cov(2) i(1) f(2) mid_key unfolding mids_def MatchKeys_def by blast
  then have "set (Keys (inMsgID i) (inSurrogate i) (inSurrogate i)) \<subseteq> set (MatchKeys lib f')"
    using f(3) f'(2,3) by (auto simp: Keys_def MatchKeys_def set_MatchKeysFrom)
  then show ?thesis
    using f(3) f'(1,2) i(2) by (simp add: cm_ok_def copied_msg_def entry_of_def)
qed

text \<open>Writing the rows of the copies keeps the cache coherent.\<close>

lemma fits_put:
  assumes tb: "sdTables (wDB v') = put_cached (ckey fp side) cache (sdTables (wDB v))"
    and old: "fits side w (crows fp side v)"
    and grown: "\<And>i data. msg side w i = Some data \<Longrightarrow> msg side w' i = Some data"
    and new: "\<And>i. msg side w i = None \<Longrightarrow> msg side w' i \<noteq> None \<Longrightarrow> i \<in> cmID ` set cache"
    and ok: "\<And>cm. cm \<in> set cache \<Longrightarrow> \<exists>data. msg side w' (cmID cm) = Some data \<and> cm_ok cm data"
  shows "fits side w' (crows fp side v')"
  unfolding fits_def
proof (intro allI impI)
  fix i cm data assume c: "crows fp side v' i = Some cm" and d: "msg side w' i = Some data"
  let ?m = "map_of (rev (map (\<lambda>m. (cmID m, cached_of (cmID m) (cache_row m))) cache))"
  have row: "crows fp side v' i = (crows fp side v ++ ?m) i"
    unfolding crows_def tb cache_of_put ..
  show "cmID cm = i \<and> cm_ok cm data"
  proof (cases "?m i")
    case None
    then have "crows fp side v i = Some cm"
      using c row by (simp add: map_add_def)
    moreover have "i \<notin> cmID ` set cache"
      using None by (auto simp: map_of_eq_None_iff image_image)
    from this have "msg side w i = Some data"
      using new [of i] grown [of i] d by (cases "msg side w i") auto
    ultimately show ?thesis
      using old unfolding fits_def by blast
  next
    case (Some r)
    then obtain m where m: "m \<in> set cache" "cmID m = i" "r = cached_of i (cache_row m)"
      by (auto dest!: map_of_SomeD)
    then show ?thesis
      using ok [OF m(1)] c row Some d cm_ok_row by (auto simp: map_add_def)
  qed
qed

lemma put_back_run:
  assumes "run_state (put_back sess (PairKey (fpA fp) (fpB fp)) side p cache) v = ((), v')" "wErrs v' = wErrs v"
  shows "sdTables (wDB v') = put_cached (ckey fp side) cache (sdTables (wDB v))"
proof (cases "cache = []")
  case True
  then show ?thesis
    using assms by (simp add: put_back_def put_cached_def)
next
  case False
  let ?m = "PutCachedMsgs (evFaults (yEnv (ssS sess))) (uName (ssU sess)) (PairKey (fpA fp) (fpB fp)) side cache"
  have run: "run_state (State_Monad.bind (on_db ?m) (\<lambda>r. State_Monad.bind (record_failure (ssUs sess) p r) ret)) v = ((), v')"
    using assms(1) False by (simp add: put_back_def)
  obtain v1 where v1: "?m (wDB v) = (Inr (), wDB v1)" "run_state (ret ()) v1 = ((), v')"
    by (rule recorded_db [OF run assms(2) keeps_ret])
  then show ?thesis
    using atomic_run [OF PutCachedMsgs_atomic v1(1)] by (simp add: ckey_def)
qed


lemma write_back_run:
  assumes run: "run_state (write_back fp fA fB cacheB cacheA) v = ((), w')" and quiet: "wErrs w' = wErrs v" and on: "incremental (ssS sess)"
  obtains u :: "'e world" where "sdTables (wDB u) = put_cached (ckey fp ''b'') cacheB (sdTables (wDB v))"
    "sdTables (wDB w') = put_cached (ckey fp ''a'') cacheA (sdTables (wDB u))"
proof (rule quiet_bindE [OF run [unfolded write_back_def if_P [OF on]] quiet])
  fix y u
  assume "run_state (put_back sess (PairKey (fpA fp) (fpB fp)) ''b'' (''user '' @ uName (ssU sess) @ '', folder B '' @ quote_str (yUT (ssS sess)) fB
      @ '': post-write to cache: '') cacheB) v = (y, u)" and q: "wErrs u = wErrs v"
    and "run_state (put_back sess (PairKey (fpA fp) (fpB fp)) ''a'' (''user '' @ uName (ssU sess) @ '', folder A '' @ quote_str (yUT (ssS sess)) fA
      @ '': post-write to cache: '') cacheA) u = ((), w')" and q': "wErrs w' = wErrs u"
  from put_back_run [OF this(1) [unfolded unit_eq [of y]] q] put_back_run [OF this(3) q'] show thesis
    by (rule that)
qed (unfold put_back_def, (intro keeps_intros)+)

lemma pass_fits:
  assumes tb: "sdTables (wDB v') = put_cached (ckey fp dst) cache (sdTables (wDB v))" and old: "fits dst w (crows fp dst v)"
    and cov: "tag_name hh" "covered src w ins" "mids ins" and c: "copied src dst (Missing (BuildFrom ins) idx) w w'"
    and rows: "rows_ok src dst (Missing (BuildFrom ins) idx) w w' cache" and all: "all_rows dst w w' cache" and nm: named
  shows "fits dst w' (crows fp dst v')"
proof (rule fits_put [OF tb old])
  show "msg dst w' i = Some data" if "msg dst w i = Some data" for i data
    using copied_old [OF c] that by simp
  show "i \<in> cmID ` set cache" if "msg dst w i = None" "msg dst w' i \<noteq> None" for i
    using all nm that by (simp add: all_rows_def)
  show "\<exists>data. msg dst w' (cmID cm) = Some data \<and> cm_ok cm data" if cm: "cm \<in> set cache" for cm
  proof -
    obtain e j where e: "e \<in> set (Missing (BuildFrom ins) idx)" "cm = copied_msg j e" "msg dst w' j = Some (copy_of src w e)"
      using rows cm unfolding rows_ok_def by blast
    then show ?thesis
      using copied_row_ok [OF cov e(1)] by (simp add: copied_msg_def)
  qed
qed

text \<open>A clean incremental pass is a pass over complete listings, and leaves a coherent cache.\<close>

lemma incremental_pass:
  assumes run: "run_state (syncPair sess fp) w = (None, w')" and quiet: "wErrs w' = wErrs w"
    and inv: "inv ''a'' (wA w)" "inv ''b'' (wB w)" and on: "incremental (ssS sess)"
    and tag: "tag_name hh" and allow: "allowAToB sess" "allowBToA sess"
    and rows: "\<And>x v1 y v2 side. run_state (on_A (epSelect (the (ssA sess)) (fpA fp))) w = (Inr x, v1) \<Longrightarrow>
      run_state (on_B (epSelect (the (ssB sess)) (fpB fp))) v1 = (Inr y, v2) \<Longrightarrow> side \<in> sides \<Longrightarrow> fits side v2 (crows fp side v2)"
  shows "(\<exists>v insA insB. passed v w' insA insB) \<and> (\<forall>side\<in>sides. fits side w' (crows fp side w'))"
proof -
  obtain v insA insB fA fB where
    C: "run_state (copy_deltas sess fp fA fB (BuildFrom insA) (BuildFrom insB)) v = ((), w')" "wErrs v = wErrs w" "good v"
    and cov: "covered ''a'' v insA" "covered ''b'' v insB" "mids insA" "mids insB" and f: "\<forall>side\<in>sides. fits side v (crows fp side v)"
    by (rule syncPair_incremental_stages [OF run quiet inv on rows])
  have nm: named
    using append_id on by (auto simp: named_def)
  have q: "wErrs w' = wErrs v" using C(2) quiet by simp
  note d = copy_deltas_ok [OF C(1) q C(3) allow cov(1,2)]
  then obtain u cacheB cacheA where p: "passed v w' insA insB" and u: "wDB u = wDB v" "wErrs u = wErrs v"
    and wb: "run_state (write_back fp fA fB cacheB cacheA) u = ((), w')"
    and rB: "rows_ok ''a'' ''b'' (Missing (BuildFrom insA) (BuildFrom insB)) v w' cacheB" "all_rows ''b'' v w' cacheB"
    and rA: "rows_ok ''b'' ''a'' (Missing (BuildFrom insB) (BuildFrom insA)) v w' cacheA" "all_rows ''a'' v w' cacheA"
    by blast
  have qu: "wErrs w' = wErrs u" using q u by simp
  obtain t :: "'e world" where t: "sdTables (wDB t) = put_cached (ckey fp ''b'') cacheB (sdTables (wDB u))"
    "sdTables (wDB w') = put_cached (ckey fp ''a'') cacheA (sdTables (wDB t))"
    by (rule write_back_run [OF wb qu on])
  have cp: "copied ''a'' ''b'' (Missing (BuildFrom insA) (BuildFrom insB)) v w'" "copied ''b'' ''a'' (Missing (BuildFrom insB) (BuildFrom insA)) v w'"
    using p by (simp_all add: passed_def)
  have cu: "crows fp s u = crows fp s v" for s
    using u by (simp add: crows_def)
  have ne: "''b'' \<noteq> ''a''" "''a'' \<noteq> ''b''" by simp_all
  have "fits ''b'' v (crows fp ''b'' u)" "fits ''a'' v (crows fp ''a'' t)"
    using f sides_ab rows_put(2) [OF t(1) ne(2)] by (simp_all add: cu)
  from pass_fits [OF t(1) this(1) tag cov(1,3) cp(1) rB nm] pass_fits [OF t(2) this(2) tag cov(2,4) cp(2) rA nm]
  have "fits ''b'' w' (crows fp ''b'' t)" "fits ''a'' w' (crows fp ''a'' w')" .
  then have "\<forall>side\<in>sides. fits side w' (crows fp side w')"
    using rows_put(2) [OF t(2) ne(1)] by (simp add: sides_def)
  then show ?thesis
    using p by blast
qed

end

section \<open>Two Maildirs with a state database\<close>

lemma mdAppend_id: "mdAppend E fl d lit s = (Inr i, s') \<Longrightarrow> i \<noteq> []"
  by (auto simp: mdAppend_def md_deliver_def Let_def unique_name_def split: option.splits prod.splits sum.splits)

interpretation mdi: incremental_session "md_session EA EB env cfg st ctx u us" "\<lambda>side. md_inv (if side = ''b'' then EB else EA)"
  "\<lambda>_. md_mail" "\<lambda>_. mdFolder" "\<lambda>_. md_ready" for EA EB env cfg st ctx u us
  by unfold_locales (auto dest: mdAppend_id)

text \<open>The cached rows of one side of a folder pair, and their coherence with the selected folder: the row of a
  message that is in the folder has that message's ID and surrogate, and its keys are keys of the message.\<close>

definition cache_rows :: "User \<Rightarrow> FolderPair \<Rightarrow> string \<Rightarrow> 'e world \<Rightarrow> string \<Rightarrow> CachedMsg option" where
  "cache_rows u fp side w = map_of (cache_of (uName u, PairKey (fpA fp) (fpB fp), side) (sdTables (wDB w)))"

definition row_belongs :: "golib \<Rightarrow> string \<Rightarrow> CachedMsg \<Rightarrow> string \<Rightarrow> bool" where
  "row_belongs g hh cm data = (case ParseFields g data hh of Inl _ \<Rightarrow> False
     | Inr f \<Rightarrow> set (Keys (cmMsgID cm) (cmXHash cm) (cmSurrogate cm)) \<subseteq> set (MatchKeys g f) \<and> cmSurrogate cm = SurrogateHash g f)"

definition coherent :: "golib \<Rightarrow> string \<Rightarrow> (string \<Rightarrow> CachedMsg option) \<Rightarrow> maildir \<Rightarrow> bool" where
  "coherent g hh c s = (\<forall>i cm d. c i = Some cm \<longrightarrow> md_selected s i = Some d \<longrightarrow> cmID cm = i \<and> row_belongs g hh cm d)"

lemma md_fits:
  "mdi.fits EA EB env cfg st ctx u us side w c = coherent (evLib env) (cHashHeader cfg) c (if side = ''b'' then wB w else wA w)"
proof -
  have ok: "mdi.cm_ok EA EB env cfg st ctx u us cm d = row_belongs (evLib env) (cHashHeader cfg) cm d" for cm d
    by (auto simp: mdi.cm_ok_def row_belongs_def split: sum.splits)
  show ?thesis
    unfolding mdi.fits_def coherent_def md_msg ok ..
qed

lemma md_rows: "mdi.crows EA EB env cfg st ctx u us fp side w = cache_rows u fp side w"
  unfolding mdi.crows_def mdi.ckey_def cache_rows_def by (simp add: md_session_def)

text \<open>C5: the incremental mode is as good as the full one: from a coherent cache, a clean pass over a pair of Maildirs leaves
  every message of the folder on either side with a counterpart on the other (up to duplicates within
  its folder), just as a pass that reads every message does, and it leaves the cache coherent with both folders.\<close>
theorem incremental_pass_counterparts:
  assumes "md_inv EA (wA w)" and "md_inv EB (wB w)" and "tag_name (cHashHeader cfg)"
    and "cStateCache cfg" and "cDirection cfg = DirectionBoth"
    and "run_state (syncPair (md_session EA EB env cfg True ctx u us) fp) w = (None, w')" and "wErrs w' = wErrs w"
    and "\<forall>x s. mdSelect EA (fpA fp) (wA w) = (Inr x, s) \<longrightarrow> coherent (evLib env) (cHashHeader cfg) (cache_rows u fp ''a'' w) s"
    and "\<forall>x s. mdSelect EB (fpB fp) (wB w) = (Inr x, s) \<longrightarrow> coherent (evLib env) (cHashHeader cfg) (cache_rows u fp ''b'' w) s"
    and "K = data_keys (evLib env) (cHashHeader cfg)"
  shows "(\<forall>i d. md_selected (wA w') i = Some d \<longrightarrow> (\<exists>i' d' j e. md_selected (wA w') i' = Some d' \<and> md_selected (wB w') j = Some e
      \<and> K d \<inter> K d' \<noteq> {} \<and> K d' \<inter> K e \<noteq> {}))
    \<and> (\<forall>j e. md_selected (wB w') j = Some e \<longrightarrow> (\<exists>j' e' i d. md_selected (wB w') j' = Some e' \<and> md_selected (wA w') i = Some d
      \<and> K e \<inter> K e' \<noteq> {} \<and> K e' \<inter> K d \<noteq> {}))
    \<and> coherent (evLib env) (cHashHeader cfg) (cache_rows u fp ''a'' w') (wA w')
    \<and> coherent (evLib env) (cHashHeader cfg) (cache_rows u fp ''b'' w') (wB w')"
proof -
  let ?sess = "md_session EA EB env cfg True ctx u us"
  have rows: "mdi.fits EA EB env cfg True ctx u us side v2 (mdi.crows EA EB env cfg True ctx u us fp side v2)"
    if a: "run_state (on_A (epSelect (the (ssA ?sess)) (fpA fp))) w = (Inr x, v1)"
      and b: "run_state (on_B (epSelect (the (ssB ?sess)) (fpB fp))) v1 = (Inr y, v2)" and "side \<in> sides" for x y v1 v2 side
  proof -
    have "mdSelect EA (fpA fp) (wA w) = (Inr x, wA v2)" "mdSelect EB (fpB fp) (wB w) = (Inr y, wB v2)" "wDB v2 = wDB w"
      using a b by (auto simp: md_session_def on_A_def on_B_def split: prod.splits)
    then show ?thesis
      using assms(8,9) that(3) by (auto simp: md_fits md_rows cache_rows_def sides_def)
  qed
  have pass: "(\<exists>v insA insB. mdx.passed EA EB env cfg True ctx u us v w' insA insB)
      \<and> (\<forall>side\<in>sides. mdi.fits EA EB env cfg True ctx u us side w' (mdi.crows EA EB env cfg True ctx u us fp side w'))"
    using mdi.incremental_pass [OF assms(6,7) _ _ _ _ _ _ rows] assms(1-5) by (simp add: direction_names)
  then obtain v insA insB where p: "mdx.passed EA EB env cfg True ctx u us v w' insA insB"
    by blast
  have "coherent (evLib env) (cHashHeader cfg) (cache_rows u fp ''a'' w') (wA w')"
    "coherent (evLib env) (cHashHeader cfg) (cache_rows u fp ''b'' w') (wB w')"
    using pass sides_ab by (auto simp: md_fits md_rows)
  then show ?thesis
    using md_counterparts [OF assms(3) p] unfolding assms(10) by blast
qed

section \<open>Example\<close>

text \<open>Two Maildirs with the same message and an empty database.\<close>

definition icfg_ex :: Config where
  "icfg_ex = sync_cfg_ex\<lparr>cStateCache := True, cFullResyncEvery := 0\<rparr>"

abbreviation isess_ex :: "maildir session" where
  "isess_ex \<equiv> md_session env_ex env_ex senv_ex icfg_ex True ctx_ex (usr_ex ''u'') 0"

definition cached_ex :: CachedMsg where
  "cached_ex = fresh_msg meta_ex input_ex"

lemma isess_ex_sel:
  "the (ssA isess_ex) = maildirEndpoint env_ex" "the (ssB isess_ex) = maildirEndpoint env_ex" "ssUs isess_ex = 0" "ssCtx isess_ex = ctx_ex"
  "cHashHeader icfg_ex = hh_ex" "cDirection icfg_ex = DirectionBoth" "ssU isess_ex = usr_ex ''u''" "uName (usr_ex ''u'') = ''u''"
  "cStateCache icfg_ex" "cFullResyncEvery icfg_ex = 0" "evFaults senv_ex = (\<lambda>_. None)" "evNow senv_ex = (\<lambda>_. 5)" "evOrder senv_ex = id"
  by (simp_all add: md_session_def icfg_ex_def sync_cfg_ex_def senv_ex_def usr_ex_def)

lemma load_ex:
  assumes "map_of (tEndpoint (sdTables s)) (user, pair, side) = None"
  shows "\<exists>s'. LoadEndpoint (\<lambda>_. None) user pair side s = (Inr (no_endpoint, []), s') \<and> sdTables s' = sdTables s"
  using assms by (simp add: LoadEndpoint_def db_defs)

lemma put_ex: "\<exists>s'. PutCachedMsgs (\<lambda>_. None) user pair side [cm] s = (Inr (), s') \<and> tEndpoint (sdTables s') = tEndpoint (sdTables s)"
proof -
  have "fst (PutCachedMsgs (\<lambda>_. None) user pair side [cm] s) = Inr ()"
    by (simp add: PutCachedMsgs_def db_tx_def db_defs)
  then obtain s' where s': "PutCachedMsgs (\<lambda>_. None) user pair side [cm] s = (Inr (), s')"
    by (metis prod.collapse)
  then show ?thesis
    using atomic_run [OF PutCachedMsgs_atomic s'] by (simp add: put_cached_def)
qed

lemma save_ex: "\<exists>s'. SaveEndpoint (\<lambda>_. None) now user pair side v r s = (Inr (), s')
    \<and> (\<forall>k. k \<noteq> (user, pair, side) \<longrightarrow> map_of (tEndpoint (sdTables s')) k = map_of (tEndpoint (sdTables s)) k)"
  by (simp add: SaveEndpoint_def db_defs Let_def update_conv')

lemma fetch_new_ex: "\<exists>k'. mdFetchMeta env_ex (Some [''m'']) (full_ex k files_ex) = (Inr [meta_ex], full_ex k' files_ex)"
  by (auto simp: mdFetchMeta_def os_Stat_def readHeaderBlock_def os_ReadFile_def sys_def env_ex_def tick_def full_ex_def
      mdir_ex_def mail_box_ex_def dirs_ex_def node_meta_def meta_ex_def flagsFromName_def str_index.simps)

lemma parse_ex_msg: "ParseMessage lib_ex meta_ex hh_ex = Inr input_ex"
proof -
  have "ParseFields lib_ex (header_block raw_ex) hh_ex = Inr fields_ex"
    unfolding fields_ex_def header_block_parse by (rule parse_ex)
  then show ?thesis
    by (simp add: ParseMessage_def meta_ex_def Let_def input_ex_def fields_ex_def MatchKeys_def)
qed


lemma index_inc_ex:
  assumes s: "sd side w = full_ex k files_ex" "side \<in> sides"
    and n: "map_of (tEndpoint (sdTables (wDB w))) (''u'', PairKey [] [], side) = None"
  shows "\<exists>w' k'. run_state (indexFolderIncremental isess_ex side inbox_ex f v) w = (Inr (BuildFrom [cached_input cached_ex]), w')
    \<and> wErrs w' = wErrs w \<and> sd side w' = full_ex k' files_ex \<and> (\<forall>o'\<in>sides. o' \<noteq> side \<longrightarrow> sd o' w' = sd o' w)
    \<and> (\<forall>x. x \<noteq> (''u'', PairKey [] [], side) \<longrightarrow> map_of (tEndpoint (sdTables (wDB w'))) x = map_of (tEndpoint (sdTables (wDB w))) x)"
proof -
  obtain d1 where L: "LoadEndpoint (\<lambda>_. None) ''u'' (PairKey [] []) side (wDB w) = (Inr (no_endpoint, []), d1)" "sdTables d1 = sdTables (wDB w)"
    using load_ex [OF n] by blast
  obtain d2 where P: "PutCachedMsgs (\<lambda>_. None) ''u'' (PairKey [] []) side [cached_ex] d1 = (Inr (), d2)" "tEndpoint (sdTables d2) = tEndpoint (sdTables d1)"
    using put_ex by blast
  obtain d3 where S: "SaveEndpoint (\<lambda>_. None) 5 ''u'' (PairKey [] []) side v (seFullResyncAt no_endpoint) d2 = (Inr (), d3)"
    "\<And>x. x \<noteq> (''u'', PairKey [] [], side) \<Longrightarrow> map_of (tEndpoint (sdTables d3)) x = map_of (tEndpoint (sdTables d2)) x"
    using save_ex by blast
  obtain k' where F: "mdFetchMeta env_ex (Some [''m'']) (full_ex k files_ex) = (Inr [meta_ex], full_ex k' files_ex)"
    using fetch_new_ex by blast
  have ids: "mdListIDs env_ex (full_ex k files_ex) = (Inr [''m''], full_ex k files_ex)"
    by (simp add: mdListIDs_def full_ex_def)
  have no: "needs_reset (md_syncer env_ex env_ex senv_ex icfg_ex True) no_endpoint v 5 = False"
    by (simp add: needs_reset_def no_endpoint_def isess_ex_sel)
  have id: "mID meta_ex = ''m''" "cmID cached_ex = ''m''"
    by (simp_all add: meta_ex_def cached_ex_def fresh_msg_def)
  have fin: "parse_fresh isess_ex p [meta_ex] [] [] = ret ([cached_ex], [(''m'', cached_ex)])" for p
    by (simp add: isess_ex_sel sess_ex_sel parse_ex_msg id flip: cached_ex_def)
  have tb: "\<forall>x. x \<noteq> (''u'', PairKey [] [], side) \<longrightarrow> map_of (tEndpoint (sdTables d3)) x = map_of (tEndpoint (sdTables (wDB w))) x"
    using L(2) P(2) S(2) by simp
  note eval = indexFolderIncremental_def Let_def on_db_def on_side_def on_A_def on_B_def ask_def isess_ex_sel inbox_ex_def no ids F
    nil_slice_def finish_incremental_def fin record_failure_def List.map_filter_simps sides_def sd_def
  show ?thesis
  proof (cases "side = ''b''")
    case True
    show ?thesis
      using s(1) tb by (simp add: eval L(1) [unfolded True] P(1) [unfolded True] S(1) [unfolded True] True del: parse_fresh.simps) blast
  next
    case False
    then have a: "side = ''a''" using s(2) by (simp add: sides_def)
    show ?thesis
      using s(1) tb by (simp add: eval L(1) [unfolded a] P(1) [unfolded a] S(1) [unfolded a] a del: parse_fresh.simps) blast
  qed
qed

lemma delta_equal:
  assumes "inKeys x \<noteq> []"
  shows "Delta (BuildFrom [x]) (BuildFrom [x]) = ([], [])"
proof -
  have "ixEntries (BuildFrom [x]) = [entry_of x]"
    using BuildFrom_disjoint [of "[x]"] by simp
  then show ?thesis
    using assms by (simp add: Delta_def Missing_eq BuildFrom_inv ekeys_def entry_of_def)
qed

lemma pass_inc_ex:
  "\<exists>w'. run_state (syncPair isess_ex inbox_ex) (sync_wld_ex (full_ex 0 []) (full_ex 0 [])) = (None, w') \<and> wErrs w' = []"
proof -
  let ?w = "sync_wld_ex (full_ex 0 []) (full_ex 0 [])"
  obtain k1 k2 where S: "mdSelect env_ex [] (full_ex 0 []) = (Inr (''INBOX'', ''maildir''), full_ex k1 files_ex)"
    "mdSelect env_ex [] (full_ex 0 []) = (Inr (''INBOX'', ''maildir''), full_ex k2 files_ex)"
    using select_ex(1) by metis
  define w1 where "w1 = ?w\<lparr>wA := full_ex k1 files_ex, wB := full_ex k2 files_ex\<rparr>"
  have n: "map_of (tEndpoint (sdTables (wDB w1))) k = None" "wErrs w1 = []" for k
    by (simp_all add: w1_def sync_wld_ex_def wld_ex_def empty_db_def)
  obtain w2 l1 where 2: "run_state (indexFolderIncremental isess_ex ''a'' inbox_ex ''INBOX'' ''maildir'') w1 = (Inr (BuildFrom [cached_input cached_ex]), w2)"
    "wErrs w2 = []" "sd ''b'' w2 = full_ex k2 files_ex" "map_of (tEndpoint (sdTables (wDB w2))) (''u'', PairKey [] [], ''b'') = None"
    using index_inc_ex [of "''a''" w1 k1 "''INBOX''" "''maildir''", OF _ sides_ab(1) n(1)] n sides_ab
    by (auto simp: w1_def sd_def)
  obtain w3 where 3: "run_state (indexFolderIncremental isess_ex ''b'' inbox_ex ''INBOX'' ''maildir'') w2 = (Inr (BuildFrom [cached_input cached_ex]), w3)"
    "wErrs w3 = []"
    using index_inc_ex [OF 2(3) sides_ab(2) 2(4), of "''INBOX''" "''maildir''"] 2(2) by metis
  have d: "Delta (BuildFrom [cached_input cached_ex]) (BuildFrom [cached_input cached_ex]) = ([], [])"
    by (rule delta_equal) (simp add: cached_input_def Keys_def)
  have sel: "run_state (on_A (mdSelect env_ex [])) ?w = (Inr (''INBOX'', ''maildir''), ?w\<lparr>wA := full_ex k1 files_ex\<rparr>)"
    "run_state (on_B (mdSelect env_ex [])) (?w\<lparr>wA := full_ex k1 files_ex\<rparr>) = (Inr (''INBOX'', ''maildir''), w1)"
    using S by (simp_all add: on_A_def on_B_def w1_def sync_wld_ex_def wld_ex_def)
  show ?thesis
    using 2(1) 3 sel by (simp add: syncPair_def Let_def indexFolder_def inbox_ex_def isess_ex_sel copy_deltas_def copyMissing_def d on_stats_def put_back_def)
qed

text \<open>No row is cached yet.\<close>

lemma coherent_ex: "coherent g hh (cache_rows u fp side (sync_wld_ex a b)) s"
  by (simp add: coherent_def cache_rows_def sync_wld_ex_def wld_ex_def empty_db_def cache_of_def)

theorem incremental_pass_counterparts_witness:
  "\<exists>w'. run_state (syncPair isess_ex inbox_ex) (sync_wld_ex (full_ex 0 []) (full_ex 0 [])) = (None, w')
     \<and> coherent lib_ex hh_ex (cache_rows (usr_ex ''u'') inbox_ex ''a'' w') (wA w')
     \<and> coherent lib_ex hh_ex (cache_rows (usr_ex ''u'') inbox_ex ''b'' w') (wB w')"
proof -
  obtain w' where r: "run_state (syncPair isess_ex inbox_ex) (sync_wld_ex (full_ex 0 []) (full_ex 0 [])) = (None, w')" "wErrs w' = []"
    using pass_inc_ex by blast
  show ?thesis
    using incremental_pass_counterparts [OF _ _ _ _ _ r(1) _ _ _ refl] r coherent_ex full_ex_inv tag_name_ex
    by (simp add: sync_wld_ex_def wld_ex_def sess_ex_sel isess_ex_sel)
qed

end
