(* ===== verification/Imap.thy ===== *)
theory Imap
  imports Endpoint
begin

text \<open>
  The IMAP transport: package \<^verbatim>\<open>mailbox\<close>'s client (\<^verbatim>\<open>internal/mailbox/client.go\<close>) and the endpoint on top of it
  (\<^verbatim>\<open>internal/endpoint/imap.go\<close>). The library \<^verbatim>\<open>go-imap\<close> is a parameter: the record \<open>imaplib\<close> has the calls the
  client makes, as functions on the state \<open>'s\<close> of the connection and the server. The goroutine of \<^verbatim>\<open>watch\<close>,
  which terminates the connection when the context is cancelled, is part of that environment: any call may
  fail at any time. A call that sends its results on a channel and its error on another gives both.
\<close>

section \<open>The library\<close>

record MailboxInfo =
  miAttributes :: "string list"
  miDelimiter :: string
  miName :: string

record MailboxStatus =
  mbMessages :: "32 word"
  mbUidValidity :: "32 word"

text \<open>A fetched message; \<open>None\<close> for a section that \<^verbatim>\<open>GetBody\<close> does not find. Reading the header may fail.\<close>

record ImapMessage =
  imsSeqNum :: "32 word"
  imsUid :: "32 word"
  imsFlags :: "string list"
  imsInternalDate :: time
  imsSize :: "32 word"
  imsHeader :: "string result option"
  imsBody :: "Literal option"

record StatusResp =
  rsErr :: "goerr option"
  rsCode :: string
  rsArguments :: "string list"

datatype fetch_items = HeaderItems | FullItems

record 's imaplib =
  ilDial :: "string \<Rightarrow> 's \<Rightarrow> goerr option \<times> 's"
  ilAuthenticate :: "string \<Rightarrow> string \<Rightarrow> string \<Rightarrow> 's \<Rightarrow> goerr option \<times> 's"
  ilLogout :: "'s \<Rightarrow> 's"
  ilList :: "'s \<Rightarrow> (MailboxInfo list \<times> goerr option) \<times> 's"
  ilCreate :: "string \<Rightarrow> 's \<Rightarrow> goerr option \<times> 's"
  ilSelect :: "string \<Rightarrow> 's \<Rightarrow> MailboxStatus result \<times> 's"
  ilFetch :: "32 word \<times> 32 word \<Rightarrow> 's \<Rightarrow> (ImapMessage list \<times> goerr option) \<times> 's"
  ilUidFetch :: "fetch_items \<Rightarrow> 32 word list \<Rightarrow> 's \<Rightarrow> (ImapMessage list \<times> goerr option) \<times> 's"
  ilUidSearch :: "'s \<Rightarrow> 32 word list result \<times> 's"
  ilAppend :: "string \<Rightarrow> string list \<Rightarrow> time \<Rightarrow> Literal \<Rightarrow> 's \<Rightarrow> StatusResp result \<times> 's"
  ilParseNumber :: "string \<Rightarrow> 32 word option"

section \<open>The client\<close>

text \<open>The fields of \<^verbatim>\<open>Client\<close> and \<^verbatim>\<open>imapEndpoint\<close> with the connection. An empty \<open>imFolders\<close> is the nil cache.\<close>

record 's imap =
  imConn :: 's
  imServer :: string
  imUser :: string
  imFolders :: "MailboxInfo list"
  imClosed :: bool
  imFolder :: string
  imCount :: "32 word"

abbreviation on_conn :: "('s \<Rightarrow> 'x \<times> 's) \<Rightarrow> 's imap \<Rightarrow> 'x \<times> 's imap" where
  "on_conn f s \<equiv> (case f (imConn s) of (x, c) \<Rightarrow> (x, s\<lparr>imConn := c\<rparr>))"

definition who :: "'s imap \<Rightarrow> string" where
  "who s = '' on '' @ imServer s @ '' (user '' @ imUser s @ '')''"

text \<open>
  \<^verbatim>\<open>debugLogWriter.Write\<close>: the lines that are logged and the partial line that stays in the buffer.
\<close>

function debug_lines :: "string \<Rightarrow> string list \<times> string" where
  "debug_lines buf = (case str_index [CHR 0x0A] buf of
     None \<Rightarrow> ([], buf)
   | Some i \<Rightarrow> (let line = rev (dropWhile (\<lambda>c. c = CHR 0x0D) (rev (take i buf))); (ls, rest) = debug_lines (drop (Suc i) buf)
       in (if line \<noteq> [] then line # ls else ls, rest)))"
  by pat_completeness auto
termination
proof (relation "measure length")
  fix buf i assume "str_index [CHR 0x0A] buf = Some i"
  then show "(drop (Suc i) buf, buf) \<in> measure length"
    using str_index_bound [of "[CHR 0x0A]" buf i] by auto
qed simp

declare debug_lines.simps [simp del]

definition debug_write :: "string \<Rightarrow> string \<Rightarrow> string list \<times> string" where
  "debug_write buf p = debug_lines (buf @ p)"

text \<open>
  \<^verbatim>\<open>Connect\<close>; \<open>tls\<close> is the outcome of \<^verbatim>\<open>srv.TLSConfig\<close>, whose result only the library reads. The debug log,
  with the \<^verbatim>\<open>CAPABILITY\<close> call made for it, is left out.
\<close>

definition Connect :: "'s imaplib \<Rightarrow> (Server \<Rightarrow> goerr option) \<Rightarrow> Server \<Rightarrow> string \<Rightarrow> 's imap \<Rightarrow> goerr option \<times> 's imap" where
  "Connect L tls srv targetUser s =
     (let addr = Addr srv; msg = ''connecting to '' @ addr @ '' (user '' @ targetUser @ ''): '' in
      case tls srv of
        Some e \<Rightarrow> (Some (wrapf msg e), s)
      | None \<Rightarrow> (case on_conn (ilDial L addr) s of
          (Some e, s1) \<Rightarrow> (Some (wrapf msg e), s1)
        | (None, s1) \<Rightarrow> (case on_conn (ilAuthenticate L targetUser (sMasterUser srv) (sMasterPass srv)) s1 of
            (Some e, s2) \<Rightarrow> (Some (wrapf (''impersonating '' @ targetUser @ '' on '' @ addr @ '' via master '' @ sMasterUser srv @ '': '') e),
              s2\<lparr>imConn := ilLogout L (imConn s2)\<rparr>)
          | (None, s2) \<Rightarrow> (None, s2\<lparr>imServer := addr, imUser := targetUser, imFolders := [], imClosed := False, imFolder := [], imCount := 0\<rparr>))))"

definition Logout :: "'s imaplib \<Rightarrow> 's imap \<Rightarrow> 's imap" where
  "Logout L s = s\<lparr>imClosed := True, imConn := ilLogout L (imConn s)\<rparr>"

section \<open>Folders\<close>

definition specialUseAttrs :: "string set" where
  "specialUseAttrs = {bslash ''All'', bslash ''Archive'', bslash ''Drafts'', bslash ''Flagged'', bslash ''Junk'', bslash ''Sent'', bslash ''Trash''}"

definition listFolders :: "'s imaplib \<Rightarrow> 's imap \<Rightarrow> MailboxInfo list result \<times> 's imap" where
  "listFolders L s =
     (if imFolders s \<noteq> [] then (Inr (imFolders s), s)
      else case on_conn (ilList L) s of
        ((_, Some e), s1) \<Rightarrow> (Inl (wrapf (''LIST'' @ who s @ '': '') e), s1)
      | ((out, None), s1) \<Rightarrow> (Inr out, s1\<lparr>imFolders := out\<rparr>))"

fun folderDelimiter :: "MailboxInfo list \<Rightarrow> string" where
  "folderDelimiter [] = ''/''"
| "folderDelimiter (m # infos) = (if miDelimiter m \<noteq> [] then miDelimiter m else folderDelimiter infos)"

text \<open>The search of \<^verbatim>\<open>ResolveFolder\<close> in the listed folders: attribute, exact name, native name, name up to case.\<close>

definition find_special :: "utab \<Rightarrow> MailboxInfo list \<Rightarrow> string \<Rightarrow> MailboxInfo option" where
  "find_special ut infos name = (if name \<in> specialUseAttrs then find (\<lambda>m. \<exists>a\<in>set (miAttributes m). equal_fold ut a name) infos else None)"

definition find_native :: "utab \<Rightarrow> MailboxInfo list \<Rightarrow> string \<Rightarrow> MailboxInfo option" where
  "find_native ut infos name =
     (let delim = folderDelimiter infos in
      if delim \<noteq> [] \<and> delim \<noteq> ''/'' \<and> str_contains name ''/''
      then (let native = replace_str ''/'' delim name in find (\<lambda>m. miName m = native \<or> equal_fold ut (miName m) native) infos)
      else None)"

definition resolve :: "utab \<Rightarrow> MailboxInfo list \<Rightarrow> string \<Rightarrow> MailboxInfo option" where
  "resolve ut infos name =
     (case find_special ut infos name of Some m \<Rightarrow> Some m | None \<Rightarrow>
      case find (\<lambda>m. miName m = name) infos of Some m \<Rightarrow> Some m | None \<Rightarrow>
      case find_native ut infos name of Some m \<Rightarrow> Some m | None \<Rightarrow>
      find (\<lambda>m. equal_fold ut (miName m) name) infos)"

definition ResolveFolder :: "utab \<Rightarrow> 's imaplib \<Rightarrow> string \<Rightarrow> 's imap \<Rightarrow> string result \<times> 's imap" where
  "ResolveFolder ut L name s =
     (case listFolders L s of
        (Inl e, s1) \<Rightarrow> (Inl e, s1)
      | (Inr infos, s1) \<Rightarrow> (case resolve ut infos name of
          Some m \<Rightarrow> (Inr (miName m), s1)
        | None \<Rightarrow> (Inl (errnew (''folder '' @ quote_str ut name @ '' not found'' @ who s @ ''; available: '' @ str_join '', '' (map miName infos))), s1)))"

fun attr_loop :: "utab \<Rightarrow> string list \<Rightarrow> FolderInfo \<Rightarrow> FolderInfo" where
  "attr_loop ut [] fi = fi"
| "attr_loop ut (a # as) fi =
     (let fi1 = (if equal_fold ut a (bslash ''Noselect'') then fi\<lparr>fiSelectable := False\<rparr> else fi)
      in attr_loop ut as (if a \<in> specialUseAttrs then fi1\<lparr>fiSpecialUse := a\<rparr> else fi1))"

definition canonical_name :: "utab \<Rightarrow> string \<Rightarrow> string \<Rightarrow> string" where
  "canonical_name ut delim n =
     (let name = (if delim \<noteq> [] \<and> delim \<noteq> ''/'' then replace_str delim ''/'' n else n)
      in if equal_fold ut name ''INBOX'' then ''INBOX'' else name)"

definition ListFolders :: "utab \<Rightarrow> 's imaplib \<Rightarrow> 's imap \<Rightarrow> FolderInfo list result \<times> 's imap" where
  "ListFolders ut L s =
     (case listFolders L s of
        (Inl e, s1) \<Rightarrow> (Inl e, s1)
      | (Inr infos, s1) \<Rightarrow> (Inr (map (\<lambda>m. attr_loop ut (miAttributes m)
            \<lparr>fiName = canonical_name ut (folderDelimiter infos) (miName m), fiSpecialUse = [], fiSelectable = True\<rparr>) infos), s1))"

definition native_name :: "string \<Rightarrow> string \<Rightarrow> string" where
  "native_name delim name = (if delim \<noteq> [] \<and> delim \<noteq> ''/'' then replace_str ''/'' delim name else name)"

definition CreateMailbox :: "utab \<Rightarrow> 's imaplib \<Rightarrow> string \<Rightarrow> 's imap \<Rightarrow> goerr option \<times> 's imap" where
  "CreateMailbox ut L name s =
     (case listFolders L s of
        (Inl e, s1) \<Rightarrow> (Some e, s1)
      | (Inr infos, s1) \<Rightarrow>
          (let native = native_name (folderDelimiter infos) name in
           case on_conn (ilCreate L native) s1 of
             (Some e, s2) \<Rightarrow> (Some (wrapf (''CREATE '' @ quote_str ut native @ who s @ '': '') e), s2)
           | (None, s2) \<Rightarrow> (None, s2\<lparr>imFolders := []\<rparr>)))"

definition Select :: "utab \<Rightarrow> 's imaplib \<Rightarrow> string \<Rightarrow> 's imap \<Rightarrow> MailboxStatus result \<times> 's imap" where
  "Select ut L name s =
     (case on_conn (ilSelect L name) s of
        (Inl e, s1) \<Rightarrow> (Inl (wrapf (''SELECT '' @ quote_str ut name @ who s @ '': '') e), s1)
      | (Inr st, s1) \<Rightarrow> (Inr st, s1))"

section \<open>Messages\<close>

record FetchedMessage =
  fmSeqNum :: "32 word"
  fmUid :: "32 word"
  fmFlags :: "string list"
  fmInternalDate :: time
  fmSize :: "32 word"
  fmHeader :: string

abbreviation uid_str :: "32 word \<Rightarrow> string" where "uid_str u \<equiv> nat_str (unat u)"

definition decodeHeaderMsg :: "'s imap \<Rightarrow> ImapMessage \<Rightarrow> FetchedMessage result" where
  "decodeHeaderMsg s msg =
     (let fm = \<lparr>fmSeqNum = imsSeqNum msg, fmUid = imsUid msg, fmFlags = imsFlags msg, fmInternalDate = imsInternalDate msg,
                fmSize = imsSize msg, fmHeader = []\<rparr>
      in case imsHeader msg of
           None \<Rightarrow> Inr fm
         | Some (Inl e) \<Rightarrow> Inl (wrapf (''reading headers uid='' @ uid_str (imsUid msg) @ who s @ '': '') e)
         | Some (Inr raw) \<Rightarrow> Inr (fm\<lparr>fmHeader := raw\<rparr>))"

fun decode_all :: "'s imap \<Rightarrow> ImapMessage list \<Rightarrow> FetchedMessage list result" where
  "decode_all s [] = Inr []"
| "decode_all s (m # ms) = (case decodeHeaderMsg s m of Inl e \<Rightarrow> Inl e
     | Inr fm \<Rightarrow> (case decode_all s ms of Inl e \<Rightarrow> Inl e | Inr fms \<Rightarrow> Inr (fm # fms)))"

text \<open>One batch: the messages of the channel are decoded, then the error of the command is looked at.\<close>

definition fetch_batch :: "(ImapMessage list \<times> goerr option) \<Rightarrow> string \<Rightarrow> 's imap \<Rightarrow> FetchedMessage list result" where
  "fetch_batch r what s = (case decode_all s (fst r) of
     Inl e \<Rightarrow> Inl e
   | Inr fms \<Rightarrow> (case snd r of Some e \<Rightarrow> Inl (wrapf (what @ who s @ '': '') e) | None \<Rightarrow> Inr fms))"

text \<open>
  The loop of \<^verbatim>\<open>FetchHeaders\<close> counts in 32 bits and may wrap around; \<open>None\<close> is a loop that does not return.
\<close>

partial_function (option) fetch_ranges :: "'s imaplib \<Rightarrow> 32 word \<Rightarrow> 32 word \<Rightarrow> 32 word \<Rightarrow> FetchedMessage list \<Rightarrow> 's imap
    \<Rightarrow> (FetchedMessage list result \<times> 's imap) option" where
  "fetch_ranges L batch cnt from out s =
     (if from \<le> cnt then
        (let to = min (from + batch - 1) cnt; rs = on_conn (ilFetch L (from, to)) s in
         case fetch_batch (fst rs) (''FETCH headers '' @ uid_str from @ '':'' @ uid_str to) s of
           Inl e \<Rightarrow> Some (Inl e, snd rs)
         | Inr fms \<Rightarrow> fetch_ranges L batch cnt (from + batch) (out @ fms) (snd rs))
      else Some (Inr out, s))"

definition FetchHeaders :: "'s imaplib \<Rightarrow> 32 word \<Rightarrow> int \<Rightarrow> 's imap \<Rightarrow> (FetchedMessage list result \<times> 's imap) option" where
  "FetchHeaders L cnt batchSize s =
     (if cnt = 0 then Some (Inr [], s) else fetch_ranges L (word_of_int batchSize) cnt 1 [] s)"

definition UIDSearchAll :: "'s imaplib \<Rightarrow> 's imap \<Rightarrow> 32 word list result \<times> 's imap" where
  "UIDSearchAll L s =
     (case on_conn (ilUidSearch L) s of
        (Inl e, s1) \<Rightarrow> (Inl (wrapf (''UID SEARCH'' @ who s @ '': '') e), s1)
      | (Inr uids, s1) \<Rightarrow> (Inr uids, s1))"

text \<open>The loop of \<^verbatim>\<open>FetchHeadersByUID\<close> over the UIDs that are left; \<open>n\<close> is the positive batch size.\<close>

function fetch_uids :: "'s imaplib \<Rightarrow> nat \<Rightarrow> 32 word list \<Rightarrow> FetchedMessage list \<Rightarrow> 's imap \<Rightarrow> FetchedMessage list result \<times> 's imap" where
  "fetch_uids L n uids out s =
     (if uids = [] \<or> n = 0 then (Inr out, s)
      else (let rs = on_conn (ilUidFetch L HeaderItems (take n uids)) s in
        case fetch_batch (fst rs) (''FETCH headers by UID ('' @ itoa (int (length (take n uids))) @ '' of them)'') s of
          Inl e \<Rightarrow> (Inl e, snd rs)
        | Inr fms \<Rightarrow> fetch_uids L n (drop n uids) (out @ fms) (snd rs)))"
  by pat_completeness auto
termination by (relation "measure (\<lambda>(L, n, uids, out, s). length uids)") auto

declare fetch_uids.simps [simp del]

definition FetchHeadersByUID :: "'s imaplib \<Rightarrow> 32 word list \<Rightarrow> int \<Rightarrow> 's imap \<Rightarrow> FetchedMessage list result \<times> 's imap" where
  "FetchHeadersByUID L uids batchSize s =
     (if uids = [] then (Inr [], s)
      else fetch_uids L (if batchSize < 1 then length uids else nat batchSize) uids [] s)"

text \<open>The last body that was sent is kept.\<close>

fun last_body :: "ImapMessage list \<Rightarrow> Literal option \<Rightarrow> Literal option" where
  "last_body [] lit = lit"
| "last_body (m # ms) lit = last_body ms (case imsBody m of Some b \<Rightarrow> Some b | None \<Rightarrow> lit)"

definition FetchFullLiteral :: "'s imaplib \<Rightarrow> 32 word \<Rightarrow> 's imap \<Rightarrow> Literal result \<times> 's imap" where
  "FetchFullLiteral L uid s =
     (case on_conn (ilUidFetch L FullItems [uid]) s of
        ((_, Some e), s1) \<Rightarrow> (Inl (wrapf (''FETCH body uid='' @ uid_str uid @ who s @ '': '') e), s1)
      | ((msgs, None), s1) \<Rightarrow> (case last_body msgs None of
          None \<Rightarrow> (Inl (errnew (''message uid='' @ uid_str uid @ '' not found'' @ who s)), s1)
        | Some lit \<Rightarrow> (Inr lit, s1)))"

definition append_msg :: "utab \<Rightarrow> string \<Rightarrow> 's imap \<Rightarrow> string" where
  "append_msg ut folder s = ''APPEND to '' @ quote_str ut folder @ who s @ '': ''"

definition AppendLiteral :: "utab \<Rightarrow> 's imaplib \<Rightarrow> string \<Rightarrow> string list \<Rightarrow> time \<Rightarrow> Literal \<Rightarrow> 's imap \<Rightarrow> 32 word result \<times> 's imap" where
  "AppendLiteral ut L folder flags date msg s =
     (case on_conn (ilAppend L folder flags date msg) s of
        (Inl e, s1) \<Rightarrow> (Inl (wrapf (append_msg ut folder s) e), s1)
      | (Inr status, s1) \<Rightarrow> (case rsErr status of
          Some e \<Rightarrow> (Inl (wrapf (append_msg ut folder s) e), s1)
        | None \<Rightarrow> (case rsArguments status of
            [_, n] \<Rightarrow> (if rsCode status = ''APPENDUID'' then (case ilParseNumber L n of Some uid \<Rightarrow> (Inr uid, s1) | None \<Rightarrow> (Inr 0, s1)) else (Inr 0, s1))
          | _ \<Rightarrow> (Inr 0, s1))))"

definition AppendBytes :: "utab \<Rightarrow> 's imaplib \<Rightarrow> string \<Rightarrow> string list \<Rightarrow> time \<Rightarrow> string \<Rightarrow> 's imap \<Rightarrow> goerr option \<times> 's imap" where
  "AppendBytes ut L folder flags date body s =
     (case AppendLiteral ut L folder flags date (Buffer body) s of (Inl e, s1) \<Rightarrow> (Some e, s1) | (Inr _, s1) \<Rightarrow> (None, s1))"

section \<open>The endpoint\<close>

text \<open>\<^verbatim>\<open>strconv.ParseUint(id, 10, 32)\<close>.\<close>

definition parseUID :: "utab \<Rightarrow> string \<Rightarrow> 32 word result" where
  "parseUID ut i =
     (let fail = (\<lambda>why. Inl (errnew (''invalid UID '' @ quote_str ut i @ '': strconv.ParseUint: parsing '' @ quote_str ut i @ '': '' @ why)))
      in if i = [] \<or> \<not> list_all is_digit i then fail ''invalid syntax''
         else if str_nat i \<ge> 2 ^ 32 then fail ''value out of range''
         else Inr (of_nat (str_nat i)))"

definition uidStr :: "32 word \<Rightarrow> string" where "uidStr u = nat_str (unat u)"

definition imSelect :: "utab \<Rightarrow> 's imaplib \<Rightarrow> string \<Rightarrow> 's imap \<Rightarrow> (string \<times> string) result \<times> 's imap" where
  "imSelect ut L name s =
     (case ResolveFolder ut L name s of
        (Inl e, s1) \<Rightarrow> (Inl e, s1)
      | (Inr real, s1) \<Rightarrow> (case Select ut L real s1 of
          (Inl e, s2) \<Rightarrow> (Inl e, s2)
        | (Inr st, s2) \<Rightarrow> (Inr (real, uidStr (mbUidValidity st)), s2\<lparr>imFolder := real, imCount := mbMessages st\<rparr>)))"

definition imListIDs :: "'s imaplib \<Rightarrow> 's imap \<Rightarrow> string list result \<times> 's imap" where
  "imListIDs L s = (case UIDSearchAll L s of (Inl e, s1) \<Rightarrow> (Inl e, s1) | (Inr uids, s1) \<Rightarrow> (Inr (map uidStr uids), s1))"

fun parse_uids :: "utab \<Rightarrow> string list \<Rightarrow> 32 word list result" where
  "parse_uids ut [] = Inr []"
| "parse_uids ut (i # is) = (case parseUID ut i of Inl e \<Rightarrow> Inl e
     | Inr u \<Rightarrow> (case parse_uids ut is of Inl e \<Rightarrow> Inl e | Inr us \<Rightarrow> Inr (u # us)))"

definition meta_of :: "FetchedMessage \<Rightarrow> EMessage" where
  "meta_of m = \<lparr>mID = uidStr (fmUid m), mFlags = fmFlags m, mInternalDate = fmInternalDate m, mSize = fmSize m, mHeader = fmHeader m\<rparr>"

text \<open>A \<^verbatim>\<open>FetchHeaders\<close> that does not return is shown as an error.\<close>

definition imFetchMeta :: "utab \<Rightarrow> 's imaplib \<Rightarrow> int \<Rightarrow> string list option \<Rightarrow> 's imap \<Rightarrow> EMessage list result \<times> 's imap" where
  "imFetchMeta ut L batch ids s =
     (case (case ids of
              None \<Rightarrow> (case FetchHeaders L (imCount s) batch s of Some r \<Rightarrow> r | None \<Rightarrow> (Inl (errnew ''FetchHeaders does not return''), s))
            | Some li \<Rightarrow> (case parse_uids ut li of Inl e \<Rightarrow> (Inl e, s) | Inr uids \<Rightarrow> FetchHeadersByUID L uids batch s)) of
        (Inl e, s1) \<Rightarrow> (Inl e, s1)
      | (Inr fms, s1) \<Rightarrow> (Inr (map meta_of fms), s1))"

definition imOpen :: "utab \<Rightarrow> 's imaplib \<Rightarrow> string \<Rightarrow> 's imap \<Rightarrow> Literal result \<times> 's imap" where
  "imOpen ut L i s = (case parseUID ut i of Inl e \<Rightarrow> (Inl e, s) | Inr u \<Rightarrow> FetchFullLiteral L u s)"

definition imAppend :: "utab \<Rightarrow> 's imaplib \<Rightarrow> string list \<Rightarrow> time \<Rightarrow> Literal \<Rightarrow> 's imap \<Rightarrow> string result \<times> 's imap" where
  "imAppend ut L flags date body s =
     (case AppendLiteral ut L (imFolder s) flags date body s of
        (Inl e, s1) \<Rightarrow> (Inl e, s1)
      | (Inr uid, s1) \<Rightarrow> if uid = 0 then (Inr [], s1) else (Inr (uidStr uid), s1))"

definition imapEndpoint :: "utab \<Rightarrow> 's imaplib \<Rightarrow> int \<Rightarrow> 's imap Endpoint" where
  "imapEndpoint ut L batch = \<lparr>epSelect = imSelect ut L, epListIDs = imListIDs L, epFetchMeta = imFetchMeta ut L batch, epOpen = imOpen ut L,
     epAppend = imAppend ut L, epReadOnly = False, epClose = Logout L, epListFolders = Some (ListFolders ut L),
     epCreateFolder = Some (CreateMailbox ut L)\<rparr>"

definition newIMAPBackend :: "utab \<Rightarrow> 's imaplib \<Rightarrow> (Server \<Rightarrow> goerr option) \<Rightarrow> int \<Rightarrow> Server \<Rightarrow> 's imap Backend" where
  "newIMAPBackend ut L tls batch srv = \<lparr>bConnect = (\<lambda>user s. case Connect L tls srv user s of
       (Some e, s1) \<Rightarrow> (Inl e, s1) | (None, s1) \<Rightarrow> (Inr (imapEndpoint ut L batch), s1)), bAddr = Addr srv\<rparr>"

section \<open>Identifiers\<close>

lemma parseUID_inverse: "parseUID ut (uidStr u) = Inr u"
proof -
  have "unat u < 2 ^ 32"
    using unsigned_less [of u] by simp
  then show ?thesis
    using nat_str_digits [of "unat u"] by (simp add: parseUID_def uidStr_def Let_def)
qed

text \<open>The message IDs of an IMAP endpoint are faithful: every UID is parsed back from the ID made of it, so an ID that a
  listing gave always opens that message, and two messages never share an ID.\<close>
theorem parseUID_uidStr: "parseUID ut (uidStr u) = Inr u \<and> (uidStr u = uidStr v \<longleftrightarrow> u = v)"
  using parseUID_inverse by (metis sum.inject(2))

section \<open>Folder names\<close>

lemma slash_not_INBOX: "CHR ''/'' \<in> set r \<Longrightarrow> \<not> equal_fold ut r ''INBOX''"
proof -
  assume "CHR ''/'' \<in> set r"
  then have "ascii_lower 47 \<in> set (fold_key ut r)"
    using ascii_in_fold [of "CHR ''/''" r ut] by simp
  moreover have "ascii_lower 47 \<notin> set (fold_key ut ''INBOX'')"
    by (simp add: fold_key_def runes_ascii_Cons fold_rune_def ascii_lower_def runes.simps(1))
  ultimately show ?thesis
    unfolding equal_fold_def by metis
qed

text \<open>No two folders of a list have the same name up to case.\<close>

definition fold_unique :: "utab \<Rightarrow> MailboxInfo list \<Rightarrow> bool" where
  "fold_unique ut infos = (\<forall>x\<in>set infos. \<forall>y\<in>set infos. equal_fold ut (miName x) (miName y) \<longrightarrow> x = y)"

lemma resolve_plain:
  assumes "m \<in> set infos" and uniq: "fold_unique ut infos" and n: "n = (if equal_fold ut (miName m) ''INBOX'' then ''INBOX'' else miName m)"
    and sp: "find_special ut infos n = None" and ntv: "find_native ut infos n = None"
  shows "resolve ut infos n = Some m"
proof (cases "equal_fold ut (miName m) ''INBOX''")
  case True
  have "find (\<lambda>x. equal_fold ut (miName x) ''INBOX'') infos = Some m"
    by (rule find_unique) (use assms(1) uniq True in \<open>auto simp: fold_unique_def dest: equal_fold_sym intro: equal_fold_trans\<close>)
  moreover have "y = m" if "find (\<lambda>x. miName x = ''INBOX'') infos = Some y" for y
    using that assms(1) uniq True unfolding fold_unique_def find_Some_iff by (metis nth_mem)
  then have "find (\<lambda>x. miName x = ''INBOX'') infos \<in> {None, Some m}"
    by (cases "find (\<lambda>x. miName x = ''INBOX'') infos") auto
  ultimately show ?thesis
    using ntv sp n True by (auto simp: resolve_def)
next
  case False
  have "find (\<lambda>x. miName x = miName m) infos = Some m"
    by (rule find_unique) (use assms(1) uniq in \<open>auto simp: fold_unique_def\<close>)
  then show ?thesis
    using sp n False by (simp add: resolve_def)
qed

lemma resolve_native:
  assumes "m \<in> set infos" and uniq: "fold_unique ut infos" and "folderDelimiter infos = [d]"
    and no: "\<forall>x\<in>set infos. CHR ''/'' \<notin> set (miName x)" and n: "n = map (\<lambda>x. if x = d then CHR ''/'' else x) (miName m)"
    and slash: "CHR ''/'' \<in> set n" "d \<noteq> CHR ''/''" and sp: "find_special ut infos n = None"
  shows "resolve ut infos n = Some m"
proof -
  have bk: "map (\<lambda>x. if x = CHR ''/'' then d else x) n = miName m"
    using slash assms(1) no by (auto simp: n intro!: map_idI)
  have "find (\<lambda>x. miName x = miName m \<or> equal_fold ut (miName x) (miName m)) infos = Some m"
    by (rule find_unique) (use assms(1) uniq in \<open>auto simp: fold_unique_def\<close>)
  then have "find_native ut infos n = Some m"
    using slash assms(3) bk by (simp add: find_native_def Let_def replace_str_char str_contains_char)
  moreover have "find (\<lambda>x. miName x = n) infos = None"
    using slash no unfolding find_None_iff by metis
  ultimately show ?thesis
    by (simp add: resolve_def sp)
qed



text \<open>
  The search for a native name stops at the first folder that is equal up to case, also when the exact name comes later.
\<close>

lemma resolve_prefers_earlier_case:
  "map_option miName (resolve ut_ex [\<lparr>miAttributes = [], miDelimiter = ''.'', miName = ''x.A''\<rparr>, \<lparr>miAttributes = [], miDelimiter = ''.'', miName = ''x.a''\<rparr>] ''x/a'')
     = Some ''x.A''"
  by (simp add: resolve_def find_special_def find_native_def specialUseAttrs_def bslash_def replace_str_char str_contains_char
      equal_fold_ascii ascii_def ascii_lower_def)

section \<open>The debug log\<close>

lemma debug_lines_none: "CHR 0x0A \<notin> set b \<Longrightarrow> debug_lines b = ([], b)"
  by (subst debug_lines.simps) (simp add: iffD2 [OF str_index_char_None])

lemma debug_lines_some: "CHR 0x0A \<notin> set w \<Longrightarrow> debug_lines (w @ CHR 0x0A # r) =
    (let line = rev (dropWhile (\<lambda>c. c = CHR 0x0D) (rev w)) in (if line \<noteq> [] then line # fst (debug_lines r) else fst (debug_lines r), snd (debug_lines r)))"
  by (subst debug_lines.simps) (simp add: str_index_first Let_def split: prod.split)

lemma debug_lines_append: "debug_lines (b @ q) = (fst (debug_lines b) @ fst (debug_lines (snd (debug_lines b) @ q)), snd (debug_lines (snd (debug_lines b) @ q)))"
proof (induction b rule: length_induct)
  case (1 b)
  show ?case
  proof (cases "CHR 0x0A \<in> set b")
    case False
    then show ?thesis by (simp add: debug_lines_none)
  next
    case True
    then obtain w r where b: "b = w @ CHR 0x0A # r" "CHR 0x0A \<notin> set w"
      by (metis split_list_first)
    have "length r < length b" using b by simp
    note ih = 1 [rule_format, OF this]
    show ?thesis
      using b ih debug_lines_some [OF b(2), of r] debug_lines_some [OF b(2), of "r @ q"] by (simp add: Let_def)
  qed
qed


text \<open>However the wire traffic is cut into writes, the same lines are logged.\<close>

theorem debug_write_chunks:
  "debug_write b (p @ q) = (fst (debug_write b p) @ fst (debug_write (snd (debug_write b p)) q), snd (debug_write (snd (debug_write b p)) q))"
  using debug_lines_append [of "b @ p" q] by (simp add: debug_write_def)

section \<open>Fetching in batches\<close>

lemma decode_all_append: "decode_all s (xs @ ys) = (case decode_all s xs of Inl e \<Rightarrow> Inl e
    | Inr a \<Rightarrow> (case decode_all s ys of Inl e \<Rightarrow> Inl e | Inr b \<Rightarrow> Inr (a @ b)))"
  by (induction xs) (auto split: sum.splits)

lemma decode_all_user: "decode_all s ms = Inr fms \<Longrightarrow> decode_all s' ms = Inr fms"
proof (induction ms arbitrary: fms)
  case (Cons m ms)
  then show ?case
    by (auto simp: decodeHeaderMsg_def Let_def split: sum.splits option.splits)
qed simp

lemma decode_parts:
  assumes "decode_all s (xs @ ys) = Inr fms"
  obtains a b where "decode_all s xs = Inr a" "decode_all s ys = Inr b" "fms = a @ b"
  using assms by (auto simp: decode_all_append split: sum.splits)

text \<open>
  A server with the messages \<open>ms\<close> in the selected folder: as long as the connection satisfies \<open>ok\<close>, a range of
  sequence numbers gives the messages of that range.
\<close>

definition serves :: "'s imaplib \<Rightarrow> ('s \<Rightarrow> bool) \<Rightarrow> ImapMessage list \<Rightarrow> bool" where
  "serves L ok ms = (\<forall>c a b. ok c \<longrightarrow> 1 \<le> a \<longrightarrow> a \<le> b \<longrightarrow> b \<le> length ms \<longrightarrow>
     (\<exists>c'. ilFetch L (of_nat a, of_nat b) c = ((take (b - a + 1) (drop (a - 1) ms), None), c') \<and> ok c'))"

lemma fetch_ranges_complete:
  assumes sv: "serves L ok ms" and n: "0 < n" "length ms + n < 2 ^ 32" and cnt: "cnt = of_nat (length ms)"
  shows "p \<le> length ms + n - 1 \<Longrightarrow> ok (imConn s) \<Longrightarrow> decode_all s (drop p ms) = Inr fms \<Longrightarrow>
    \<exists>s'. fetch_ranges L (of_nat n) cnt (of_nat (Suc p)) out s = Some (Inr (out @ fms), s') \<and> ok (imConn s')"
proof (induction "length ms + n - p" arbitrary: p out s fms rule: less_induct)
  case less
  have u: "unat (of_nat k :: 32 word) = k" if "k < 2 ^ 32" for k
    using that by (simp add: unat_of_nat)
  have le: "(of_nat (Suc p) :: 32 word) \<le> cnt \<longleftrightarrow> Suc p \<le> length ms"
    using u [of "Suc p"] u [of "length ms"] less.prems(1) n unfolding cnt word_le_nat_alt by linarith
  show ?case
  proof (cases "Suc p \<le> length ms")
    case False
    then show ?thesis
      using less.prems le by (subst fetch_ranges.simps) auto
  next
    case True
    let ?to = "min (p + n) (length ms)"
    have t: "min (of_nat (Suc p) + of_nat n - 1) cnt = (of_nat ?to :: 32 word)"
    proof -
      have "of_nat (Suc p) + of_nat n - 1 = (of_nat (p + n) :: 32 word)"
        by simp
      moreover have "unat (of_nat (p + n) :: 32 word) = p + n" "unat (of_nat (length ms) :: 32 word) = length ms"
        using u [of "p + n"] u [of "length ms"] True n by linarith+
      ultimately show ?thesis
        unfolding cnt by (simp add: min_def word_le_nat_alt)
    qed
    have "1 \<le> Suc p" "Suc p \<le> ?to" "?to \<le> length ms"
      using True n(1) by auto
    then obtain c where c: "ilFetch L (of_nat (Suc p), of_nat ?to) (imConn s) = ((take (?to - Suc p + 1) (drop (Suc p - 1) ms), None), c)" "ok c"
      using sv less.prems(2) unfolding serves_def by blast
    have tk: "take (?to - Suc p + 1) (drop (Suc p - 1) ms) = take n (drop p ms)"
      using True n(1) by (simp add: min_def Suc_diff_Suc)
    obtain a b where ab: "decode_all s (take n (drop p ms)) = Inr a" "decode_all s (drop (p + n) ms) = Inr b" "fms = a @ b"
      by (rule decode_parts [of s "take n (drop p ms)" "drop (p + n) ms" fms]) (use less.prems(3) in \<open>simp add: add.commute flip: drop_drop\<close>)
    let ?s1 = "s\<lparr>imConn := c\<rparr>"
    have "\<exists>s'. fetch_ranges L (of_nat n) cnt (of_nat (Suc (p + n))) (out @ a) ?s1 = Some (Inr ((out @ a) @ b), s') \<and> ok (imConn s')"
      by (rule less.hyps) (use True n c(2) decode_all_user [OF ab(2)] in auto)
    moreover have "fetch_ranges L (of_nat n) cnt (of_nat (Suc p)) out s = fetch_ranges L (of_nat n) cnt (of_nat (Suc p) + of_nat n) (out @ a) ?s1"
      using True le t c(1) tk ab(1) by (subst fetch_ranges.simps) (simp add: Let_def fetch_batch_def)
    ultimately show ?thesis
      using ab(3) by (simp add: add.assoc add.commute add.left_commute)
  qed
qed

text \<open>C16: fetching a folder in batches returns and gives every message exactly once, in order, whatever the batch size: on a
  server that answers ranges of sequence numbers, \<^verbatim>\<open>FetchHeaders\<close> gives what one fetch of all messages
  would give, as long as the 32-bit counter has room for one more batch.\<close>
theorem FetchHeaders_complete:
  assumes "serves L ok ms" and "ok (imConn s)" and "decode_all s ms = Inr fms"
    and "1 \<le> batch" and "int (length ms) + batch < 2 ^ 32"
  shows "\<exists>s'. FetchHeaders L (of_nat (length ms)) batch s = Some (Inr fms, s') \<and> ok (imConn s')"
proof (cases "ms = []")
  case True
  then show ?thesis
    using assms(2,3) by (simp add: FetchHeaders_def)
next
  case False
  have b: "(word_of_int batch :: 32 word) = of_nat (nat batch)"
    using assms(4) by simp
  have "int (length ms) < 2 ^ 32"
    using assms(4,5) by linarith
  then have "length ms < 2 ^ 32"
    by simp
  then have "unat (of_nat (length ms) :: 32 word) = length ms"
    by (simp add: unat_of_nat)
  with False have nz: "(of_nat (length ms) :: 32 word) \<noteq> 0"
    by (metis length_0_conv unat_0)
  have "\<exists>s'. fetch_ranges L (of_nat (nat batch)) (of_nat (length ms)) (of_nat (Suc 0)) [] s = Some (Inr ([] @ fms), s') \<and> ok (imConn s')"
    by (rule fetch_ranges_complete [OF assms(1)]) (use assms in \<open>auto simp: nat_less_iff\<close>)
  then show ?thesis
    using nz by (simp add: FetchHeaders_def b)
qed

section \<open>What is relied on of a server\<close>

text \<open>
  \<open>store c ((a, f), u)\<close> is the message with UID \<open>u\<close> in mailbox \<open>f\<close> of account \<open>a\<close>; \<open>acct c\<close> is the account the
  connection is authenticated for. A new connection is not authenticated, and a successful AUTHENTICATE PLAIN gives the
  account of the authorization identity (RFC 4616). Commands other than APPEND keep all messages; a completed
  APPEND stores the literal under a new UID of a mailbox of that account, which the APPENDUID code names if it is
  there (RFC 3501 6.3.11, RFC 4315); an APPEND that fails may have stored something there, but
  changes no message.
\<close>

type_synonym 's mailstore = "'s \<Rightarrow> (string \<times> string) \<times> 32 word \<Rightarrow> string option"

record 's server_view =
  svOK :: "'s \<Rightarrow> bool"
  svAcct :: "'s \<Rightarrow> string option"
  svStore :: "'s mailstore"

definition quiet :: "'s server_view \<Rightarrow> ('s \<Rightarrow> 'x \<times> 's) \<Rightarrow> bool" where
  "quiet V f = (\<forall>c. svOK V c \<longrightarrow> svOK V (snd (f c)) \<and> svStore V (snd (f c)) = svStore V c \<and> svAcct V (snd (f c)) = svAcct V c)"

definition connect_law :: "'s imaplib \<Rightarrow> 's server_view \<Rightarrow> bool" where
  "connect_law L V = (\<forall>c r c'. svOK V c \<longrightarrow>
     (\<forall>a. ilDial L a c = (r, c') \<longrightarrow> svOK V c' \<and> svStore V c' = svStore V c \<and> svAcct V c' = None)
     \<and> (\<forall>u m p. ilAuthenticate L u m p c = (r, c') \<longrightarrow> svOK V c' \<and> svStore V c' = svStore V c
          \<and> svAcct V c' = (if r = None then Some u else svAcct V c)))"

definition append_law :: "'s imaplib \<Rightarrow> 's server_view \<Rightarrow> bool" where
  "append_law L V = (\<forall>c f fl d lit r c'. svOK V c \<longrightarrow> ilAppend L f fl d lit c = (r, c') \<longrightarrow>
     svOK V c' \<and> svAcct V c' = svAcct V c \<and> svStore V c \<subseteq>\<^sub>m svStore V c'
     \<and> (\<forall>b g v. svAcct V c \<noteq> Some b \<longrightarrow> svStore V c' ((b, g), v) = svStore V c ((b, g), v))
     \<and> (\<forall>st. r = Inr st \<longrightarrow> rsErr st = None \<longrightarrow> (\<exists>a u. svAcct V c = Some a \<and> svStore V c ((a, f), u) = None
          \<and> svStore V c' = (svStore V c)(((a, f), u) \<mapsto> lit_read lit)
          \<and> (\<forall>v n k. rsCode st = ''APPENDUID'' \<longrightarrow> rsArguments st = [v, n] \<longrightarrow> ilParseNumber L n = Some k \<longrightarrow> k = u))))"

definition server_laws :: "'s imaplib \<Rightarrow> 's server_view \<Rightarrow> bool" where
  "server_laws L V = (connect_law L V \<and> quiet V (\<lambda>c. ((), ilLogout L c)) \<and> quiet V (ilList L) \<and> (\<forall>n. quiet V (ilCreate L n))
     \<and> (\<forall>n. quiet V (ilSelect L n)) \<and> (\<forall>r. quiet V (ilFetch L r)) \<and> (\<forall>it us. quiet V (ilUidFetch L it us))
     \<and> quiet V (ilUidSearch L) \<and> append_law L V)"

text \<open>The messages of the endpoint, by account, folder and ID, and the folder appends go to.\<close>

definition im_mail :: "utab \<Rightarrow> 's server_view \<Rightarrow> 's imap \<Rightarrow> (string \<times> string) \<times> string \<Rightarrow> string option" where
  "im_mail ut V s x = (case parseUID ut (snd x) of Inl _ \<Rightarrow> None
     | Inr u \<Rightarrow> if uidStr u = snd x then svStore V (imConn s) (fst x, u) else None)"

definition im_cur :: "'s server_view \<Rightarrow> 's imap \<Rightarrow> (string \<times> string) option" where
  "im_cur V s = map_option (\<lambda>a. (a, imFolder s)) (svAcct V (imConn s))"

section \<open>The contract\<close>

text \<open>A call that keeps the messages and the selected folder.\<close>

definition calm :: "'s server_view \<Rightarrow> 's imap \<Rightarrow> 's imap \<Rightarrow> bool" where
  "calm V s s' = (svOK V (imConn s) \<longrightarrow> svOK V (imConn s') \<and> svStore V (imConn s') = svStore V (imConn s)
     \<and> svAcct V (imConn s') = svAcct V (imConn s) \<and> imFolder s' = imFolder s)"

lemma calm_refl [simp]: "calm V s s"
  by (simp add: calm_def)

lemma calm_trans: "calm V s s1 \<Longrightarrow> calm V s1 s2 \<Longrightarrow> calm V s s2"
  by (simp add: calm_def)

lemma calm_frame [simp]: "calm V s (s'\<lparr>imFolders := x\<rparr>) = calm V s s'" "calm V s (s'\<lparr>imClosed := y\<rparr>) = calm V s s'"
  by (simp_all add: calm_def)

lemma calmD: "calm V s s' \<Longrightarrow> svOK V (imConn s) \<Longrightarrow> svOK V (imConn s') \<and> im_mail ut V s' = im_mail ut V s \<and> im_cur V s' = im_cur V s"
  by (simp add: calm_def im_mail_def im_cur_def fun_eq_iff split: sum.splits)

lemma calm_conn: "quiet V f \<Longrightarrow> f (imConn s) = (x, c) \<Longrightarrow> calm V s (s\<lparr>imConn := c\<rparr>)"
  unfolding quiet_def calm_def by (drule spec [of _ "imConn s"]) simp

lemma quiet_calls:
  assumes "server_laws L V"
  shows "quiet V (\<lambda>c. ((), ilLogout L c))" "quiet V (ilList L)" "quiet V (ilCreate L n)" "quiet V (ilSelect L n)"
    "quiet V (ilFetch L r)" "quiet V (ilUidFetch L it us)" "quiet V (ilUidSearch L)"
  using assms unfolding server_laws_def by blast+

lemma calm_listFolders:
  assumes "server_laws L V"
  shows "listFolders L s = (r, s') \<Longrightarrow> calm V s s'"
  unfolding listFolders_def
  by (auto split: if_splits prod.splits option.splits intro: calm_conn [OF quiet_calls(2) [OF assms]])

lemma calm_folders:
  assumes "server_laws L V"
  shows "ResolveFolder ut L n s = (r1, s') \<Longrightarrow> calm V s s'" "ListFolders ut L s = (r2, s') \<Longrightarrow> calm V s s'"
    "CreateMailbox ut L n s = (r3, s') \<Longrightarrow> calm V s s'" "Select ut L n s = (r4, s') \<Longrightarrow> calm V s s'"
proof -
  note l = calm_listFolders [OF assms]
  show "ResolveFolder ut L n s = (r1, s') \<Longrightarrow> calm V s s'" "ListFolders ut L s = (r2, s') \<Longrightarrow> calm V s s'"
    unfolding ResolveFolder_def ListFolders_def by (auto split: prod.splits sum.splits option.splits dest: l)
  show "CreateMailbox ut L n s = (r3, s') \<Longrightarrow> calm V s s'"
    unfolding CreateMailbox_def Let_def
    by (auto split: prod.splits sum.splits option.splits dest: l intro: calm_trans [OF l calm_conn [OF quiet_calls(3) [OF assms]]])
  show "Select ut L n s = (r4, s') \<Longrightarrow> calm V s s'"
    unfolding Select_def by (auto split: prod.splits sum.splits intro: calm_conn [OF quiet_calls(4) [OF assms]])
qed

lemma calm_fetch:
  assumes "server_laws L V"
  shows "calm V s (snd (on_conn (ilFetch L r) s))" "calm V s (snd (on_conn (ilUidFetch L it us) s))"
  using calm_conn [OF quiet_calls(5) [OF assms]] calm_conn [OF quiet_calls(6) [OF assms]] by (auto split: prod.splits)

lemma calm_fetch_ranges:
  assumes "server_laws L V" "fetch_ranges L b cnt fr out s = Some y"
  shows "calm V s (snd y)"
proof -
  have "L = L \<longrightarrow> calm V s (snd y)"
  proof (rule fetch_ranges.raw_induct [where P = "\<lambda>L' b cnt fr out s y. L' = L \<longrightarrow> calm V s (snd y)", OF _ assms(2)], intro impI)
    fix f and L' :: "'a imaplib" and b cnt fr out s y
    assume ih: "\<And>L' b cnt fr out s y. f L' b cnt fr out s = Some y \<Longrightarrow> L' = L \<longrightarrow> calm V s (snd y)"
      and b: "(if fr \<le> cnt then (let to = min (fr + b - 1) cnt; rs = on_conn (ilFetch L' (fr, to)) s in
           case fetch_batch (fst rs) (''FETCH headers '' @ uid_str fr @ '':'' @ uid_str to) s of
             Inl e \<Rightarrow> Some (Inl e, snd rs) | Inr fms \<Rightarrow> f L' b cnt (fr + b) (out @ fms) (snd rs))
        else Some (Inr out, s)) = Some y" and L: "L' = L"
    let ?rs = "on_conn (ilFetch L (fr, min (fr + b - 1) cnt)) s"
    have k: "calm V s (snd ?rs)"
      by (rule calm_fetch(1) [OF assms(1)])
    moreover have "calm V s (snd y)" if "f L b cnt (fr + b) (out @ fms) (snd ?rs) = Some y" for fms
      using calm_trans [OF k] ih [OF that] by blast
    ultimately show "calm V s (snd y)"
      using b unfolding L Let_def by (auto split: if_splits sum.splits)
  qed
  then show ?thesis by simp
qed

lemma calm_fetch_uids:
  assumes "server_laws L V"
  shows "calm V s (snd (fetch_uids L n uids out s))"
  using assms
proof (induction L n uids out s rule: fetch_uids.induct)
  case (1 L n uids out s)
  show ?case
    using calm_trans [OF calm_fetch(2) [OF "1.prems"] "1.IH" [OF _ refl _ "1.prems"]] calm_fetch(2) [OF "1.prems"]
    by (subst fetch_uids.simps) (auto simp: Let_def split: sum.splits)
qed

lemma calm_reads:
  assumes "server_laws L V"
  shows "imListIDs L s = (r1, s') \<Longrightarrow> calm V s s'" "imFetchMeta ut L b ids s = (r2, s') \<Longrightarrow> calm V s s'"
    "imOpen ut L i s = (r3, s') \<Longrightarrow> calm V s s'"
proof -
  show "imListIDs L s = (r1, s') \<Longrightarrow> calm V s s'"
    unfolding imListIDs_def UIDSearchAll_def by (auto split: prod.splits sum.splits intro: calm_conn [OF quiet_calls(7) [OF assms]])
  have u: "calm V s s1" if "FetchHeadersByUID L us b s = (x, s1)" for us x s1
    using that calm_fetch_uids [OF assms, of s] unfolding FetchHeadersByUID_def by (metis prod.inject snd_conv calm_refl)
  have h: "calm V s s1" if "FetchHeaders L (imCount s) b s = Some (x, s1)" for x s1
    using that calm_fetch_ranges [OF assms] unfolding FetchHeaders_def by (fastforce split: if_splits)
  show "imFetchMeta ut L b ids s = (r2, s') \<Longrightarrow> calm V s s'"
    unfolding imFetchMeta_def by (auto split: prod.splits sum.splits option.splits dest: u h)
  show "imOpen ut L i s = (r3, s') \<Longrightarrow> calm V s s'"
    unfolding imOpen_def FetchFullLiteral_def
    by (auto split: prod.splits sum.splits option.splits intro: calm_conn [OF quiet_calls(6) [OF assms]])
qed

lemma im_mail_cong: "svStore V (imConn s') = svStore V (imConn s) \<Longrightarrow> im_mail ut V s' = im_mail ut V s"
  by (rule ext) (simp add: im_mail_def split: sum.split)

lemma im_mail_upd: "svStore V (imConn s') = (svStore V (imConn s))((f, u) \<mapsto> d) \<Longrightarrow> im_mail ut V s' = (im_mail ut V s)((f, uidStr u) \<mapsto> d)"
  using parseUID_inverse by (auto simp: im_mail_def fun_eq_iff split: sum.splits)

lemma im_mail_le: "svStore V (imConn s) \<subseteq>\<^sub>m svStore V (imConn s') \<Longrightarrow> im_mail ut V s \<subseteq>\<^sub>m im_mail ut V s'"
  unfolding map_le_def im_mail_def by (auto split: sum.splits if_splits)

lemma imAppend_effect:
  assumes "server_laws L V" "svOK V (imConn s)" "imAppend ut L fl d lit s = (r, s')"
  shows "svOK V (imConn s')" "im_mail ut V s \<subseteq>\<^sub>m im_mail ut V s'" "im_cur V s' = im_cur V s" "svAcct V (imConn s') = svAcct V (imConn s)"
    "svAcct V (imConn s) \<noteq> Some b \<Longrightarrow> svStore V (imConn s') ((b, g), v) = svStore V (imConn s) ((b, g), v)"
    "r = Inr i \<Longrightarrow> \<exists>f j. im_cur V s = Some f \<and> im_mail ut V s (f, j) = None \<and> im_mail ut V s' = (im_mail ut V s)((f, j) \<mapsto> lit_read lit) \<and> (i = j \<or> i = [])"
proof -
  obtain y c where c: "ilAppend L (imFolder s) fl d lit (imConn s) = (y, c)"
    by (cases "ilAppend L (imFolder s) fl d lit (imConn s)")
  have "append_law L V"
    using assms(1) by (simp add: server_laws_def)
  note l = this [unfolded append_law_def, rule_format, OF assms(2) c]
  have s': "s' = s\<lparr>imConn := c\<rparr>"
    using assms(3) unfolding imAppend_def AppendLiteral_def by (auto simp: c split: prod.splits sum.splits option.splits list.splits if_splits)
  show "svOK V (imConn s')" "im_mail ut V s \<subseteq>\<^sub>m im_mail ut V s'" "im_cur V s' = im_cur V s" "svAcct V (imConn s') = svAcct V (imConn s)"
    using l im_mail_le [of V s s' ut] by (auto simp: s' im_cur_def)
  show "svStore V (imConn s') ((b, g), v) = svStore V (imConn s) ((b, g), v)" if "svAcct V (imConn s) \<noteq> Some b"
    using l that by (simp add: s')
  assume "r = Inr i"
  then obtain st where st: "y = Inr st" "rsErr st = None"
      "i = [] \<or> (\<exists>v n k. rsCode st = ''APPENDUID'' \<and> rsArguments st = [v, n] \<and> ilParseNumber L n = Some k \<and> i = uidStr k)"
    using assms(3) unfolding imAppend_def AppendLiteral_def by (auto simp: c split: prod.splits sum.splits option.splits list.splits if_splits)
  obtain a u where u: "svAcct V (imConn s) = Some a" "svStore V (imConn s) ((a, imFolder s), u) = None"
      "svStore V c = (svStore V (imConn s))(((a, imFolder s), u) \<mapsto> lit_read lit)"
      "\<forall>v n k. rsCode st = ''APPENDUID'' \<longrightarrow> rsArguments st = [v, n] \<longrightarrow> ilParseNumber L n = Some k \<longrightarrow> k = u"
    using l st(1,2) by blast
  have "i = uidStr u \<or> i = []"
    using st(3) u(4) by auto
  moreover have "im_mail ut V s ((a, imFolder s), uidStr u) = None"
    using u(2) parseUID_inverse by (simp add: im_mail_def)
  moreover have "im_mail ut V s' = (im_mail ut V s)(((a, imFolder s), uidStr u) \<mapsto> lit_read lit)"
    using u(3) by (intro im_mail_upd) (simp add: s')
  moreover have "im_cur V s = Some (a, imFolder s)"
    using u(1) by (simp add: im_cur_def)
  ultimately show "\<exists>f j. im_cur V s = Some f \<and> im_mail ut V s (f, j) = None \<and> im_mail ut V s' = (im_mail ut V s)((f, j) \<mapsto> lit_read lit) \<and> (i = j \<or> i = [])"
    by blast
qed

text \<open>
  The state of a side while user \<open>a\<close> is processed: the connection is at most authenticated for \<open>a\<close>, and the mail of
  every other account is \<open>M\<close>.
\<close>

definition im_inv :: "'s server_view \<Rightarrow> ((string \<times> string) \<times> 32 word \<Rightarrow> string option) \<Rightarrow> string \<Rightarrow> 's imap \<Rightarrow> bool" where
  "im_inv V M a s = (svOK V (imConn s) \<and> svAcct V (imConn s) \<in> {None, Some a}
     \<and> (\<forall>b f u. b \<noteq> a \<longrightarrow> svStore V (imConn s) ((b, f), u) = M ((b, f), u)))"

lemma calm_inv: "calm V s s' \<Longrightarrow> im_inv V M a s \<Longrightarrow> im_inv V M a s' \<and> im_mail ut V s' = im_mail ut V s \<and> im_cur V s' = im_cur V s"
  using calmD [of V s s' ut] unfolding im_inv_def calm_def by simp

lemma imSelect_inv:
  assumes "server_laws L V" "im_inv V M a s" "imSelect ut L n s = (r, s')"
  shows "im_inv V M a s' \<and> im_mail ut V s' = im_mail ut V s"
proof -
  obtain r1 s1 where 1: "ResolveFolder ut L n s = (r1, s1)" by (cases "ResolveFolder ut L n s")
  have c1: "calm V s s1" by (rule calm_folders(1) [OF assms(1) 1])
  show ?thesis
  proof (cases r1)
    case (Inl e)
    then show ?thesis using assms(3) calm_inv [OF c1 assms(2)] by (auto simp: imSelect_def 1)
  next
    case (Inr real)
    obtain r2 s2 where 2: "Select ut L real s1 = (r2, s2)" by (cases "Select ut L real s1")
    have c2: "calm V s s2" by (rule calm_trans [OF c1 calm_folders(4) [OF assms(1) 2]])
    have "imConn s' = imConn s2" using assms(3) by (auto simp: imSelect_def 1 2 Inr split: sum.splits)
    then show ?thesis using calm_inv [OF c2 assms(2), of ut] im_mail_cong [of V s' s2 ut] by (simp add: im_inv_def)
  qed
qed

lemma imAppend_inv:
  assumes "server_laws L V" "im_inv V M a s" "imAppend ut L fl d lit s = (r, s')"
  shows "im_inv V M a s'"
proof -
  have i: "svOK V (imConn s)" "svAcct V (imConn s) \<in> {None, Some a}" "\<And>b f u. b \<noteq> a \<Longrightarrow> svStore V (imConn s) ((b, f), u) = M ((b, f), u)"
    using assms(2) by (simp_all add: im_inv_def)
  note e = imAppend_effect(1,4,5) [OF assms(1) i(1) assms(3)]
  have "svStore V (imConn s') ((b, f), u) = M ((b, f), u)" if "b \<noteq> a" for b f u
    using e(3) [of b f u] i(2) i(3) [OF that] that by auto
  then show ?thesis
    using e(1,2) i(2) by (simp add: im_inv_def)
qed

lemma imap_laws:
  assumes "server_laws L V"
  shows "mail_endpoint (imapEndpoint ut L batch) (im_inv V M a) (im_mail ut V) (im_cur V)"
proof -
  note calm = calm_reads [OF assms, THEN calm_inv] calm_folders [OF assms, THEN calm_inv]
  have clo: "im_inv V M a (Logout L s) \<and> im_mail ut V (Logout L s) = im_mail ut V s" if "im_inv V M a s" for s
    using that quiet_calls(1) [OF assms] im_mail_cong [of V "Logout L s" s] by (simp add: Logout_def quiet_def im_inv_def)
  have ok: "svOK V (imConn s)" if "im_inv V M a s" for s
    using that by (simp add: im_inv_def)
  show ?thesis
  proof (unfold_locales, goal_cases)
    case (1 s n rs s') then show ?case using imSelect_inv [OF assms] by (simp add: imapEndpoint_def)
  next case (2 s rl s') then show ?case using calm(1) by (simp add: imapEndpoint_def)
  next case (3 s ids rf s') then show ?case using calm(2) by (simp add: imapEndpoint_def)
  next case (4 s i ro s') then show ?case using calm(3) by (simp add: imapEndpoint_def)
  next case (5 s fl d lit e s') then show ?case using imAppend_inv [OF assms] imAppend_effect(2,3) [OF assms ok] by (simp add: imapEndpoint_def)
  next case (6 s fl d lit i s') then show ?case
      using imAppend_inv [OF assms, of M a s] imAppend_effect(3,6) [OF assms ok, of s ut fl d lit _ s'] by (simp add: imapEndpoint_def)
  next case (7 s) then show ?case using clo by (simp add: imapEndpoint_def)
  next case (8 s lf ri s') then show ?case using calm(5) by (auto simp: imapEndpoint_def)
  next case (9 s cf n rc s') then show ?case using calm(6) by (auto simp: imapEndpoint_def)
  qed
qed

lemma Connect_inv:
  assumes "server_laws L V" "im_inv V M a s" "Connect L tls srv a s = (r, s')"
  shows "im_inv V M a s' \<and> im_mail ut V s' = im_mail ut V s \<and> (r = None \<longrightarrow> svAcct V (imConn s') = Some a)"
proof -
  obtain r1 c1 where 1: "ilDial L (Addr srv) (imConn s) = (r1, c1)" by (cases "ilDial L (Addr srv) (imConn s)")
  obtain r2 c2 where 2: "ilAuthenticate L a (sMasterUser srv) (sMasterPass srv) c1 = (r2, c2)"
    by (cases "ilAuthenticate L a (sMasterUser srv) (sMasterPass srv) c1")
  have cl: "connect_law L V"
    using assms(1) by (simp add: server_laws_def)
  have ok: "svOK V (imConn s)"
    using assms(2) by (simp add: im_inv_def)
  have d: "svOK V c1 \<and> svStore V c1 = svStore V (imConn s) \<and> svAcct V c1 = None"
    using cl [unfolded connect_law_def, rule_format, OF ok] 1 by blast
  have au: "svOK V c2 \<and> svStore V c2 = svStore V c1 \<and> svAcct V c2 = (if r2 = None then Some a else svAcct V c1)"
    using cl [unfolded connect_law_def, rule_format, of c1] d 2 by blast
  have "svOK V (ilLogout L c2) \<and> svStore V (ilLogout L c2) = svStore V c2 \<and> svAcct V (ilLogout L c2) = svAcct V c2"
    using quiet_calls(1) [OF assms(1)] au by (simp add: quiet_def)
  with d au show ?thesis
    using assms(2,3) im_mail_cong [of V s' s] by (auto simp: Connect_def Let_def 1 2 im_inv_def split: option.splits if_splits)
qed

section \<open>An example server\<close>

text \<open>A server in memory: the stored messages, the next UID and the authenticated account; \<open>ms\<close> is what a fetch finds.\<close>

record memsrv =
  msStore :: "(string \<times> string) \<times> 32 word \<Rightarrow> string option"
  msNext :: nat
  msAcct :: "string option"

definition mem_append :: "string \<Rightarrow> Literal \<Rightarrow> memsrv \<Rightarrow> StatusResp result \<times> memsrv" where
  "mem_append f lit c = (case msAcct c of None \<Rightarrow> (Inl (errnew ''not authenticated''), c)
     | Some a \<Rightarrow> if msNext c < 2 ^ 32
         then (Inr \<lparr>rsErr = None, rsCode = ''APPENDUID'', rsArguments = [''1'', nat_str (msNext c)]\<rparr>,
               c\<lparr>msStore := (msStore c)(((a, f), of_nat (msNext c)) \<mapsto> lit_read lit), msNext := Suc (msNext c)\<rparr>)
         else (Inl (errnew ''no more UIDs''), c))"

definition mem_lib :: "ImapMessage list \<Rightarrow> memsrv imaplib" where
  "mem_lib ms = \<lparr>ilDial = (\<lambda>a c. (None, c\<lparr>msAcct := None\<rparr>)), ilAuthenticate = (\<lambda>u m p c. (None, c\<lparr>msAcct := Some u\<rparr>)), ilLogout = (\<lambda>c. c),
     ilList = (\<lambda>c. (([\<lparr>miAttributes = [], miDelimiter = ''.'', miName = ''INBOX''\<rparr>], None), c)), ilCreate = (\<lambda>n c. (None, c)),
     ilSelect = (\<lambda>n c. (Inr \<lparr>mbMessages = of_nat (length ms), mbUidValidity = 1\<rparr>, c)),
     ilFetch = (\<lambda>(a, b) c. ((take (unat b - unat a + 1) (drop (unat a - 1) ms), None), c)), ilUidFetch = (\<lambda>it us c. (([], None), c)),
     ilUidSearch = (\<lambda>c. (Inr [], c)), ilAppend = (\<lambda>f fl d lit c. mem_append f lit c),
     ilParseNumber = (\<lambda>n. if n \<noteq> [] \<and> list_all is_digit n then Some (of_nat (str_nat n)) else None)\<rparr>"

definition mem_view :: "memsrv server_view" where
  "mem_view = \<lparr>svOK = (\<lambda>c. \<forall>a f u. msStore c ((a, f), u) \<noteq> None \<longrightarrow> unat u < msNext c), svAcct = msAcct, svStore = msStore\<rparr>"

lemma mem_append_law: "append_law (mem_lib ms) mem_view"
proof -
  have "unat (of_nat (msNext c) :: 32 word) = msNext c" if "msNext c < 2 ^ 32" for c
    using that by (simp add: unat_of_nat)
  then show ?thesis
    using nat_str_digits
    by (fastforce simp: append_law_def mem_lib_def mem_view_def mem_append_def map_le_def less_Suc_eq split: option.splits if_splits)
qed

lemma mem_connect_law: "connect_law (mem_lib ms) mem_view"
  unfolding connect_law_def
proof (intro allI impI conjI)
  fix c r c' a assume "svOK mem_view c" "ilDial (mem_lib ms) a c = (r, c')"
  moreover from this have "c' = c\<lparr>msAcct := None\<rparr>" by (simp add: mem_lib_def)
  ultimately show "svOK mem_view c'" "svStore mem_view c' = svStore mem_view c" "svAcct mem_view c' = None"
    by (simp_all add: mem_view_def)
next
  fix c r c' u m p assume "svOK mem_view c" "ilAuthenticate (mem_lib ms) u m p c = (r, c')"
  moreover from this have "c' = c\<lparr>msAcct := Some u\<rparr>" "r = None" by (simp_all add: mem_lib_def)
  ultimately show "svOK mem_view c'" "svStore mem_view c' = svStore mem_view c" "svAcct mem_view c' = (if r = None then Some u else svAcct mem_view c)"
    by (simp_all add: mem_view_def)
qed

lemma mem_laws: "server_laws (mem_lib ms) mem_view"
  unfolding server_laws_def
  by (intro conjI allI mem_append_law mem_connect_law) (simp_all add: quiet_def mem_lib_def mem_view_def split: prod.split)

lemma mem_serves: "length ms < 2 ^ 32 \<Longrightarrow> serves (mem_lib ms) (\<lambda>_. True) ms"
  by (auto simp: serves_def mem_lib_def unat_of_nat)

definition mem_ex :: "memsrv imap" where
  "mem_ex = \<lparr>imConn = \<lparr>msStore = Map.empty, msNext = 1, msAcct = None\<rparr>, imServer = ''h:993'', imUser = ''u'', imFolders = [], imClosed = False,
     imFolder = ''INBOX'', imCount = 0\<rparr>"

definition imsg_ex :: "nat \<Rightarrow> ImapMessage" where
  "imsg_ex n = \<lparr>imsSeqNum = of_nat n, imsUid = of_nat (10 * n), imsFlags = [], imsInternalDate = 0, imsSize = 5, imsHeader = Some (Inr ''A: b''), imsBody = None\<rparr>"

theorem FetchHeaders_complete_witness:
  "\<exists>fms s'. FetchHeaders (mem_lib [imsg_ex 1, imsg_ex 2, imsg_ex 3]) (of_nat (length [imsg_ex 1, imsg_ex 2, imsg_ex 3])) 2 mem_ex = Some (Inr fms, s')
     \<and> map fmUid fms = [10, 20, 30]"
proof -
  obtain fms where f: "decode_all mem_ex [imsg_ex 1, imsg_ex 2, imsg_ex 3] = Inr fms" "map fmUid fms = [10, 20, 30]"
    by (simp add: decodeHeaderMsg_def imsg_ex_def)
  show ?thesis
    using FetchHeaders_complete [OF mem_serves _ f(1), of 2] f(2) by auto
qed


end
