(* ===== verification/SyncImap.thy ===== *)
theory SyncImap
  imports Imap SyncSafety
begin

text \<open>
  The synchronizer over two IMAP servers: the contract of the IMAP endpoint is put into the locale of
  \<^theory_text>\<open>SyncSafety\<close>, with an invariant that also fixes the mail of every other account.
\<close>

definition im_syncer :: "'s imaplib \<Rightarrow> 's imaplib \<Rightarrow> (Server \<Rightarrow> goerr option) \<Rightarrow> env \<Rightarrow> Config \<Rightarrow> bool \<Rightarrow> 's imap Syncer" where
  "im_syncer LA LB tls env cfg st = \<lparr>yCfg = cfg, yState = st,
     yBackendA = newIMAPBackend (g_ut (evLib env)) LA tls (cFetchBatchSize cfg) (cServerA cfg),
     yBackendB = newIMAPBackend (g_ut (evLib env)) LB tls (cFetchBatchSize cfg) (cServerB cfg),
     yDirAToB = (cDirection cfg \<noteq> DirectionBToA), yDirBToA = (cDirection cfg \<noteq> DirectionAToB), yEnv = env\<rparr>"

lemma im_connects:
  assumes "server_laws L V" "im_inv V M a s" "bConnect (newIMAPBackend ut L tls b srv) a s = (r, s')"
  shows "im_inv V M a s' \<and> im_mail ut V s' = im_mail ut V s
    \<and> (\<forall>ep. r = Inr ep \<longrightarrow> mail_endpoint ep (im_inv V M a) (im_mail ut V) (im_cur V))"
proof -
  obtain x s1 where c: "Connect L tls srv a s = (x, s1)" by (cases "Connect L tls srv a s")
  show ?thesis
    using Connect_inv [OF assms(1,2) c, of ut] assms(3) imap_laws [OF assms(1)] by (auto simp: newIMAPBackend_def c split: option.splits)
qed

lemma im_sides:
  assumes "server_laws LA VA" "server_laws LB VB" and "ut = g_ut (evLib env)"
  shows "sync_sides (im_syncer LA LB tls env cfg st) usr (im_inv VA MA (ConnectAs usr ''a'')) (im_mail ut VA) (im_cur VA) False
    (im_inv VB MB (ConnectAs usr ''b'')) (im_mail ut VB) (im_cur VB) False"
  by unfold_locales (use im_connects [OF assms(1)] im_connects [OF assms(2)] in \<open>simp_all add: im_syncer_def assms(3)\<close>)

text \<open>C3: synchronizing a user between two IMAP servers never changes or removes a message of either account, does not add to
  a side that the direction does not write to, and never touches the mail of any other account: on servers that keep
  to the protocol, whatever command fails, the master login acts on the mailboxes of that user only.\<close>
theorem imap_SyncUser_safe:
  assumes "server_laws LA VA" and "server_laws LB VB"
    and "svOK VA (imConn (wA w))" and "svAcct VA (imConn (wA w)) = None" and "svOK VB (imConn (wB w))" and "svAcct VB (imConn (wB w)) = None"
    and "run_state (SyncUser (im_syncer LA LB tls env cfg st) ctx u) w = (x, w')"
  shows "im_mail (g_ut (evLib env)) VA (wA w) \<subseteq>\<^sub>m im_mail (g_ut (evLib env)) VA (wA w')
    \<and> im_mail (g_ut (evLib env)) VB (wB w) \<subseteq>\<^sub>m im_mail (g_ut (evLib env)) VB (wB w')
    \<and> (cDirection cfg = DirectionAToB \<longrightarrow> im_mail (g_ut (evLib env)) VA (wA w') = im_mail (g_ut (evLib env)) VA (wA w))
    \<and> (cDirection cfg = DirectionBToA \<longrightarrow> im_mail (g_ut (evLib env)) VB (wB w') = im_mail (g_ut (evLib env)) VB (wB w))
    \<and> (\<forall>q f i. q \<noteq> ConnectAs u ''a'' \<longrightarrow> svStore VA (imConn (wA w')) ((q, f), i) = svStore VA (imConn (wA w)) ((q, f), i))
    \<and> (\<forall>q f i. q \<noteq> ConnectAs u ''b'' \<longrightarrow> svStore VB (imConn (wB w')) ((q, f), i) = svStore VB (imConn (wB w)) ((q, f), i))"
proof -
  note sides = im_sides [OF assms(1,2) refl, of tls env cfg st u "svStore VA (imConn (wA w))" "svStore VB (imConn (wB w))"]
  have i: "im_inv VA (svStore VA (imConn (wA w))) (ConnectAs u ''a'') (wA w)" "im_inv VB (svStore VB (imConn (wB w))) (ConnectAs u ''b'') (wB w)"
    using assms(3-6) by (simp_all add: im_inv_def)
  show ?thesis
    using sync_sides.SyncUser_grown [OF sides i assms(7)] unfolding sync_sides.grown_def [OF sides]
    by (simp add: im_inv_def im_syncer_def)
qed

definition im_wld_ex :: "memsrv imap world" where
  "im_wld_ex = \<lparr>wA = mem_ex, wB = mem_ex, wDB = \<lparr>sdTables = empty_db, sdTick = 0\<rparr>, wCol = NewCollector, wErrs = [], wTick = 0\<rparr>"

theorem imap_SyncUser_safe_witness:
  "\<exists>w'. run_state (SyncUser (im_syncer (mem_lib []) (mem_lib []) (\<lambda>_. None) senv_ex cfg_ex True) ctx_ex (usr_ex ''u'')) im_wld_ex = ((), w')
     \<and> svStore mem_view (imConn (wA w')) ((''boss'', ''INBOX''), 7) = None"
proof -
  obtain w' where r: "run_state (SyncUser (im_syncer (mem_lib []) (mem_lib []) (\<lambda>_. None) senv_ex cfg_ex True) ctx_ex (usr_ex ''u'')) im_wld_ex = ((), w')"
    by (metis old.unit.exhaust surj_pair)
  have "svOK mem_view (imConn (wA im_wld_ex))" "svAcct mem_view (imConn (wA im_wld_ex)) = None" "svOK mem_view (imConn (wB im_wld_ex))"
    "svAcct mem_view (imConn (wB im_wld_ex)) = None" "svStore mem_view (imConn (wA im_wld_ex)) ((''boss'', ''INBOX''), 7) = None" "''boss'' \<noteq> ConnectAs (usr_ex ''u'') ''a''"
    by (simp_all add: mem_view_def im_wld_ex_def mem_ex_def usr_ex_def ConnectAs_def)
  then show ?thesis
    using imap_SyncUser_safe [OF mem_laws mem_laws _ _ _ _ r] r by (metis (no_types, lifting))
qed

end
