(* ===== verification/Encoding.thy ===== *)
theory Encoding
  imports Message
begin

text \<open>
  Text encodings that the EWS and PST transports produce and read: base64 (\<^verbatim>\<open>encoding/base64\<close>), RFC 2047 words
  (\<^verbatim>\<open>mime.QEncoding\<close>), XML text (\<^verbatim>\<open>xml.EscapeText\<close>), dates (\<^verbatim>\<open>time.RFC1123Z\<close>), and the helpers \<^verbatim>\<open>oneLine\<close>,
  \<^verbatim>\<open>snippet\<close>, \<^verbatim>\<open>xesc\<close> of \<^verbatim>\<open>ews.go\<close> and \<^verbatim>\<open>encodeWord\<close>, \<^verbatim>\<open>base64Lines\<close>, \<^verbatim>\<open>nameList\<close>, \<^verbatim>\<open>firstNonEmpty\<close> of \<^verbatim>\<open>pst.go\<close>.
\<close>

section \<open>Base64\<close>

definition b64_char :: "nat \<Rightarrow> char" where
  "b64_char n = (if n < 26 then char_of (65 + n) else if n < 52 then char_of (71 + n) else if n < 62 then char_of (n - 4)
     else if n = 62 then CHR ''+'' else CHR ''/'')"

definition b64_val :: "char \<Rightarrow> nat option" where
  "b64_val c = (let n = bv c in
     if 65 \<le> n \<and> n \<le> 90 then Some (n - 65) else if 97 \<le> n \<and> n \<le> 122 then Some (n - 71)
     else if 48 \<le> n \<and> n \<le> 57 then Some (n + 4) else if n = 43 then Some 62 else if n = 47 then Some 63 else None)"

text \<open>\<^verbatim>\<open>StdEncoding.EncodeToString\<close>.\<close>

fun b64_encode :: "string \<Rightarrow> string" where
  "b64_encode [] = []"
| "b64_encode [a] = [b64_char (bv a div 4), b64_char (bv a mod 4 * 16), CHR ''='', CHR ''='']"
| "b64_encode [a, b] = [b64_char (bv a div 4), b64_char (bv a mod 4 * 16 + bv b div 16), b64_char (bv b mod 16 * 4), CHR ''='']"
| "b64_encode (a # b # c # s) =
     b64_char (bv a div 4) # b64_char (bv a mod 4 * 16 + bv b div 16) # b64_char (bv b mod 16 * 4 + bv c div 64) # b64_char (bv c mod 64) # b64_encode s"

definition b64_byte1 :: "nat \<Rightarrow> nat \<Rightarrow> char" where "b64_byte1 w x = char_of (w * 4 + x div 16)"
definition b64_byte2 :: "nat \<Rightarrow> nat \<Rightarrow> char" where "b64_byte2 x y = char_of (x mod 16 * 16 + y div 4)"
definition b64_byte3 :: "nat \<Rightarrow> nat \<Rightarrow> char" where "b64_byte3 y z = char_of (y mod 4 * 64 + z)"

text \<open>\<^verbatim>\<open>DecodeString\<close>: line ends are skipped, the padding has to be right, bits left over are ignored.\<close>

fun b64_quanta :: "string \<Rightarrow> string option" where
  "b64_quanta [] = Some []"
| "b64_quanta (a # b # c # d # s) =
     (case (b64_val a, b64_val b) of
        (Some w, Some x) \<Rightarrow>
          if d = CHR ''='' then
            (if s \<noteq> [] then None
             else if c = CHR ''='' then Some [b64_byte1 w x]
             else case b64_val c of None \<Rightarrow> None | Some y \<Rightarrow> Some [b64_byte1 w x, b64_byte2 x y])
          else (case (b64_val c, b64_val d, b64_quanta s) of
              (Some y, Some z, Some r) \<Rightarrow> Some (b64_byte1 w x # b64_byte2 x y # b64_byte3 y z # r)
            | _ \<Rightarrow> None)
      | _ \<Rightarrow> None)"
| "b64_quanta _ = None"

definition b64_decode :: "string \<Rightarrow> string option" where
  "b64_decode s = b64_quanta (filter (\<lambda>c. c \<noteq> CHR 0x0A \<and> c \<noteq> CHR 0x0D) s)"

function base64_wrap :: "string \<Rightarrow> string" where
  "base64_wrap s = (if length s > 76 then take 76 s @ crlf @ base64_wrap (drop 76 s) else s @ crlf)"
  by pat_completeness auto
termination by (relation "measure length") auto

declare base64_wrap.simps [simp del]

definition base64Lines :: "string \<Rightarrow> string" where
  "base64Lines d = base64_wrap (b64_encode d)"

section \<open>One-line texts\<close>

definition oneLine :: "string \<Rightarrow> string" where
  "oneLine s = map (\<lambda>c. if c = CHR 0x0D \<or> c = CHR 0x0A then CHR '' '' else c) (trim_space s)"

definition snippet :: "string \<Rightarrow> string" where
  "snippet b = (let s = trim_space b in if length s > 300 then take 300 s @ ''...'' else s)"

fun firstNonEmpty :: "string list \<Rightarrow> string" where
  "firstNonEmpty [] = []"
| "firstNonEmpty (v # vs) = (if trim_space v \<noteq> [] then v else firstNonEmpty vs)"

section \<open>Encoded words\<close>

text \<open>\<^verbatim>\<open>mime.QEncoding.Encode\<close> with charset utf-8: a word is split before it gets longer than 75 bytes.\<close>

definition needs_encoding :: "string \<Rightarrow> bool" where
  "needs_encoding s = list_ex (\<lambda>(r, _). (r < 32 \<or> r > 126) \<and> r \<noteq> 9) (runes s)"

definition q_plain :: "char \<Rightarrow> bool" where
  "q_plain c = (33 \<le> bv c \<and> bv c \<le> 126 \<and> c \<noteq> CHR ''='' \<and> c \<noteq> CHR ''?'' \<and> c \<noteq> CHR ''_'')"

definition upper_hex :: "nat \<Rightarrow> char" where
  "upper_hex n = (if n < 10 then char_of (48 + n) else char_of (55 + n))"

definition q_byte :: "char \<Rightarrow> string" where
  "q_byte c = (if c = CHR '' '' then ''_'' else if q_plain c then [c]
     else [CHR ''='', upper_hex (bv c div 16), upper_hex (bv c mod 16)])"

definition open_word :: string where "open_word = ''=?utf-8?q?''"
definition close_word :: string where "close_word = ''?=''"

fun q_encode :: "(nat \<times> string) list \<Rightarrow> nat \<Rightarrow> string" where
  "q_encode [] cur = []"
| "q_encode ((r, bs) # rs) cur =
     (let enc = (if length bs = 1 \<and> (q_plain (hd bs) \<or> hd bs = CHR '' '') then 1 else 3 * length bs);
          w = concat (map q_byte bs)
      in if cur + enc > 63 then close_word @ '' '' @ open_word @ w @ q_encode rs enc else w @ q_encode rs (cur + enc))"

definition mime_q :: "string \<Rightarrow> string" where
  "mime_q s = (if needs_encoding s then open_word @ q_encode (runes s) 0 @ close_word else s)"

definition encodeWord :: "string \<Rightarrow> string" where
  "encodeWord s0 = (let s = oneLine s0 in if s = [] then [] else mime_q s)"

definition nameList :: "string \<Rightarrow> string" where
  "nameList s0 = (let s = oneLine s0 in if s = [] then [] else str_join '', '' (map (\<lambda>p. encodeWord (trim_space p)) (split_char (CHR '';'') s)))"

section \<open>XML text\<close>

text \<open>\<^verbatim>\<open>xml.EscapeText\<close>; a rune that XML does not allow becomes U+FFFD.\<close>

definition xml_char :: "nat \<Rightarrow> bool" where
  "xml_char r = (r = 9 \<or> r = 10 \<or> r = 13 \<or> (0x20 \<le> r \<and> r \<le> 0xD7FF) \<or> (0xE000 \<le> r \<and> r \<le> 0xFFFD) \<or> (0x10000 \<le> r \<and> r \<le> 0x10FFFF))"

definition esc_rune :: "nat \<times> string \<Rightarrow> string" where
  "esc_rune p = (case p of (r, bs) \<Rightarrow>
     if r = 34 then ''&#34;'' else if r = 39 then ''&#39;'' else if r = 38 then ''&amp;'' else if r = 60 then ''&lt;''
     else if r = 62 then ''&gt;'' else if r = 9 then ''&#x9;'' else if r = 10 then ''&#xA;'' else if r = 13 then ''&#xD;''
     else if \<not> xml_char r \<or> (r = rune_error \<and> length bs = 1) then [CHR 0xEF, CHR 0xBF, CHR 0xBD] else bs)"

definition xesc :: "string \<Rightarrow> string" where
  "xesc s = concat (map esc_rune (runes s))"

section \<open>Dates\<close>

text \<open>The proleptic Gregorian calendar: year, month and day of a day number (0 is 1970-01-01), by eras of 400 years from March.\<close>

definition civil_of_days :: "int \<Rightarrow> int \<times> nat \<times> nat" where
  "civil_of_days z0 = (let z = z0 + 719468; era = z div 146097; doe = z mod 146097;
      yoe = (doe - doe div 1460 + doe div 36524 - doe div 146096) div 365;
      doy = doe - (365 * yoe + yoe div 4 - yoe div 100); mp = (5 * doy + 2) div 153;
      d = doy - (153 * mp + 2) div 5 + 1; m = (if mp < 10 then mp + 3 else mp - 9);
      y = yoe + era * 400 + (if m \<le> 2 then 1 else 0)
    in (y, nat m, nat d))"

definition pad_str :: "nat \<Rightarrow> nat \<Rightarrow> string" where
  "pad_str k n = (let s = nat_str n in replicate (k - length s) (CHR ''0'') @ s)"

definition month_names :: "string list" where
  "month_names = [''Jan'', ''Feb'', ''Mar'', ''Apr'', ''May'', ''Jun'', ''Jul'', ''Aug'', ''Sep'', ''Oct'', ''Nov'', ''Dec'']"

definition day_names :: "string list" where
  "day_names = [''Thu'', ''Fri'', ''Sat'', ''Sun'', ''Mon'', ''Tue'', ''Wed'']"

text \<open>\<^verbatim>\<open>t.Format(time.RFC1123Z)\<close> of a time in UTC with a year from 0 to 9999.\<close>

definition format_rfc1123z :: "time \<Rightarrow> string" where
  "format_rfc1123z t = (let s = unix_sec t; days = s div 86400; sod = nat (s mod 86400); (y, m, d) = civil_of_days days
     in day_names ! nat (days mod 7) @ '', '' @ pad_str 2 d @ '' '' @ month_names ! (m - 1) @ '' '' @ pad_str 4 (nat y) @ '' ''
        @ pad_str 2 (sod div 3600) @ '':'' @ pad_str 2 (sod div 60 mod 60) @ '':'' @ pad_str 2 (sod mod 60) @ '' +0000'')"

definition utf8_valid :: "string \<Rightarrow> bool" where
  "utf8_valid s = list_all (\<lambda>(r, bs). \<not> (r = rune_error \<and> length bs = 1)) (runes s)"

section \<open>Base64: round trip\<close>

lemma b64_char_facts: "n < 64 \<Longrightarrow> b64_val (b64_char n) = Some n" "b64_char n \<noteq> CHR ''=''" "33 \<le> bv (b64_char n)" "bv (b64_char n) \<le> 126"
proof -
  show "n < 64 \<Longrightarrow> b64_val (b64_char n) = Some n" "33 \<le> bv (b64_char n)" "bv (b64_char n) \<le> 126"
    by (auto simp: b64_char_def b64_val_def Let_def)
  have "bv (b64_char n) \<noteq> 61"
    by (auto simp: b64_char_def)
  then show "b64_char n \<noteq> CHR ''=''"
    by auto
qed

lemma byte_bound: "bv c < 256"
  by simp

lemma b64_bytes:
  "b64_byte1 (bv a div 4) (bv a mod 4 * 16) = a"
  "b64_byte1 (bv a div 4) (bv a mod 4 * 16 + bv b div 16) = a"
  "b64_byte2 (bv a mod 4 * 16 + bv b div 16) (bv b mod 16 * 4) = b"
  "b64_byte2 (bv a mod 4 * 16 + bv b div 16) (bv b mod 16 * 4 + bv c div 64) = b"
  "b64_byte3 (bv b mod 16 * 4 + bv c div 64) (bv c mod 64) = c"
proof -
  have d: "bv b div 16 < 16" "bv c div 64 < 4"
    using byte_bound [of b] byte_bound [of c] by linarith+
  have "bv a div 4 * 4 + (bv a mod 4 * 16) div 16 = bv a" "bv a div 4 * 4 + (bv a mod 4 * 16 + bv b div 16) div 16 = bv a"
    using d by auto
  moreover have "(bv a mod 4 * 16 + bv b div 16) mod 16 * 16 + (bv b mod 16 * 4) div 4 = bv b"
    "(bv a mod 4 * 16 + bv b div 16) mod 16 * 16 + (bv b mod 16 * 4 + bv c div 64) div 4 = bv b"
    using d by (auto simp: mod_less)
  moreover have "(bv b mod 16 * 4 + bv c div 64) mod 4 * 64 + bv c mod 64 = bv c"
    using d by simp
  ultimately show "b64_byte1 (bv a div 4) (bv a mod 4 * 16) = a" "b64_byte1 (bv a div 4) (bv a mod 4 * 16 + bv b div 16) = a"
    "b64_byte2 (bv a mod 4 * 16 + bv b div 16) (bv b mod 16 * 4) = b" "b64_byte2 (bv a mod 4 * 16 + bv b div 16) (bv b mod 16 * 4 + bv c div 64) = b"
    "b64_byte3 (bv b mod 16 * 4 + bv c div 64) (bv c mod 64) = c"
    by (simp_all only: b64_byte1_def b64_byte2_def b64_byte3_def char_of_char)
qed

lemma b64_index: "bv a div 4 < 64" "bv a mod 4 * 16 < 64" "bv a mod 4 * 16 + bv b div 16 < 64" "bv b mod 16 * 4 < 64"
  "bv b mod 16 * 4 + bv c div 64 < 64" "bv c mod 64 < 64"
proof -
  have "bv a < 256" "bv b < 256" "bv c < 256" "bv a mod 4 < 4" "bv b mod 16 < 16"
    by (simp_all add: byte_bound)
  then show "bv a div 4 < 64" "bv a mod 4 * 16 < 64" "bv a mod 4 * 16 + bv b div 16 < 64" "bv b mod 16 * 4 < 64"
    "bv b mod 16 * 4 + bv c div 64 < 64" "bv c mod 64 < 64"
    by linarith+
qed

lemma b64_quanta_encode: "b64_quanta (b64_encode s) = Some s"
  by (induction s rule: b64_encode.induct) (simp_all add: b64_char_facts b64_bytes b64_index)

lemma b64_encode_chars: "c \<in> set (b64_encode s) \<Longrightarrow> 33 \<le> bv c \<and> bv c \<le> 126"
  by (induction s rule: b64_encode.induct) (auto simp: b64_char_facts)

lemma b64_filter: "filter (\<lambda>c. c \<noteq> CHR 0x0A \<and> c \<noteq> CHR 0x0D) (b64_encode s) = b64_encode s"
  by (rule filter_True) (fastforce dest: b64_encode_chars)

lemma b64_decode_encode: "b64_decode (b64_encode s) = Some s"
  by (simp add: b64_decode_def b64_filter b64_quanta_encode)

lemma base64_wrap_filter: "filter (\<lambda>c. c \<noteq> CHR 0x0A \<and> c \<noteq> CHR 0x0D) (base64_wrap s) = filter (\<lambda>c. c \<noteq> CHR 0x0A \<and> c \<noteq> CHR 0x0D) s"
proof (induction s rule: base64_wrap.induct)
  case (1 s)
  let ?P = "\<lambda>c. c \<noteq> CHR 0x0A \<and> c \<noteq> CHR 0x0D"
  have "filter ?P (take 76 s) @ filter ?P (drop 76 s) = filter ?P s"
    by (simp flip: filter_append)
  then show ?case
    using 1 by (subst base64_wrap.simps) (auto simp: crlf_def)
qed

lemma b64_decode_lines: "b64_decode (base64Lines s) = Some s"
  by (simp add: b64_decode_def base64Lines_def base64_wrap_filter b64_filter b64_quanta_encode)

section \<open>Encoded words are plain text\<close>

definition header_char :: "char \<Rightarrow> bool" where
  "header_char c = (32 \<le> bv c \<and> bv c \<le> 126 \<or> bv c = 9)"

lemma utf8_len_cases:
  assumes "utf8_len (a # s) = n"
  shows "n = 0 \<or> n = 1 \<and> bv a < 128 \<or> 2 \<le> n \<and> n \<le> 4 \<and> 128 \<le> rune_val (take n (a # s))"
  using assms by (auto simp: utf8_len_def rune_val_def cont_byte_def split: list.splits if_splits)

lemma rune_bytes: "(r, bs) \<in> set (runes s) \<Longrightarrow> bs \<noteq> [] \<and> length bs \<le> 4 \<and> (r < 128 \<longrightarrow> bs = [char_of r])"
proof (induction s rule: runes.induct)
  case (2 a s)
  let ?n = "utf8_len (a # s)"
  show ?case
  proof (cases "?n = 0")
    case True
    then show ?thesis using 2 by (auto simp: runes.simps(2) rune_error_def)
  next
    case False
    then have "(r, bs) \<in> set (runes (drop ?n (a # s))) \<or> r = rune_val (take ?n (a # s)) \<and> bs = take ?n (a # s)"
      using 2(3) by (auto simp: runes.simps(2) Let_def)
    then show ?thesis
      using 2(2) [OF refl False] utf8_len_cases [of a s ?n] False by (auto simp: rune_val_def)
  qed
qed simp

lemma upper_hex_chars: "n < 16 \<Longrightarrow> 33 \<le> bv (upper_hex n) \<and> bv (upper_hex n) \<le> 126"
  by (auto simp: upper_hex_def)

lemma q_byte_chars: "c \<in> set (q_byte b) \<Longrightarrow> 33 \<le> bv c \<and> bv c \<le> 126"
proof -
  have "bv b div 16 < 16"
    using byte_bound [of b] by linarith
  then show "c \<in> set (q_byte b) \<Longrightarrow> 33 \<le> bv c \<and> bv c \<le> 126"
    using upper_hex_chars [of "bv b div 16"] upper_hex_chars [of "bv b mod 16"] by (auto simp: q_byte_def q_plain_def split: if_splits)
qed

lemma q_encode_chars: "c \<in> set (q_encode rs cur) \<Longrightarrow> 32 \<le> bv c \<and> bv c \<le> 126"
proof (induction rs cur rule: q_encode.induct)
  case (2 r bs rs cur)
  have w: "32 \<le> bv c \<and> bv c \<le> 126" if "c \<in> set (concat (map q_byte bs))"
    using that q_byte_chars by fastforce
  show ?case
    using 2 w by (auto simp: Let_def close_word_def open_word_def split: if_splits)
qed simp

lemma mime_q_chars: "c \<in> set (mime_q s) \<Longrightarrow> header_char c"
proof (cases "needs_encoding s")
  case True
  assume "c \<in> set (mime_q s)"
  then show ?thesis
    using True q_encode_chars by (auto simp: mime_q_def header_char_def open_word_def close_word_def)
next
  case False
  assume "c \<in> set (mime_q s)"
  then have "c \<in> set (concat (map snd (runes s)))"
    using False by (simp only: mime_q_def runes_concat if_False)
  then obtain r bs where r: "(r, bs) \<in> set (runes s)" "c \<in> set bs"
    by auto
  then have "32 \<le> r \<and> r \<le> 126 \<or> r = 9"
    using False by (fastforce simp: needs_encoding_def list_ex_iff)
  then show ?thesis
    using r rune_bytes [OF r(1)] by (auto simp: header_char_def)
qed

lemma encodeWord_chars: "c \<in> set (encodeWord s) \<Longrightarrow> header_char c"
  using mime_q_chars by (auto simp: encodeWord_def Let_def split: if_splits)

lemma str_join_chars: "c \<in> set (str_join sep ws) \<Longrightarrow> c \<in> set sep \<or> (\<exists>w\<in>set ws. c \<in> set w)"
  by (induction sep ws rule: str_join.induct) auto

lemma nameList_chars: "c \<in> set (nameList s) \<Longrightarrow> header_char c"
proof -
  assume "c \<in> set (nameList s)"
  then have "c \<in> set '', '' \<or> (\<exists>p. c \<in> set (encodeWord p))"
    by (auto simp: nameList_def Let_def split: if_splits dest!: str_join_chars)
  then show ?thesis
    using encodeWord_chars by (auto simp: header_char_def)
qed

text \<open>Every encoded word has at most 75 bytes (RFC 2047).\<close>

lemma q_byte_len: "length (q_byte c) \<le> 3" "q_plain c \<or> c = CHR '' '' \<Longrightarrow> length (q_byte c) = 1"
  by (auto simp: q_byte_def)

lemma q_bytes_len: "length (concat (map q_byte bs)) \<le> 3 * length bs"
proof (induction bs)
  case (Cons c bs)
  then show ?case using q_byte_len(1) [of c] by simp
qed simp

definition enc_len :: "string \<Rightarrow> nat" where
  "enc_len bs = (if length bs = 1 \<and> (q_plain (hd bs) \<or> hd bs = CHR '' '') then 1 else 3 * length bs)"

lemma enc_len_bound: "length (concat (map q_byte bs)) \<le> enc_len bs" "length bs \<le> 4 \<Longrightarrow> enc_len bs \<le> 12"
proof -
  show "length bs \<le> 4 \<Longrightarrow> enc_len bs \<le> 12"
    by (simp add: enc_len_def)
  show "length (concat (map q_byte bs)) \<le> enc_len bs"
    using q_bytes_len [of bs] by (cases bs) (auto simp: enc_len_def q_byte_len(2))
qed

lemma q_bytes_no_space: "CHR '' '' \<notin> set (concat (map q_byte bs))"
  using q_byte_chars by fastforce

lemma split_word: "CHR '' '' \<notin> set w \<Longrightarrow> split_char (CHR '' '') (w @ t) = (w @ hd (split_char (CHR '' '') t)) # tl (split_char (CHR '' '') t)"
  by (induction w) (auto split: list.split simp: neq_Nil_conv)

lemma q_encode_words:
  assumes "\<forall>(r, bs)\<in>set rs. length bs \<le> 4" "cur \<le> 63"
  shows "length (hd (split_char (CHR '' '') (q_encode rs cur @ close_word))) \<le> 65 - cur
    \<and> (\<forall>w\<in>set (tl (split_char (CHR '' '') (q_encode rs cur @ close_word))). length w \<le> 75)"
  using assms
proof (induction rs cur rule: q_encode.induct)
  case (1 cur)
  then show ?case by (simp add: close_word_def)
next
  case (2 r bs rs cur)
  let ?w = "concat (map q_byte bs)"
  have b: "length ?w \<le> enc_len bs" "enc_len bs \<le> 12"
    using enc_len_bound [of bs] 2(3) by auto
  have rest: "\<forall>(r, bs)\<in>set rs. length bs \<le> 4"
    using 2(3) by simp
  note sp = q_bytes_no_space [of bs]
  show ?case
  proof (cases "cur + enc_len bs > 63")
    case True
    let ?t = "q_encode rs (enc_len bs) @ close_word"
    have e: "q_encode ((r, bs) # rs) cur @ close_word = close_word @ CHR '' '' # ((open_word @ ?w) @ ?t)"
      using True by (simp add: enc_len_def Let_def)
    have n: "CHR '' '' \<notin> set close_word" "CHR '' '' \<notin> set (open_word @ ?w)"
      using sp by (auto simp: close_word_def open_word_def)
    have s: "split_char (CHR '' '') (close_word @ CHR '' '' # ((open_word @ ?w) @ ?t)) =
        close_word # ((open_word @ ?w) @ hd (split_char (CHR '' '') ?t)) # tl (split_char (CHR '' '') ?t)"
      by (simp only: split_char_append [OF n(1)] split_word [OF n(2)])
    have "length (hd (split_char (CHR '' '') ?t)) \<le> 65 - enc_len bs \<and> (\<forall>w\<in>set (tl (split_char (CHR '' '') ?t)). length w \<le> 75)"
      using 2(1) [OF refl refl, folded enc_len_def] True rest b by simp
    then show ?thesis
      using b "2.prems"(2) unfolding e s by (auto simp: open_word_def close_word_def)
  next
    case False
    have e: "q_encode ((r, bs) # rs) cur @ close_word = ?w @ q_encode rs (cur + enc_len bs) @ close_word"
      using False by (simp add: enc_len_def Let_def)
    show ?thesis
      using 2(2) [OF refl refl, folded enc_len_def] False rest b unfolding e by (auto simp add: split_word [OF sp])
  qed
qed

text \<open>C23: the header values made of archive texts are safe: whatever a subject or name contains, its encoded form has only printable
  ASCII characters and tabs, so it cannot start a new header line, and every word of an encoded form has at most 75
  bytes, as RFC 2047 demands.\<close>
theorem encodeWord_safe:
  "(\<forall>c\<in>set (encodeWord s). 32 \<le> bv c \<and> bv c \<le> 126 \<or> c = CHR 0x09)
   \<and> (needs_encoding (oneLine s) \<longrightarrow> (\<forall>w\<in>set (split_char (CHR '' '') (encodeWord s)). length w \<le> 75))"
proof (intro conjI ballI impI)
  fix c assume "c \<in> set (encodeWord s)"
  then show "32 \<le> bv c \<and> bv c \<le> 126 \<or> c = CHR 0x09"
    using encodeWord_chars [of c s] of_char_eq_iff [of c "CHR 0x09", where 'a = nat] by (auto simp: header_char_def simp del: of_char_eq_iff)
next
  fix w assume e: "needs_encoding (oneLine s)" and w: "w \<in> set (split_char (CHR '' '') (encodeWord s))"
  let ?r = "runes (oneLine s)"
  have "oneLine s \<noteq> []"
    using e by (auto simp: needs_encoding_def)
  then have s: "encodeWord s = open_word @ q_encode ?r 0 @ close_word"
    using e by (simp add: encodeWord_def mime_q_def Let_def)
  have "CHR '' '' \<notin> set open_word"
    by (simp add: open_word_def)
  then have "w = open_word @ hd (split_char (CHR '' '') (q_encode ?r 0 @ close_word)) \<or> w \<in> set (tl (split_char (CHR '' '') (q_encode ?r 0 @ close_word)))"
    using w by (simp add: s split_word)
  moreover have "\<forall>(r, bs)\<in>set ?r. length bs \<le> 4"
    using rune_bytes by fastforce
  ultimately show "length w \<le> 75"
    using q_encode_words [of ?r 0] by (auto simp: open_word_def)
qed

section \<open>Escaped text\<close>

text \<open>The entities that \<^verbatim>\<open>xml.EscapeText\<close> writes, read back.\<close>

definition xml_entities :: "(string \<times> string) list" where
  "xml_entities = [(''&#34;'', [CHR 34]), (''&#39;'', [CHR 39]), (''&amp;'', ''&''), (''&lt;'', ''<''), (''&gt;'', ''>''), (''&#x9;'', [CHR 9]),
     (''&#xA;'', [CHR 10]), (''&#xD;'', [CHR 13])]"

function unesc :: "string \<Rightarrow> string" where
  "unesc [] = []"
| "unesc (c # s) = (case find (\<lambda>(e, t). prefix e (c # s)) xml_entities of
     Some (e, t) \<Rightarrow> t @ unesc (drop (length e) (c # s)) | None \<Rightarrow> c # unesc s)"
  by pat_completeness auto
termination
  by (relation "measure length") (auto simp: xml_entities_def find_Some_iff split: if_splits)

declare unesc.simps(2) [simp del]

lemma rune_bytes_high: "(r, bs) \<in> set (runes s) \<Longrightarrow> 128 \<le> r \<Longrightarrow> c \<in> set bs \<Longrightarrow> 128 \<le> bv c"
proof (induction s rule: runes.induct)
  case (2 a s)
  let ?n = "utf8_len (a # s)"
  have hd: "?n = 0 \<Longrightarrow> 128 \<le> bv a"
    by (auto simp: utf8_len_def split: if_splits)
  have tk: "1 < ?n \<Longrightarrow> \<forall>c\<in>set (take ?n (a # s)). 128 \<le> bv c"
    by (auto simp: utf8_len_def cont_byte_def split: list.splits if_splits)
  show ?case
  proof (cases "?n = 0")
    case True
    then show ?thesis using 2 hd by (auto simp: runes.simps(2))
  next
    case False
    then have "(r, bs) \<in> set (runes (drop ?n (a # s))) \<or> r = rune_val (take ?n (a # s)) \<and> bs = take ?n (a # s)"
      using 2(3) by (auto simp: runes.simps(2) Let_def)
    then show ?thesis
      using 2(2) [OF refl False] utf8_len_cases [of a s ?n] False tk 2(4,5) by (auto simp: rune_val_def)
  qed
qed simp

lemma unesc_plain: "CHR ''&'' \<notin> set bs \<Longrightarrow> unesc (bs @ t) = bs @ unesc t"
  by (induction bs) (auto simp: unesc.simps(2) xml_entities_def)

lemma unesc_entities:
  "unesc (''&#34;'' @ t) = CHR 34 # unesc t" "unesc (''&#39;'' @ t) = CHR 39 # unesc t" "unesc (''&amp;'' @ t) = CHR 38 # unesc t"
  "unesc (''&lt;'' @ t) = CHR 60 # unesc t" "unesc (''&gt;'' @ t) = CHR 62 # unesc t" "unesc (''&#x9;'' @ t) = CHR 9 # unesc t"
  "unesc (''&#xA;'' @ t) = CHR 10 # unesc t" "unesc (''&#xD;'' @ t) = CHR 13 # unesc t"
  by (simp_all add: unesc.simps(2) xml_entities_def)

lemma char_codes:
  "char_of (34::nat) = CHR 34" "char_of (39::nat) = CHR 39" "char_of (38::nat) = CHR 38" "char_of (60::nat) = CHR 60" "char_of (62::nat) = CHR 62"
  "char_of (9::nat) = CHR 9" "char_of (10::nat) = CHR 10" "char_of (13::nat) = CHR 13"
  by code_simp+

text \<open>Text XML can hold: its runes are allowed and none of its bytes is undecodable.\<close>

definition xml_text :: "string \<Rightarrow> bool" where
  "xml_text s = list_all (\<lambda>(r, bs). xml_char r \<and> \<not> (r = rune_error \<and> length bs = 1)) (runes s)"

lemma esc_rune_unesc:
  assumes "(r, bs) \<in> set (runes s)" "xml_char r" "\<not> (r = rune_error \<and> length bs = 1)"
  shows "unesc (esc_rune (r, bs) @ t) = bs @ unesc t"
proof (cases "r < 128")
  case True
  then have bs: "bs = [char_of r]"
    using rune_bytes [OF assms(1)] by simp
  have "r \<noteq> 38 \<Longrightarrow> CHR ''&'' \<notin> set bs"
    using True by (auto simp: bs dest!: arg_cong [where f = bv])
  then show ?thesis
    using assms(2,3) unesc_plain [of bs t] unesc_entities [of t] unfolding esc_rune_def
    by (auto simp: bs char_codes)
next
  case False
  then have "CHR ''&'' \<notin> set bs"
    using rune_bytes_high [OF assms(1)] by fastforce
  then show ?thesis
    using assms(2,3) False unesc_plain [of bs t] by (auto simp: esc_rune_def)
qed

lemma esc_rune_markup: "(r, bs) \<in> set (runes s) \<Longrightarrow> c \<in> set (esc_rune (r, bs)) \<Longrightarrow> bv c \<noteq> 60 \<and> bv c \<noteq> 62 \<and> bv c \<noteq> 34 \<and> bv c \<noteq> 39"
proof (cases "r < 128")
  case True
  assume "(r, bs) \<in> set (runes s)" "c \<in> set (esc_rune (r, bs))"
  then show ?thesis
    using True rune_bytes by (fastforce simp: esc_rune_def split: if_splits)
next
  case False
  assume "(r, bs) \<in> set (runes s)" "c \<in> set (esc_rune (r, bs))"
  then show ?thesis
    using False rune_bytes_high [of r bs s c] by (auto simp: esc_rune_def split: if_splits)
qed

lemma xesc_chars: "c \<in> set (xesc s) \<Longrightarrow> c \<notin> {CHR ''<'', CHR ''>'', CHR 34, CHR 39}"
proof -
  assume "c \<in> set (xesc s)"
  then obtain r bs where "(r, bs) \<in> set (runes s)" "c \<in> set (esc_rune (r, bs))"
    by (auto simp: xesc_def)
  from esc_rune_markup [OF this] show ?thesis
    by auto
qed

lemma unesc_xesc: "xml_text s \<Longrightarrow> unesc (xesc s) = s"
proof -
  assume "xml_text s"
  then have all: "\<forall>(r, bs)\<in>set (runes s). xml_char r \<and> \<not> (r = rune_error \<and> length bs = 1)"
    by (auto simp: xml_text_def list_all_iff)
  have "unesc (concat (map esc_rune rs)) = concat (map snd rs)" if "set rs \<subseteq> set (runes s)" for rs
    using that
  proof (induction rs)
    case (Cons p rs)
    obtain r bs where p: "p = (r, bs)" by (cases p)
    show ?case
      using Cons all esc_rune_unesc [of r bs s] by (auto simp: p)
  qed simp
  then show ?thesis
    using runes_concat [of s] by (simp add: xesc_def)
qed

theorem encodeWord_safe_witness:
  "needs_encoding (oneLine [CHR ''a'', CHR 0x7F, CHR ''b'']) \<and> list_all (\<lambda>w. length w \<le> 75) (split_char (CHR '' '') (encodeWord [CHR ''a'', CHR 0x7F, CHR ''b'']))"
proof -
  have "oneLine [CHR ''a'', CHR 0x7F, CHR ''b''] = [CHR ''a'', CHR 0x7F, CHR ''b'']"
    by (simp add: oneLine_def trim_space_def strip_by.simps space_seqs_def)
  then have "needs_encoding (oneLine [CHR ''a'', CHR 0x7F, CHR ''b''])"
    by (simp add: needs_encoding_def runes_ascii_Cons)
  then show ?thesis
    using encodeWord_safe [of "[CHR ''a'', CHR 0x7F, CHR ''b'']"] by (simp add: list_all_iff)
qed

end
