(* ===== verification/Soap.thy ===== *)
theory Soap
  imports Encoding Endpoint
begin

text \<open>
  The SOAP client of the EWS transport: authentication (\<^verbatim>\<open>internal/endpoint/ews_auth.go\<close>), the client and the decoding of responses
  (\<^verbatim>\<open>internal/endpoint/ews.go\<close>). Parameters (\<open>weblib\<close>, over the state \<open>'s\<close> of the network, the server and the clock): sending an
  HTTP request, the clock, the parsers of URLs, XML, JSON and times. The struct tags that pick the fields out of an XML document are
  modelled on its tree. Log lines are left out.
\<close>

section \<open>XML documents\<close>

text \<open>A document as \<^verbatim>\<open>encoding/xml\<close> reads it, with local names; comments and processing instructions are left out.\<close>

datatype xml = Elem string "(string \<times> string) list" "xml list" | Text string

fun named :: "string \<Rightarrow> xml \<Rightarrow> bool" where
  "named n (Elem m _ _) = (m = n)"
| "named n (Text _) = False"

fun children :: "xml \<Rightarrow> xml list" where
  "children (Elem _ _ xs) = xs"
| "children (Text _) = []"

fun attributes :: "xml \<Rightarrow> (string \<times> string) list" where
  "attributes (Elem _ as _) = as"
| "attributes (Text _) = []"

fun is_elem :: "xml \<Rightarrow> bool" where
  "is_elem (Elem _ _ _) = True"
| "is_elem (Text _) = False"

fun chars_of :: "xml \<Rightarrow> string" where
  "chars_of (Text t) = t"
| "chars_of (Elem _ _ _) = []"

text \<open>\<^verbatim>\<open>chardata\<close>: the text directly inside an element.\<close>

definition chardata :: "xml \<Rightarrow> string" where "chardata x = concat (map chars_of (children x))"

text \<open>
  The elements a tag \<^verbatim>\<open>a>b>c\<close> selects below the given ones, in document order, and what Go stores: a later element or attribute
  overwrites the value of an earlier one, a slice gets one entry for each.
\<close>

definition at :: "string list \<Rightarrow> xml list \<Rightarrow> xml list" where
  "at path xs = fold (\<lambda>n ys. concat (map (\<lambda>y. filter (named n) (children y)) ys)) path xs"

definition any_of :: "xml list \<Rightarrow> xml list" where "any_of xs = concat (map (\<lambda>x. filter is_elem (children x)) xs)"

definition last_or :: "'a \<Rightarrow> 'a list \<Rightarrow> 'a" where "last_or d xs = (if xs = [] then d else last xs)"

definition text_at :: "string \<Rightarrow> xml list \<Rightarrow> string" where "text_at n xs = last_or [] (map chardata (at [n] xs))"

definition attrs_of :: "string \<Rightarrow> xml list \<Rightarrow> string list" where
  "attrs_of n xs = concat (map (\<lambda>x. map snd (filter (\<lambda>(k, _). k = n) (attributes x))) xs)"

definition attr_of :: "string \<Rightarrow> xml list \<Rightarrow> string" where "attr_of n xs = last_or [] (attrs_of n xs)"

fun conv_last :: "(string \<Rightarrow> 'a result) \<Rightarrow> 'a \<Rightarrow> string list \<Rightarrow> 'a result" where
  "conv_last f d [] = Inr d"
| "conv_last f d (v # vs) = (case f v of Inl e \<Rightarrow> Inl e | Inr x \<Rightarrow> conv_last f x vs)"

fun all_results :: "'a result list \<Rightarrow> 'a list result" where
  "all_results [] = Inr []"
| "all_results (r # rs) = (case r of Inl e \<Rightarrow> Inl e | Inr x \<Rightarrow> (case all_results rs of Inl e \<Rightarrow> Inl e | Inr xs \<Rightarrow> Inr (x # xs)))"

text \<open>How \<^verbatim>\<open>encoding/xml\<close> converts text to a bool and to a uint32.\<close>

definition conv_err :: "utab \<Rightarrow> string \<Rightarrow> string \<Rightarrow> string \<Rightarrow> goerr" where
  "conv_err ut fn v why = errnew (''strconv.'' @ fn @ '': parsing '' @ quote_str ut v @ '': '' @ why)"

definition xml_bool :: "utab \<Rightarrow> string \<Rightarrow> bool result" where
  "xml_bool ut v0 =
     (if v0 = [] then Inr False
      else let v = trim_space v0 in
        if v \<in> {''1'', ''t'', ''T'', ''TRUE'', ''true'', ''True''} then Inr True
        else if v \<in> {''0'', ''f'', ''F'', ''FALSE'', ''false'', ''False''} then Inr False
        else Inl (conv_err ut ''ParseBool'' v ''invalid syntax''))"

definition xml_uint32 :: "utab \<Rightarrow> string \<Rightarrow> 32 word result" where
  "xml_uint32 ut v0 =
     (if v0 = [] then Inr 0
      else let v = trim_space v0 in
        if v = [] \<or> \<not> list_all is_digit v then Inl (conv_err ut ''ParseUint'' v ''invalid syntax'')
        else if str_nat v \<ge> 2 ^ 32 then Inl (conv_err ut ''ParseUint'' v ''value out of range'')
        else Inr (of_nat (str_nat v)))"

section \<open>Responses\<close>

record respMsg =
  ResponseClass :: string
  ResponseCode :: string
  MessageText :: string

definition respMsg_at :: "xml list \<Rightarrow> respMsg" where
  "respMsg_at xs = \<lparr>ResponseClass = attr_of ''ResponseClass'' xs, ResponseCode = text_at ''ResponseCode'' xs, MessageText = text_at ''MessageText'' xs\<rparr>"

definition resp_err :: "respMsg \<Rightarrow> string \<Rightarrow> goerr option" where
  "resp_err r op0 =
     (if ResponseCode r \<noteq> [] \<and> ResponseCode r \<noteq> ''NoError'' then Some (errnew (''EWS '' @ op0 @ '': '' @ ResponseCode r @ '': '' @ MessageText r))
      else if ResponseClass r = ''Error'' then Some (errnew (''EWS '' @ op0 @ '': '' @ MessageText r)) else None)"

definition item_id :: "string \<Rightarrow> xml \<Rightarrow> string" where "item_id tag x = attr_of ''Id'' (at [tag] [x])"

text \<open>The anonymous structs of \<^verbatim>\<open>findFolder\<close>, \<^verbatim>\<open>ListIDs\<close>, \<^verbatim>\<open>getItems\<close> and \<^verbatim>\<open>Append\<close>, filled from the root element.\<close>

definition find_folder_out :: "xml \<Rightarrow> respMsg \<times> (string \<times> string) list" where
  "find_folder_out root =
     (let msg = at [''Body'', ''FindFolderResponse'', ''ResponseMessages'', ''FindFolderResponseMessage''] [root]
      in (respMsg_at msg, map (\<lambda>f. (item_id ''FolderId'' f, text_at ''DisplayName'' [f])) (any_of (at [''RootFolder'', ''Folders''] msg))))"

definition find_item_out :: "utab \<Rightarrow> xml \<Rightarrow> (respMsg \<times> bool \<times> string list) result" where
  "find_item_out ut root =
     (let msg = at [''Body'', ''FindItemResponse'', ''ResponseMessages'', ''FindItemResponseMessage''] [root]; rf = at [''RootFolder''] msg
      in case conv_last (xml_bool ut) False (attrs_of ''IncludesLastItemInRange'' rf) of
           Inl e \<Rightarrow> Inl e
         | Inr la \<Rightarrow> Inr (respMsg_at msg, la, map (item_id ''ItemId'') (any_of (at [''Items''] rf))))"

record ewsItem =
  eiItemID :: string
  eiSubject :: string
  eiDateTimeReceived :: string
  eiSize :: "32 word"
  eiIsRead :: string
  eiIsDraft :: string
  eiInternetMsgID :: string
  eiMimeContent :: string
  eiHeaders :: "(string \<times> string) list"

definition ewsItem_at :: "utab \<Rightarrow> xml \<Rightarrow> ewsItem result" where
  "ewsItem_at ut x =
     (case conv_last (xml_uint32 ut) 0 (map chardata (at [''Size''] [x])) of
        Inl e \<Rightarrow> Inl e
      | Inr sz \<Rightarrow> Inr \<lparr>eiItemID = item_id ''ItemId'' x, eiSubject = text_at ''Subject'' [x], eiDateTimeReceived = text_at ''DateTimeReceived'' [x],
          eiSize = sz, eiIsRead = text_at ''IsRead'' [x], eiIsDraft = text_at ''IsDraft'' [x], eiInternetMsgID = text_at ''InternetMessageId'' [x],
          eiMimeContent = text_at ''MimeContent'' [x],
          eiHeaders = map (\<lambda>h. (attr_of ''HeaderName'' [h], chardata h)) (at [''InternetMessageHeaders'', ''InternetMessageHeader''] [x])\<rparr>)"

definition get_item_msg :: "utab \<Rightarrow> xml \<Rightarrow> (respMsg \<times> ewsItem list) result" where
  "get_item_msg ut x =
     (case all_results (map (ewsItem_at ut) (any_of (at [''Items''] [x]))) of Inl e \<Rightarrow> Inl e | Inr items \<Rightarrow> Inr (respMsg_at [x], items))"

definition get_item_out :: "utab \<Rightarrow> xml \<Rightarrow> (respMsg \<times> ewsItem list) list result" where
  "get_item_out ut root =
     all_results (map (get_item_msg ut) (at [''Body'', ''GetItemResponse'', ''ResponseMessages'', ''GetItemResponseMessage''] [root]))"

definition create_item_out :: "xml \<Rightarrow> respMsg \<times> string list" where
  "create_item_out root =
     (let msg = at [''Body'', ''CreateItemResponse'', ''ResponseMessages'', ''CreateItemResponseMessage''] [root]
      in (respMsg_at msg, map (item_id ''ItemId'') (any_of (at [''Items''] msg))))"

section \<open>Requests\<close>

record Request =
  rqURL :: string
  rqHeaders :: "(string, string) table"
  rqBody :: string

definition set_header :: "string \<Rightarrow> string \<Rightarrow> Request \<Rightarrow> Request" where
  "set_header k v r = r\<lparr>rqHeaders := AList.update k v (rqHeaders r)\<rparr>"

definition get_header :: "Request \<Rightarrow> string \<Rightarrow> string" where
  "get_header r k = (case map_of (rqHeaders r) k of Some v \<Rightarrow> v | None \<Rightarrow> [])"

text \<open>The JSON answer of the token endpoint.\<close>

record tokenResp =
  trAccessToken :: string
  trExpiresIn :: int
  trError :: string
  trDescription :: string

text \<open>
  \<open>wlDo\<close> is \<^verbatim>\<open>http.Client.Do\<close> of the EWS connection (the flag: through the NTLM negotiator) with the body that can be read,
  \<open>wlDoToken\<close> that of the token client; \<open>wlURL\<close> is the error of \<^verbatim>\<open>http.NewRequestWithContext\<close>.
\<close>

record 's weblib =
  wlURL :: "string \<Rightarrow> goerr option"
  wlDo :: "bool \<Rightarrow> Request \<Rightarrow> 's \<Rightarrow> (int \<times> string) result \<times> 's"
  wlDoToken :: "Request \<Rightarrow> 's \<Rightarrow> (int \<times> string) result \<times> 's"
  wlNow :: "'s \<Rightarrow> time \<times> 's"
  wlXML :: "string \<Rightarrow> xml result"
  wlJSON :: "string \<Rightarrow> tokenResp option"
  wlTime :: "string \<Rightarrow> string \<Rightarrow> time option"

section \<open>Authentication\<close>

record oauthAuth =
  oaTokenURL :: string
  oaClientID :: string
  oaSecret :: string
  oaScope :: string

datatype ewsAuth = BasicAuth string string | NtlmAuth string string | OAuth oauthAuth

definition DefaultOAuthScope :: string where "DefaultOAuthScope = ''https://outlook.office365.com/.default''"

definition newEWSAuth :: "Server \<Rightarrow> ewsAuth" where
  "newEWSAuth srv =
     (if sEWSAuth srv = EWSAuthNTLM then NtlmAuth (sMasterUser srv) (sMasterPass srv)
      else if sEWSAuth srv = EWSAuthOAuth2 then
        OAuth \<lparr>oaTokenURL = OAuthTokenEndpoint srv, oaClientID = sOAuthClientID srv, oaSecret = sOAuthClientSecret srv,
          oaScope = (if trim_space (sOAuthScope srv) = [] then DefaultOAuthScope else trim_space (sOAuthScope srv))\<rparr>
      else BasicAuth (sMasterUser srv) (sMasterPass srv))"

text \<open>
  The state of one side: the world outside, the token cache of \<^verbatim>\<open>oauthAuth\<close> (shared by all connections of the backend) and the
  folder fields of \<^verbatim>\<open>ewsEndpoint\<close>.
\<close>

record 's ews =
  ewConn :: 's
  ewTok :: string
  ewExp :: time
  ewFolderXML :: string
  ewFolder :: string

definition tokenSkew :: duration where "tokenSkew = 120 * second"

definition who :: "ewsAuth \<Rightarrow> string" where
  "who a = (case a of BasicAuth u p \<Rightarrow> ''basic '' @ u | NtlmAuth u p \<Rightarrow> ''ntlm '' @ u | OAuth c \<Rightarrow> ''oauth2 app '' @ oaClientID c)"

text \<open>\<^verbatim>\<open>url.QueryEscape\<close>; \<^verbatim>\<open>url.Values.Encode\<close> sorts by key.\<close>

definition query_char :: "char \<Rightarrow> bool" where
  "query_char c = (let n = bv c in (48 \<le> n \<and> n \<le> 57) \<or> (65 \<le> n \<and> n \<le> 90) \<or> (97 \<le> n \<and> n \<le> 122) \<or> c \<in> {CHR ''-'', CHR ''_'', CHR ''.'', CHR ''~''})"

definition query_escape :: "string \<Rightarrow> string" where
  "query_escape s = concat (map (\<lambda>c. if query_char c then [c] else if c = CHR '' '' then ''+''
     else [CHR 0x25, upper_hex (bv c div 16), upper_hex (bv c mod 16)]) s)"

definition token_form :: "oauthAuth \<Rightarrow> string" where
  "token_form a = ''client_id='' @ query_escape (oaClientID a) @ ''&client_secret='' @ query_escape (oaSecret a)
     @ ''&grant_type=client_credentials&scope='' @ query_escape (oaScope a)"

text \<open>\<^verbatim>\<open>io.LimitReader\<close>: at most 1 MiB of a token answer and 64 MiB of an EWS answer are read.\<close>

definition token_limit :: nat where "token_limit = 2 ^ 20"
definition body_limit :: nat where "body_limit = 64 * 2 ^ 20"

definition token_ttl :: "int \<Rightarrow> duration" where
  "token_ttl expires = (let ttl = int64 (expires * second) in if ttl \<le> tokenSkew then tokenSkew + 60 * second else ttl)"

definition fetch :: "'s weblib \<Rightarrow> oauthAuth \<Rightarrow> 's \<Rightarrow> (string \<times> duration) result \<times> 's" where
  "fetch L a s =
     (let msg = ''oauth2 token '' @ oaTokenURL a @ '': '' in
      case wlURL L (oaTokenURL a) of
        Some e \<Rightarrow> (Inl (wrapf msg e), s)
      | None \<Rightarrow>
          (case wlDoToken L \<lparr>rqURL = oaTokenURL a, rqHeaders = [(''Content-Type'', ''application/x-www-form-urlencoded'')], rqBody = token_form a\<rparr> s of
             (Inl e, s1) \<Rightarrow> (Inl (wrapf msg e), s1)
           | (Inr (status, body), s1) \<Rightarrow>
               (let data = take token_limit body; http = ''HTTP '' @ itoa status @ '': '' in
                case wlJSON L data of
                  None \<Rightarrow> (Inl (errnew (msg @ http @ snippet data)), s1)
                | Some tr \<Rightarrow>
                    if status \<noteq> 200 \<or> trAccessToken tr = [] then
                      (if trError tr \<noteq> [] then (Inl (errnew (msg @ http @ trError tr @ '': '' @ oneLine (trDescription tr))), s1)
                       else (Inl (errnew (msg @ http @ ''no access_token'')), s1))
                    else (Inr (trAccessToken tr, token_ttl (trExpiresIn tr)), s1))))"

definition token :: "'s weblib \<Rightarrow> oauthAuth \<Rightarrow> 's ews \<Rightarrow> string result \<times> 's ews" where
  "token L a s =
     (let (now, c) = (if ewTok s \<noteq> [] then wlNow L (ewConn s) else (0, ewConn s)) in
      if ewTok s \<noteq> [] \<and> now < ewExp s then (Inr (ewTok s), s\<lparr>ewConn := c\<rparr>)
      else (case fetch L a c of
          (Inl e, c1) \<Rightarrow> (Inl e, s\<lparr>ewConn := c1\<rparr>)
        | (Inr (tok, ttl), c1) \<Rightarrow> (case wlNow L c1 of (now2, c2) \<Rightarrow>
            (Inr tok, s\<lparr>ewConn := c2, ewTok := tok, ewExp := now2 + (ttl - tokenSkew)\<rparr>))))"

definition basic_header :: "string \<Rightarrow> string \<Rightarrow> string" where
  "basic_header user pass = ''Basic '' @ b64_encode (user @ '':'' @ pass)"

definition authorize :: "'s weblib \<Rightarrow> ewsAuth \<Rightarrow> Request \<Rightarrow> string \<Rightarrow> 's ews \<Rightarrow> Request result \<times> 's ews" where
  "authorize L au req impersonate s =
     (case au of
        BasicAuth u p \<Rightarrow> (Inr (set_header ''Authorization'' (basic_header u p) req), s)
      | NtlmAuth u p \<Rightarrow> (Inr (set_header ''Authorization'' (basic_header u p) req), s)
      | OAuth a \<Rightarrow> (case token L a s of
          (Inl e, s1) \<Rightarrow> (Inl e, s1)
        | (Inr tok, s1) \<Rightarrow> (let r = set_header ''Authorization'' (''Bearer '' @ tok) req in
            (Inr (if impersonate \<noteq> [] then set_header ''X-AnchorMailbox'' impersonate r else r), s1))))"

definition rejected :: "ewsAuth \<Rightarrow> Request \<Rightarrow> 's ews \<Rightarrow> bool \<times> 's ews" where
  "rejected au req s =
     (case au of
        OAuth a \<Rightarrow> (let used = trim_prefix ''Bearer '' (get_header req ''Authorization'') in
          if ewTok s = [] \<or> ewTok s \<noteq> used then (False, s) else (True, s\<lparr>ewTok := []\<rparr>))
      | _ \<Rightarrow> (False, s))"

section \<open>The client\<close>

record ewsClient =
  clURL :: string
  clAuth :: ewsAuth
  clImpersonate :: string

definition impersonation :: "string \<Rightarrow> string" where
  "impersonation user = (if user \<noteq> [] then
     ''<t:ExchangeImpersonation><t:ConnectingSID><t:PrimarySmtpAddress>'' @ xesc user @
     ''</t:PrimarySmtpAddress></t:ConnectingSID></t:ExchangeImpersonation>'' else [])"

definition soapEnvelope :: "string \<Rightarrow> string \<Rightarrow> string" where
  \<open>soapEnvelope imp body =
     ''<?xml version="1.0" encoding="utf-8"?>'' @ [CHR 0x0A] @
     ''<soap:Envelope xmlns:soap="http://schemas.xmlsoap.org/soap/envelope/" xmlns:t="http://schemas.microsoft.com/exchange/services/2006/types" xmlns:m="http://schemas.microsoft.com/exchange/services/2006/messages">''
     @ [CHR 0x0A] @ ''<soap:Header><t:RequestServerVersion Version="Exchange2013"/>'' @ imp @ ''</soap:Header>'' @ [CHR 0x0A]
     @ ''<soap:Body>'' @ body @ ''</soap:Body>'' @ [CHR 0x0A] @ ''</soap:Envelope>''\<close>

definition post :: "'s weblib \<Rightarrow> ewsClient \<Rightarrow> string \<Rightarrow> 's ews \<Rightarrow> (int \<times> string \<times> bool) result \<times> 's ews" where
  "post L cl env s =
     (case wlURL L (clURL cl) of
        Some e \<Rightarrow> (Inl e, s)
      | None \<Rightarrow>
          (case authorize L (clAuth cl) \<lparr>rqURL = clURL cl, rqHeaders = [(''Content-Type'', ''text/xml; charset=utf-8'')], rqBody = env\<rparr> (clImpersonate cl) s of
             (Inl e, s1) \<Rightarrow> (Inl (wrapf (''EWS '' @ clURL cl @ '': '') e), s1)
           | (Inr req, s1) \<Rightarrow>
               (case wlDo L (case clAuth cl of NtlmAuth _ _ \<Rightarrow> True | _ \<Rightarrow> False) req (ewConn s1) of
                  (Inl e, c) \<Rightarrow> (Inl (wrapf (''EWS '' @ clURL cl @ '': '') e), s1\<lparr>ewConn := c\<rparr>)
                | (Inr (status, body), c) \<Rightarrow>
                    (let (retry, s2) = (if status = 401 then rejected (clAuth cl) req (s1\<lparr>ewConn := c\<rparr>) else (False, s1\<lparr>ewConn := c\<rparr>))
                     in (Inr (status, take body_limit body, retry), s2)))))"

text \<open>The loop of \<^verbatim>\<open>call\<close>, by the number of the attempt.\<close>

function call_loop :: "'s weblib \<Rightarrow> ewsClient \<Rightarrow> string \<Rightarrow> nat \<Rightarrow> 's ews \<Rightarrow> string result \<times> 's ews" where
  "call_loop L cl env attempt s =
     (case post L cl env s of
        (Inl e, s1) \<Rightarrow> (Inl e, s1)
      | (Inr (status, data, retry), s1) \<Rightarrow>
          if retry \<and> attempt = 0 then call_loop L cl env (attempt + 1) s1
          else if status \<noteq> 200 then
            (if status = 401 then (Inl (errnew (''EWS '' @ clURL cl @ '': HTTP 401 unauthorized as '' @ who (clAuth cl) @ '': '' @ snippet data)), s1)
             else (Inl (errnew (''EWS '' @ clURL cl @ '': HTTP '' @ itoa status @ '': '' @ snippet data)), s1))
          else (Inr data, s1))"
  by pat_completeness auto
termination by (relation "measure (\<lambda>(_, _, _, n, _). 1 - n)") auto

declare call_loop.simps [simp del]

definition call :: "'s weblib \<Rightarrow> ewsClient \<Rightarrow> string \<Rightarrow> 's ews \<Rightarrow> string result \<times> 's ews" where
  "call L cl body s = call_loop L cl (soapEnvelope (impersonation (clImpersonate cl)) body) 0 s"

section \<open>What is sent\<close>

text \<open>The library with a log of the requests and their outcomes.\<close>

datatype traffic = EwsCall Request "(int \<times> string) result" | TokenCall Request "(int \<times> string) result"

definition logged :: "'s weblib \<Rightarrow> ('s \<times> traffic list) weblib" where
  "logged L = \<lparr>wlURL = wlURL L,
     wlDo = (\<lambda>nt q (c, t). case wlDo L nt q c of (x, c') \<Rightarrow> (x, (c', t @ [EwsCall q x]))),
     wlDoToken = (\<lambda>q (c, t). case wlDoToken L q c of (x, c') \<Rightarrow> (x, (c', t @ [TokenCall q x]))),
     wlNow = (\<lambda>(c, t). case wlNow L c of (n, c') \<Rightarrow> (n, (c', t))),
     wlXML = wlXML L, wlJSON = wlJSON L, wlTime = wlTime L\<rparr>"

abbreviation log_of :: "('s \<times> traffic list) ews \<Rightarrow> traffic list" where "log_of s \<equiv> snd (ewConn s)"

text \<open>At most one request for a token, to the token endpoint.\<close>

definition token_part :: "ewsAuth \<Rightarrow> traffic list \<Rightarrow> bool" where
  "token_part au ts = (ts = [] \<or> (\<exists>a q x. au = OAuth a \<and> ts = [TokenCall q x] \<and> rqURL q = oaTokenURL a \<and> rqBody q = token_form a))"

lemma fetch_traffic:
  assumes "fetch (logged L) a c = (r, c')"
  shows "\<exists>ts. snd c' = snd c @ ts \<and> token_part (OAuth a) ts \<and> (ts = [] \<longrightarrow> isl r)"
  using assms by (auto simp: fetch_def logged_def token_part_def Let_def split: option.splits prod.splits sum.splits if_splits)

lemma logged_now: "wlNow (logged L) c = (n, c') \<Longrightarrow> snd c' = snd c"
  by (auto simp: logged_def split: prod.splits)

lemma token_traffic:
  assumes "token (logged L) a s = (r, s')"
  shows "\<exists>ts. log_of s' = log_of s @ ts \<and> token_part (OAuth a) ts \<and> (ts = [] \<longrightarrow> isl r \<or> ewTok s \<noteq> [])"
proof -
  obtain n c where n: "(if ewTok s \<noteq> [] then wlNow (logged L) (ewConn s) else (0, ewConn s)) = (n, c)" by (metis surj_pair)
  then have c: "snd c = log_of s"
    by (auto split: if_splits dest: logged_now)
  obtain x c1 where f: "fetch (logged L) a c = (x, c1)" by (cases "fetch (logged L) a c")
  from fetch_traffic [OF f] obtain ts where ts: "snd c1 = log_of s @ ts" "token_part (OAuth a) ts" "ts = [] \<longrightarrow> isl x"
    by (auto simp: c)
  show ?thesis
  proof (cases "ewTok s \<noteq> [] \<and> n < ewExp s")
    case True
    then show ?thesis
      using assms c unfolding token_def n by (auto simp: token_part_def)
  next
    case False
    then show ?thesis
      using assms ts unfolding token_def n by (auto simp: f split: sum.splits prod.splits dest!: logged_now)
  qed
qed

lemma set_header_sel [simp]: "rqURL (set_header k v q) = rqURL q" "rqBody (set_header k v q) = rqBody q"
  by (simp_all add: set_header_def)

lemma authorize_traffic:
  assumes "authorize (logged L) au q u s = (r, s')"
  shows "\<exists>ts. log_of s' = log_of s @ ts \<and> token_part au ts \<and> (\<forall>q'. r = Inr q' \<longrightarrow> rqURL q' = rqURL q \<and> rqBody q' = rqBody q)
    \<and> (\<forall>a. au = OAuth a \<and> ts = [] \<longrightarrow> isl r \<or> ewTok s \<noteq> [])"
proof (cases au)
  case (OAuth a)
  obtain x s1 where t: "token (logged L) a s = (x, s1)" by (cases "token (logged L) a s")
  show ?thesis
    using assms token_traffic [OF t] by (auto simp: OAuth authorize_def t Let_def split: sum.splits if_splits)
qed (use assms in \<open>auto simp: authorize_def token_part_def\<close>)

text \<open>One request, and what its answer makes of the token.\<close>

definition sent_part :: "ewsClient \<Rightarrow> string \<Rightarrow> (int \<times> string \<times> bool) result \<Rightarrow> ('s \<times> traffic list) ews \<Rightarrow> traffic list \<Rightarrow> bool" where
  "sent_part cl env r s' us =
     (us = [] \<and> isl r \<or> (\<exists>q x. us = [EwsCall q x] \<and> rqURL q = clURL cl \<and> rqBody q = env \<and>
        (case x of Inl _ \<Rightarrow> isl r
         | Inr (status, b) \<Rightarrow> \<exists>retry. r = Inr (status, take body_limit b, retry)
             \<and> (retry \<longrightarrow> status = 401 \<and> (\<exists>a. clAuth cl = OAuth a) \<and> ewTok s' = []))))"

lemma rejected_facts: "rejected au q s = (b, s') \<Longrightarrow> ewConn s' = ewConn s \<and> ewFolderXML s' = ewFolderXML s \<and> ewFolder s' = ewFolder s \<and> (b \<longrightarrow> (\<exists>a. au = OAuth a) \<and> ewTok s' = [])"
  by (auto simp: rejected_def Let_def split: ewsAuth.splits if_splits)

lemma post_traffic:
  assumes "post (logged L) cl env s = (r, s')"
  shows "\<exists>ts us. log_of s' = log_of s @ ts @ us \<and> token_part (clAuth cl) ts \<and> sent_part cl env r s' us
    \<and> (\<forall>a. clAuth cl = OAuth a \<and> ts = [] \<and> us \<noteq> [] \<longrightarrow> ewTok s \<noteq> [])"
proof (cases "wlURL (logged L) (clURL cl)")
  case (Some e)
  then show ?thesis
    using assms by (auto simp: post_def token_part_def sent_part_def)
next
  case None
  let ?q = "\<lparr>rqURL = clURL cl, rqHeaders = [(''Content-Type'', ''text/xml; charset=utf-8'')], rqBody = env\<rparr>"
  let ?nt = "case clAuth cl of NtlmAuth _ _ \<Rightarrow> True | _ \<Rightarrow> False"
  obtain x s1 where a: "authorize (logged L) (clAuth cl) ?q (clImpersonate cl) s = (x, s1)"
    by (cases "authorize (logged L) (clAuth cl) ?q (clImpersonate cl) s")
  from authorize_traffic [OF a] obtain ts where ts: "log_of s1 = log_of s @ ts" "token_part (clAuth cl) ts"
      "\<And>q'. x = Inr q' \<Longrightarrow> rqURL q' = clURL cl \<and> rqBody q' = env" "\<forall>a. clAuth cl = OAuth a \<and> ts = [] \<longrightarrow> isl x \<or> ewTok s \<noteq> []"
    by auto
  show ?thesis
  proof (cases x)
    case (Inl e)
    then have "s' = s1" "isl r"
      using assms None a by (auto simp: post_def)
    then show ?thesis
      using ts by (intro exI [of _ ts] exI [of _ "[]"]) (simp add: sent_part_def)
  next
    case (Inr q)
    obtain y c where d: "wlDo (logged L) ?nt q (ewConn s1) = (y, c)" by (cases "wlDo (logged L) ?nt q (ewConn s1)")
    then have c: "snd c = log_of s @ ts @ [EwsCall q y]"
      using ts(1) by (auto simp: logged_def split: prod.splits)
    have q: "rqURL q = clURL cl" "rqBody q = env"
      using ts(3) [OF Inr] by auto
    have "log_of s' = snd c \<and> sent_part cl env r s' [EwsCall q y]"
    proof (cases y)
      case (Inl e)
      then show ?thesis
        using assms None a Inr d q by (auto simp: post_def sent_part_def)
    next
      case y: (Inr p)
      obtain status body where p: "p = (status, body)" by (cases p)
      obtain rt s2 where rt: "(if status = 401 then rejected (clAuth cl) q (s1\<lparr>ewConn := c\<rparr>) else (False, s1\<lparr>ewConn := c\<rparr>)) = (rt, s2)"
        by (metis surj_pair)
      then have "log_of s2 = snd c \<and> (rt \<longrightarrow> status = 401 \<and> (\<exists>a. clAuth cl = OAuth a) \<and> ewTok s2 = [])"
        by (auto split: if_splits dest: rejected_facts)
      then show ?thesis
        using assms None a Inr d q y rt by (auto simp: post_def sent_part_def p)
    qed
    then show ?thesis
      using c ts Inr by auto
  qed
qed

fun ews_calls :: "traffic list \<Rightarrow> (Request \<times> (int \<times> string) result) list" where
  "ews_calls [] = []"
| "ews_calls (EwsCall q x # t) = (q, x) # ews_calls t"
| "ews_calls (TokenCall q x # t) = ews_calls t"

fun token_calls :: "traffic list \<Rightarrow> Request list" where
  "token_calls [] = []"
| "token_calls (EwsCall q x # t) = token_calls t"
| "token_calls (TokenCall q x # t) = q # token_calls t"

lemma calls_append [simp]: "ews_calls (t @ u) = ews_calls t @ ews_calls u" "token_calls (t @ u) = token_calls t @ token_calls u"
  by (induction t rule: ews_calls.induct) auto


lemma part_calls:
  "token_part au ts \<Longrightarrow> ews_calls ts = [] \<and> (\<forall>q\<in>set (token_calls ts). \<exists>a. au = OAuth a \<and> rqURL q = oaTokenURL a \<and> rqBody q = token_form a)"
  "sent_part cl env r s us \<Longrightarrow> token_calls us = [] \<and> length (ews_calls us) \<le> 1 \<and> (\<forall>(q, x)\<in>set (ews_calls us). rqURL q = clURL cl \<and> rqBody q = env)"
  by (auto simp: token_part_def sent_part_def)

lemma sent_data:
  "sent_part cl env (Inr (status, d, rt)) s us \<Longrightarrow> \<exists>q b. us = [EwsCall q (Inr (status, b))] \<and> d = take body_limit b
     \<and> (rt \<longrightarrow> status = 401 \<and> (\<exists>a. clAuth cl = OAuth a) \<and> ewTok s = [])"
  unfolding sent_part_def by (elim disjE exE conjE) (auto split: sum.splits)

lemma call_loop_last:
  "call_loop L cl env (Suc n) s = (r, s') \<Longrightarrow> \<exists>x. post L cl env s = (x, s') \<and> (\<forall>d. r = Inr d \<longrightarrow> (\<exists>rt. x = Inr (200, d, rt)))"
  by (subst (asm) call_loop.simps) (auto split: prod.splits sum.splits if_splits)

text \<open>What a call adds to the traffic: the log of a call that returns \<open>r\<close>.\<close>

definition call_log :: "ewsClient \<Rightarrow> string \<Rightarrow> string result \<Rightarrow> traffic list \<Rightarrow> bool" where
  "call_log cl env r new = (length (ews_calls new) \<le> 2
    \<and> (\<forall>(q, x)\<in>set (ews_calls new). rqURL q = clURL cl \<and> rqBody q = env)
    \<and> (\<forall>q\<in>set (token_calls new). \<exists>a. clAuth cl = OAuth a \<and> rqURL q = oaTokenURL a \<and> rqBody q = token_form a)
    \<and> (length (ews_calls new) = 2 \<longrightarrow> (\<exists>pre q1 b1 q x q2 y. new = pre @ [EwsCall q1 (Inr (401, b1)), TokenCall q x, EwsCall q2 y]))
    \<and> (\<forall>d. r = Inr d \<longrightarrow> (\<exists>pre q b. new = pre @ [EwsCall q (Inr (200, b))] \<and> d = take body_limit b)))"

lemma call_log_once:
  assumes "token_part (clAuth cl) ts" and "sent_part cl env x s us" and "\<And>d. r = Inr d \<Longrightarrow> \<exists>rt. x = Inr (200, d, rt)"
  shows "call_log cl env r (ts @ us)"
proof -
  have "\<exists>pre q b. ts @ us = pre @ [EwsCall q (Inr (200, b))] \<and> d = take body_limit b" if "r = Inr d" for d
    using assms(3) [OF that] sent_data [of cl env 200 d _ s us] assms(2) by blast
  then show ?thesis
    using part_calls(1) [OF assms(1)] part_calls(2) [OF assms(2)] unfolding call_log_def by auto
qed

lemma call_log_retry:
  assumes "token_part (clAuth cl) ts" and "us = [EwsCall q1 (Inr (401, b1))]" and "rqURL q1 = clURL cl" and "rqBody q1 = env"
    and "token_part (clAuth cl) ts2" and "sent_part cl env x s us2" and "us2 \<noteq> [] \<longrightarrow> ts2 \<noteq> []"
    and "\<And>d. r = Inr d \<Longrightarrow> \<exists>rt. x = Inr (200, d, rt)"
  shows "call_log cl env r (ts @ us @ ts2 @ us2)"
proof -
  have two: "us2 \<noteq> [] \<Longrightarrow> \<exists>q x q2 y. ts2 = [TokenCall q x] \<and> us2 = [EwsCall q2 y]"
    using assms(5-7) by (auto simp: token_part_def sent_part_def)
  have log: "call_log cl env r (ts2 @ us2)"
    by (rule call_log_once [OF assms(5,6,8)])
  have "\<exists>pre q b. ts @ us @ ts2 @ us2 = pre @ [EwsCall q (Inr (200, b))] \<and> d = take body_limit b" if "r = Inr d" for d
    using log that unfolding call_log_def by (metis append.assoc)
  then show ?thesis
    using two log part_calls(1) [OF assms(1)] part_calls(1) [OF assms(5)] part_calls(2) [OF assms(6)] assms(2-4)
    unfolding call_log_def by (cases "us2 = []") auto
qed



section \<open>The token cache\<close>

text \<open>Whatever \<^verbatim>\<open>expires_in\<close> holds, also when its nanoseconds overflow, a token is cached for a positive time.\<close>

lemma token_ttl_bounds: "tokenSkew < token_ttl x \<and> token_ttl x < 2 ^ 63"
proof -
  have "int64 (x * second) < 2 ^ 63"
    unfolding int64_def by (rule signed_take_bit_int_less_exp)
  then show ?thesis
    by (simp add: token_ttl_def tokenSkew_def Let_def)
qed

text \<open>A token that was returned is in the cache; one that was just fetched has not expired.\<close>

lemma token_cached:
  assumes "token L a s = (Inr tok, s')"
  shows "tok \<noteq> [] \<and> ewTok s' = tok
    \<and> (ewTok s = [] \<longrightarrow> (\<exists>c now. wlNow L c = (now, ewConn s') \<and> now < ewExp s'))"
proof (cases "ewTok s = []")
  case True
  then obtain ttl c1 where f: "fetch L a (ewConn s) = (Inr (tok, ttl), c1)"
    using assms by (auto simp: token_def split: prod.splits sum.splits)
  then obtain e where "ttl = token_ttl e" "tok \<noteq> []"
    by (auto simp: fetch_def Let_def split: option.splits prod.splits sum.splits if_splits)
  moreover obtain now c2 where n: "wlNow L c1 = (now, c2)"
    by (cases "wlNow L c1")
  ultimately show ?thesis
    using assms True f token_ttl_bounds [of e] by (auto simp: token_def split: prod.splits intro!: exI [of _ c1])
next
  case False
  obtain now c where n: "wlNow L (ewConn s) = (now, c)"
    by (cases "wlNow L (ewConn s)")
  have "tok \<noteq> []" if "fetch L a c' = (Inr (tok, ttl), c1)" for c' ttl c1
    using that by (auto simp: fetch_def Let_def split: option.splits prod.splits sum.splits if_splits)
  then show ?thesis
    using assms False n by (fastforce simp: token_def split: if_splits prod.splits sum.splits)
qed

section \<open>Properties of the connection that a call keeps\<close>

text \<open>A property that neither the clock nor a token request breaks.\<close>

definition offline_inv :: "'s weblib \<Rightarrow> ('s \<Rightarrow> bool) \<Rightarrow> bool" where
  "offline_inv L I = (\<forall>c. I c \<longrightarrow> I (snd (wlNow L c)) \<and> (\<forall>q. I (snd (wlDoToken L q c))))"

lemma offline_invD:
  assumes "offline_inv L I" "I c"
  shows "wlNow L c = (n, c1) \<Longrightarrow> I c1" "wlDoToken L q c = (r, c1) \<Longrightarrow> I c1"
  using assms unfolding offline_inv_def by (metis snd_conv)+

abbreviation same_folder :: "'s ews \<Rightarrow> 's ews \<Rightarrow> bool" where
  "same_folder s s' \<equiv> ewFolderXML s' = ewFolderXML s \<and> ewFolder s' = ewFolder s"

lemma fetch_keeps: "offline_inv L I \<Longrightarrow> I c \<Longrightarrow> fetch L a c = (r, c') \<Longrightarrow> I c'"
  by (auto simp: fetch_def Let_def split: option.splits prod.splits sum.splits if_splits dest: offline_invD(2))

lemma token_keeps:
  assumes "offline_inv L I" "I (ewConn s)" "token L a s = (r, s')"
  shows "I (ewConn s') \<and> same_folder s s'"
proof -
  obtain n c where n: "(if ewTok s \<noteq> [] then wlNow L (ewConn s) else (0, ewConn s)) = (n, c)" by (metis surj_pair)
  then have c: "I c"
    using offline_invD(1) [OF assms(1,2)] assms(2) by (metis prod.inject)
  obtain x c1 where f: "fetch L a c = (x, c1)" by (cases "fetch L a c")
  have "I c1"
    by (rule fetch_keeps [OF assms(1) c f])
  then show ?thesis
    using assms(3) c offline_invD(1) [OF assms(1)] unfolding token_def n by (auto simp: f split: if_splits sum.splits prod.splits)
qed

lemma authorize_keeps:
  assumes "offline_inv L I" "I (ewConn s)" "authorize L au q u s = (r, s')"
  shows "I (ewConn s') \<and> same_folder s s' \<and> (\<forall>q'. r = Inr q' \<longrightarrow> rqBody q' = rqBody q)"
  using assms(2,3) by (auto simp: authorize_def Let_def split: ewsAuth.splits prod.splits sum.splits dest: token_keeps [OF assms(1)])

text \<open>The answer a request got, as \<^verbatim>\<open>post\<close> reports it.\<close>

definition answers :: "(int \<times> string) result \<Rightarrow> (int \<times> string \<times> bool) result \<Rightarrow> bool" where
  "answers x r = (case x of Inl _ \<Rightarrow> isl r | Inr (status, b) \<Rightarrow> \<exists>rt. r = Inr (status, take body_limit b, rt) \<and> (rt \<longrightarrow> status = 401))"

lemma post_cases:
  assumes "offline_inv L I" "I (ewConn s)" "post L cl env s = (r, s')"
  shows "same_folder s s' \<and> (isl r \<and> I (ewConn s') \<or> (\<exists>nt q c x. I c \<and> rqBody q = env \<and> wlDo L nt q c = (x, ewConn s') \<and> answers x r))"
proof (cases "wlURL L (clURL cl)")
  case (Some e)
  then show ?thesis
    using assms(2,3) by (auto simp: post_def)
next
  case None
  let ?q = "\<lparr>rqURL = clURL cl, rqHeaders = [(''Content-Type'', ''text/xml; charset=utf-8'')], rqBody = env\<rparr>"
  let ?nt = "case clAuth cl of NtlmAuth _ _ \<Rightarrow> True | _ \<Rightarrow> False"
  obtain x s1 where a: "authorize L (clAuth cl) ?q (clImpersonate cl) s = (x, s1)"
    by (cases "authorize L (clAuth cl) ?q (clImpersonate cl) s")
  from authorize_keeps [OF assms(1,2) a] have k: "I (ewConn s1)" "same_folder s s1" "\<And>q. x = Inr q \<Longrightarrow> rqBody q = env" by auto
  show ?thesis
  proof (cases x)
    case (Inl e)
    then show ?thesis
      using assms(3) None a k by (auto simp: post_def)
  next
    case (Inr q)
    obtain y c where d: "wlDo L ?nt q (ewConn s1) = (y, c)" by (cases "wlDo L ?nt q (ewConn s1)")
    have "same_folder s s' \<and> ewConn s' = c \<and> answers y r"
      using assms(3) None a Inr d k(2)
      by (auto simp: post_def answers_def split: prod.splits sum.splits if_splits dest!: rejected_facts)
    then show ?thesis
      using k(1) k(3) [OF Inr] d by blast
  qed
qed

lemma answers_data: "answers x (Inr (status, d, rt)) \<Longrightarrow> \<exists>b. x = Inr (status, b) \<and> d = take body_limit b \<and> (rt \<longrightarrow> status = 401)"
  by (cases x) (auto simp: answers_def)

text \<open>A call keeps what no request with its envelope breaks.\<close>

lemma call_loop_keeps:
  assumes off: "offline_inv L I" and s: "I (ewConn s)"
    and req: "\<And>nt q c. I c \<Longrightarrow> rqBody q = env \<Longrightarrow> I (snd (wlDo L nt q c))"
  shows "call_loop L cl env n s = (r, s') \<Longrightarrow> I (ewConn s') \<and> same_folder s s'"
  using s
proof (induction "1 - n" arbitrary: n s rule: less_induct)
  case less
  obtain x s1 where p: "post L cl env s = (x, s1)" by (cases "post L cl env s")
  have k: "I (ewConn s1)" "same_folder s s1"
    using post_cases [OF off less.prems(2) p] req by (metis snd_conv)+
  moreover have "s' = s1 \<or> n = 0 \<and> call_loop L cl env (n + 1) s1 = (r, s')"
    using less.prems(1) p by (subst (asm) call_loop.simps) (auto split: sum.splits if_splits)
  ultimately show ?case
    using less.hyps [of "n + 1" s1] by auto
qed

lemma call_keeps:
  assumes "offline_inv L I" "I (ewConn s)" "call L cl body s = (r, s')"
    and "\<And>nt q c. I c \<Longrightarrow> rqBody q = soapEnvelope (impersonation (clImpersonate cl)) body \<Longrightarrow> I (snd (wlDo L nt q c))"
  shows "I (ewConn s') \<and> same_folder s s'"
  using call_loop_keeps [OF assms(1,2,4)] assms(3) by (simp add: call_def)

text \<open>A call that returns data ends with a request that was answered with status 200; before it there is at most one, which was rejected.\<close>

lemma call_data:
  assumes off: "offline_inv L I" and s: "I (ewConn s)" and c: "call L cl body s = (Inr d, s')"
    and req: "\<And>nt q c b c'. I c \<Longrightarrow> rqBody q = soapEnvelope (impersonation (clImpersonate cl)) body \<Longrightarrow> wlDo L nt q c = (Inr (401, b), c') \<Longrightarrow> I c'"
  shows "\<exists>nt q c b. I c \<and> rqBody q = soapEnvelope (impersonation (clImpersonate cl)) body \<and> wlDo L nt q c = (Inr (200, b), ewConn s') \<and> d = take body_limit b"
proof -
  let ?env = "soapEnvelope (impersonation (clImpersonate cl)) body"
  have one: ?thesis if "I (ewConn s0)" "post L cl ?env s0 = (Inr (200, d, rt), s')" for s0 rt
    using post_cases [OF off that] answers_data by fastforce
  obtain x s1 where p: "post L cl ?env s = (x, s1)" by (cases "post L cl ?env s")
  have l: "call_loop L cl ?env 0 s = (Inr d, s')"
    using c by (simp add: call_def)
  consider "x = Inr (200, d, False)" "s1 = s'" | st e where "x = Inr (st, e, True)" "call_loop L cl ?env (Suc 0) s1 = (Inr d, s')"
    using l p by (subst (asm) call_loop.simps) (auto split: sum.splits if_splits)
  then show ?thesis
  proof cases
    case 1
    then show ?thesis using one [OF s, of False] p by simp
  next
    case 2
    have "I (ewConn s1)"
      using post_cases [OF off s p] 2(1) req answers_data by fastforce
    moreover obtain rt where "post L cl ?env s1 = (Inr (200, d, rt), s')"
      using call_loop_last [OF 2(2)] by blast
    ultimately show ?thesis by (rule one)
  qed
qed

text \<open>With a working authorization a call returns what the server answers.\<close>

lemma call_answered:
  assumes off: "offline_inv L I" and s: "I (ewConn s)" and url: "wlURL L (clURL cl) = None"
    and auth: "\<And>s q. I (ewConn s) \<Longrightarrow> \<exists>q' s1. authorize L (clAuth cl) q (clImpersonate cl) s = (Inr q', s1)"
    and req: "\<And>nt q c. I c \<Longrightarrow> rqBody q = soapEnvelope (impersonation (clImpersonate cl)) body \<Longrightarrow>
      \<exists>b c'. wlDo L nt q c = (Inr (200, b), c') \<and> I c' \<and> P (take body_limit b)"
  shows "\<exists>d s'. call L cl body s = (Inr d, s') \<and> P d \<and> I (ewConn s') \<and> same_folder s s'"
proof -
  let ?env = "soapEnvelope (impersonation (clImpersonate cl)) body"
  let ?q = "\<lparr>rqURL = clURL cl, rqHeaders = [(''Content-Type'', ''text/xml; charset=utf-8'')], rqBody = ?env\<rparr>"
  obtain q s1 where a: "authorize L (clAuth cl) ?q (clImpersonate cl) s = (Inr q, s1)"
    using auth [OF s] by blast
  from authorize_keeps [OF off s a] have k: "I (ewConn s1)" "same_folder s s1" "rqBody q = ?env" by auto
  obtain b c where d: "wlDo L (case clAuth cl of NtlmAuth _ _ \<Rightarrow> True | _ \<Rightarrow> False) q (ewConn s1) = (Inr (200, b), c)" "I c" "P (take body_limit b)"
    using req [OF k(1,3)] by blast
  have "call L cl body s = (Inr (take body_limit b), s1\<lparr>ewConn := c\<rparr>)"
    unfolding call_def by (subst call_loop.simps) (simp add: post_def url a d(1))
  then show ?thesis
    using d(2,3) k(2) by auto
qed

section \<open>A concrete server\<close>

text \<open>A server that rejects the first request.\<close>

definition web_ex :: "nat weblib" where
  "web_ex = \<lparr>wlURL = (\<lambda>_. None), wlDo = (\<lambda>_ _ n. (Inr (if n = 0 then (401, ''no'') else (200, ''ok'')), Suc n)),
     wlDoToken = (\<lambda>_ n. (Inr (200, ''t''), n)), wlNow = (\<lambda>n. (0, n)), wlXML = (\<lambda>_. Inr (Text [])),
     wlJSON = (\<lambda>_. Some \<lparr>trAccessToken = ''t'', trExpiresIn = 3600, trError = [], trDescription = []\<rparr>), wlTime = (\<lambda>_ _. None)\<rparr>"

definition cl_ex :: ewsClient where
  "cl_ex = \<lparr>clURL = ''u'', clAuth = OAuth \<lparr>oaTokenURL = ''v'', oaClientID = ''i'', oaSecret = ''s'', oaScope = ''x''\<rparr>, clImpersonate = ''a@x''\<rparr>"

definition ews_ex :: "(nat \<times> traffic list) ews" where
  "ews_ex = \<lparr>ewConn = (0, []), ewTok = [], ewExp = 0, ewFolderXML = [], ewFolder = []\<rparr>"


end
