(* ===== verification/Ews.thy ===== *)
theory Ews
  imports Soap
begin

text \<open>
  The EWS endpoint (\<^verbatim>\<open>internal/endpoint/ews.go\<close>): the requests it sends, folder selection, paging, batched metadata, download and
  upload. A listing that does not end (a server that never says it is on the last page) is the value \<open>None\<close>.
\<close>

section \<open>Request bodies\<close>

definition find_folder_body :: string where
  \<open>find_folder_body = ''<m:FindFolder Traversal="Deep"><m:FolderShape><t:BaseShape>Default</t:BaseShape></m:FolderShape>'' @
     ''<m:ParentFolderIds><t:DistinguishedFolderId Id="msgfolderroot"/></m:ParentFolderIds></m:FindFolder>''\<close>

definition find_item_body :: "int \<Rightarrow> int \<Rightarrow> string \<Rightarrow> string" where
  \<open>find_item_body batch offset folderXML =
     ''<m:FindItem Traversal="Shallow"><m:ItemShape><t:BaseShape>IdOnly</t:BaseShape></m:ItemShape>'' @
     ''<m:IndexedPageItemView MaxEntriesReturned="'' @ itoa batch @ ''" Offset="'' @ itoa offset @ ''" BasePoint="Beginning"/>'' @
     ''<m:ParentFolderIds>'' @ folderXML @ ''</m:ParentFolderIds></m:FindItem>''\<close>

definition item_shape :: "bool \<Rightarrow> string" where
  \<open>item_shape mime =
     (if mime then ''<t:BaseShape>IdOnly</t:BaseShape><t:IncludeMimeContent>true</t:IncludeMimeContent>''
      else ''<t:BaseShape>IdOnly</t:BaseShape><t:AdditionalProperties>'' @
        ''<t:FieldURI FieldURI="item:InternetMessageHeaders"/>'' @ ''<t:FieldURI FieldURI="item:DateTimeReceived"/>'' @
        ''<t:FieldURI FieldURI="item:Size"/>'' @ ''<t:FieldURI FieldURI="message:IsRead"/>'' @ ''<t:FieldURI FieldURI="item:Subject"/>'' @
        ''<t:FieldURI FieldURI="message:InternetMessageId"/>'' @ ''</t:AdditionalProperties>'')\<close>

definition item_ref :: "string \<Rightarrow> string" where
  \<open>item_ref i = ''<t:ItemId Id="'' @ xesc i @ ''"/>''\<close>

definition get_item_body :: "string list \<Rightarrow> bool \<Rightarrow> string" where
  "get_item_body ids mime = ''<m:GetItem><m:ItemShape>'' @ item_shape mime @ ''</m:ItemShape><m:ItemIds>'' @ concat (map item_ref ids) @ ''</m:ItemIds></m:GetItem>''"

definition create_item_body :: "string \<Rightarrow> string \<Rightarrow> string \<Rightarrow> string" where
  \<open>create_item_body folderXML b64 isRead =
     ''<m:CreateItem MessageDisposition="SaveOnly"><m:SavedItemFolderId>'' @ folderXML @ ''</m:SavedItemFolderId>'' @
     ''<m:Items><t:Message><t:MimeContent CharacterSet="UTF-8">'' @ b64 @ ''</t:MimeContent>'' @
     ''<t:IsRead>'' @ isRead @ ''</t:IsRead></t:Message></m:Items></m:CreateItem>''\<close>

section \<open>Folders\<close>

definition ewsDistinguished :: "(string, string) table" where
  "ewsDistinguished = [('''', ''inbox''), (''inbox'', ''inbox''), (''sent'', ''sentitems''), (''sent items'', ''sentitems''), (bslash ''sent'', ''sentitems''),
     (''drafts'', ''drafts''), (bslash ''drafts'', ''drafts''), (''deleted items'', ''deleteditems''), (''trash'', ''deleteditems''),
     (bslash ''trash'', ''deleteditems''), (''junk email'', ''junkemail''), (bslash ''junk'', ''junkemail''), (''archive'', ''archive''),
     (bslash ''archive'', ''archive''), (''outbox'', ''outbox'')]"

definition distinguished_xml :: "string \<Rightarrow> string" where
  \<open>distinguished_xml d = ''<t:DistinguishedFolderId Id="'' @ d @ ''"/>''\<close>

definition folder_xml :: "string \<Rightarrow> string" where
  \<open>folder_xml i = ''<t:FolderId Id="'' @ xesc i @ ''"/>''\<close>

text \<open>The loop of \<^verbatim>\<open>findFolder\<close> over (ID, display name); \<open>ci\<close> and \<open>disp\<close> are the last match up to case.\<close>

fun pick_folder :: "utab \<Rightarrow> string \<Rightarrow> (string \<times> string) list \<Rightarrow> string \<Rightarrow> string \<Rightarrow> (string \<times> string) option" where
  "pick_folder ut name [] ci disp = (if ci \<noteq> [] then Some (ci, disp) else None)"
| "pick_folder ut name ((i, dn) # fs) ci disp =
     (if dn = name then Some (i, dn)
      else if equal_fold ut dn name then pick_folder ut name fs i dn
      else pick_folder ut name fs ci disp)"

definition findFolder :: "utab \<Rightarrow> 's weblib \<Rightarrow> ewsClient \<Rightarrow> string \<Rightarrow> 's ews \<Rightarrow> (string \<times> string) result \<times> 's ews" where
  "findFolder ut L cl name s =
     (case call L cl find_folder_body s of
        (Inl e, s1) \<Rightarrow> (Inl e, s1)
      | (Inr data, s1) \<Rightarrow>
          ((case wlXML L data of
              Inl e \<Rightarrow> Inl (wrapf ''EWS FindFolder: parsing response: '' e)
            | Inr x \<Rightarrow> (let (msg, entries) = find_folder_out x in
                case resp_err msg ''FindFolder'' of
                  Some e \<Rightarrow> Inl e
                | None \<Rightarrow> (case pick_folder ut name entries [] [] of
                    Some p \<Rightarrow> Inr p | None \<Rightarrow> Inl (errnew (''EWS: folder '' @ quote_str ut name @ '' not found''))))), s1))"

definition ewSelect :: "utab \<Rightarrow> 's weblib \<Rightarrow> ewsClient \<Rightarrow> string \<Rightarrow> 's ews \<Rightarrow> (string \<times> string) result \<times> 's ews" where
  "ewSelect ut L cl name s =
     (case map_of ewsDistinguished (to_lower ut (trim_space name)) of
        Some d \<Rightarrow> (let folder = (if name = [] then ''INBOX'' else name) in
          (Inr (folder, ''ews''), s\<lparr>ewFolderXML := distinguished_xml d, ewFolder := folder\<rparr>))
      | None \<Rightarrow> (case findFolder ut L cl name s of
          (Inl e, s1) \<Rightarrow> (Inl e, s1)
        | (Inr (i, disp), s1) \<Rightarrow> (Inr (disp, ''ews''), s1\<lparr>ewFolderXML := folder_xml i, ewFolder := disp\<rparr>)))"

section \<open>Listing\<close>

text \<open>One page: the IDs and whether the loop ends.\<close>

definition find_page :: "utab \<Rightarrow> 's weblib \<Rightarrow> ewsClient \<Rightarrow> int \<Rightarrow> int \<Rightarrow> 's ews \<Rightarrow> (string list \<times> bool) result \<times> 's ews" where
  "find_page ut L cl batch offset s =
     (case call L cl (find_item_body batch offset (ewFolderXML s)) s of
        (Inl e, s1) \<Rightarrow> (Inl e, s1)
      | (Inr data, s1) \<Rightarrow>
          ((case (case wlXML L data of Inl e \<Rightarrow> Inl e | Inr x \<Rightarrow> find_item_out ut x) of
              Inl e \<Rightarrow> Inl (wrapf ''EWS FindItem: parsing response: '' e)
            | Inr (msg, la, entries) \<Rightarrow> (case resp_err msg ''FindItem'' of
                  Some e \<Rightarrow> Inl e
                | None \<Rightarrow> Inr (filter (\<lambda>i. i \<noteq> []) entries, la \<or> entries = []))), s1))"

partial_function (option) list_loop ::
    "utab \<Rightarrow> 's weblib \<Rightarrow> ewsClient \<Rightarrow> int \<Rightarrow> int \<Rightarrow> string list \<Rightarrow> 's ews \<Rightarrow> (string list result \<times> 's ews) option" where
  "list_loop ut L cl batch offset ids s =
     (let rs = find_page ut L cl batch offset s in
      case fst rs of
        Inl e \<Rightarrow> Some (Inl e, snd rs)
      | Inr p \<Rightarrow> if snd p then Some (Inr (ids @ fst p), snd rs) else list_loop ut L cl batch (offset + batch) (ids @ fst p) (snd rs))"

definition list_ids :: "utab \<Rightarrow> 's weblib \<Rightarrow> ewsClient \<Rightarrow> int \<Rightarrow> 's ews \<Rightarrow> (string list result \<times> 's ews) option" where
  "list_ids ut L cl batch s = list_loop ut L cl batch 0 [] s"

text \<open>As a method of the endpoint; a listing that does not return is shown as an error.\<close>

definition ewListIDs :: "utab \<Rightarrow> 's weblib \<Rightarrow> ewsClient \<Rightarrow> int \<Rightarrow> 's ews \<Rightarrow> string list result \<times> 's ews" where
  "ewListIDs ut L cl batch s = (case list_ids ut L cl batch s of Some r \<Rightarrow> r | None \<Rightarrow> (Inl (errnew ''ListIDs does not return''), s))"

section \<open>Items\<close>

fun collect_items :: "(respMsg \<times> ewsItem list) list \<Rightarrow> ewsItem list result" where
  "collect_items [] = Inr []"
| "collect_items ((msg, items) # ms) =
     (case resp_err msg ''GetItem'' of
        Some e \<Rightarrow> Inl e
      | None \<Rightarrow> (case collect_items ms of Inl e \<Rightarrow> Inl e | Inr rest \<Rightarrow> Inr (items @ rest)))"

definition getItems :: "utab \<Rightarrow> 's weblib \<Rightarrow> ewsClient \<Rightarrow> string list \<Rightarrow> bool \<Rightarrow> 's ews \<Rightarrow> ewsItem list result \<times> 's ews" where
  "getItems ut L cl ids mime s =
     (case call L cl (get_item_body ids mime) s of
        (Inl e, s1) \<Rightarrow> (Inl e, s1)
      | (Inr data, s1) \<Rightarrow>
          ((case (case wlXML L data of Inl e \<Rightarrow> Inl e | Inr x \<Rightarrow> get_item_out ut x) of
              Inl e \<Rightarrow> Inl (wrapf ''EWS GetItem: parsing response: '' e)
            | Inr msgs \<Rightarrow> collect_items msgs), s1))"

definition ewsFlags :: "utab \<Rightarrow> ewsItem \<Rightarrow> string list" where
  "ewsFlags ut it = (if equal_fold ut (eiIsRead it) ''true'' then [bslash ''Seen''] else [])
     @ (if equal_fold ut (eiIsDraft it) ''true'' then [bslash ''Draft''] else [])"

definition header_line :: "string \<times> string \<Rightarrow> string" where
  "header_line h = trim_space (fst h) @ '': '' @ oneLine (snd h) @ crlf"

definition seen_header :: "utab \<Rightarrow> string \<Rightarrow> ewsItem \<Rightarrow> bool" where
  "seen_header ut n it = list_ex (\<lambda>h. equal_fold ut (trim_space (fst h)) n) (eiHeaders it)"

definition ewsHeaderBlock :: "utab \<Rightarrow> ewsItem \<Rightarrow> string" where
  "ewsHeaderBlock ut it =
     concat (map header_line (eiHeaders it))
     @ (if \<not> seen_header ut ''Message-ID'' it \<and> eiInternetMsgID it \<noteq> [] then ''Message-ID: '' @ eiInternetMsgID it @ crlf else [])
     @ (if \<not> seen_header ut ''Subject'' it \<and> eiSubject it \<noteq> [] then ''Subject: '' @ oneLine (eiSubject it) @ crlf else []) @ crlf"

definition ews_layouts :: "string list" where
  "ews_layouts = [''2006-01-02T15:04:05Z07:00'', ''2006-01-02T15:04:05Z'', ''2006-01-02T15:04:05'']"

definition parseEWSTime :: "'s weblib \<Rightarrow> string \<Rightarrow> time" where
  "parseEWSTime L s = (case find (\<lambda>l. wlTime L l (trim_space s) \<noteq> None) ews_layouts of Some l \<Rightarrow> the (wlTime L l (trim_space s)) | None \<Rightarrow> zero_time)"

definition ews_meta :: "utab \<Rightarrow> 's weblib \<Rightarrow> ewsItem \<Rightarrow> EMessage" where
  "ews_meta ut L it = \<lparr>mID = eiItemID it, mFlags = ewsFlags ut it, mInternalDate = parseEWSTime L (eiDateTimeReceived it), mSize = eiSize it,
     mHeader = ewsHeaderBlock ut it\<rparr>"

text \<open>The batches \<^verbatim>\<open>ids[start:end]\<close>; \<^verbatim>\<open>newEWSBackend\<close> makes the batch size positive.\<close>

function meta_batches :: "utab \<Rightarrow> 's weblib \<Rightarrow> ewsClient \<Rightarrow> nat \<Rightarrow> string list \<Rightarrow> 's ews \<Rightarrow> EMessage list result \<times> 's ews" where
  "meta_batches ut L cl b ids s =
     (if ids = [] then (Inr [], s)
      else if b = 0 then (Inl (errnew ''FetchMeta does not return''), s)
      else (case getItems ut L cl (take b ids) False s of
          (Inl e, s1) \<Rightarrow> (Inl e, s1)
        | (Inr items, s1) \<Rightarrow> (case meta_batches ut L cl b (drop b ids) s1 of
            (Inl e, s2) \<Rightarrow> (Inl e, s2)
          | (Inr out, s2) \<Rightarrow> (Inr (map (ews_meta ut L) items @ out), s2))))"
  by pat_completeness auto
termination by (relation "measure (\<lambda>(_, _, _, _, ids, _). length ids)") auto

declare meta_batches.simps [simp del]

definition ewFetchMeta :: "utab \<Rightarrow> 's weblib \<Rightarrow> ewsClient \<Rightarrow> int \<Rightarrow> string list option \<Rightarrow> 's ews \<Rightarrow> EMessage list result \<times> 's ews" where
  "ewFetchMeta ut L cl batch ids s =
     (case (case ids of None \<Rightarrow> ewListIDs ut L cl batch s | Some li \<Rightarrow> (Inr li, s)) of
        (Inl e, s1) \<Rightarrow> (Inl e, s1)
      | (Inr li, s1) \<Rightarrow> meta_batches ut L cl (nat batch) li s1)"

definition ewOpen :: "utab \<Rightarrow> 's weblib \<Rightarrow> ewsClient \<Rightarrow> string \<Rightarrow> 's ews \<Rightarrow> Literal result \<times> 's ews" where
  "ewOpen ut L cl i s =
     (case getItems ut L cl [i] True s of
        (Inl e, s1) \<Rightarrow> (Inl e, s1)
      | (Inr items, s1) \<Rightarrow>
          if items = [] \<or> eiMimeContent (hd items) = [] then (Inl (errnew (''EWS: message '' @ quote_str ut i @ '' has no MIME content'')), s1)
          else (case b64_decode (trim_space (eiMimeContent (hd items))) of
              None \<Rightarrow> (Inl (errnew (''EWS: decoding MIME of message '' @ quote_str ut i @ '': illegal base64 data'')), s1)
            | Some raw \<Rightarrow> (Inr (Buffer raw), s1)))"

definition ewAppend :: "'s weblib \<Rightarrow> ewsClient \<Rightarrow> string list \<Rightarrow> time \<Rightarrow> Literal \<Rightarrow> 's ews \<Rightarrow> string result \<times> 's ews" where
  "ewAppend L cl flags date body s =
     (let isRead = (if bslash ''Seen'' \<in> set flags then ''true'' else ''false'') in
      case call L cl (create_item_body (ewFolderXML s) (b64_encode (lit_read body)) isRead) s of
        (Inl e, s1) \<Rightarrow> (Inl e, s1)
      | (Inr data, s1) \<Rightarrow>
          ((case wlXML L data of
              Inl e \<Rightarrow> Inl (wrapf ''EWS CreateItem: parsing response: '' e)
            | Inr x \<Rightarrow> (let (msg, entries) = create_item_out x in
                case resp_err msg ''CreateItem'' of
                  Some e \<Rightarrow> Inl e
                | None \<Rightarrow> Inr (case entries of [] \<Rightarrow> [] | i # _ \<Rightarrow> i))), s1))"

section \<open>The endpoint and its backend\<close>

definition ewsEndpoint :: "utab \<Rightarrow> 's weblib \<Rightarrow> ewsClient \<Rightarrow> int \<Rightarrow> 's ews Endpoint" where
  "ewsEndpoint ut L cl batch = \<lparr>epSelect = ewSelect ut L cl, epListIDs = ewListIDs ut L cl batch, epFetchMeta = ewFetchMeta ut L cl batch, epOpen = ewOpen ut L cl,
     epAppend = ewAppend L cl, epReadOnly = False, epClose = (\<lambda>s. s), epListFolders = None, epCreateFolder = None\<rparr>"

definition ews_url :: "Server \<Rightarrow> string" where
  "ews_url srv = (let u = trim_space (sEWSUrl srv) in if u = [] then ''https://'' @ sHost srv @ ''/EWS/Exchange.asmx'' else u)"

definition newEWSBackend :: "utab \<Rightarrow> 's weblib \<Rightarrow> (Server \<Rightarrow> goerr option) \<Rightarrow> int \<Rightarrow> Server \<Rightarrow> 's ews Backend" where
  "newEWSBackend ut L tls batch0 srv =
     (let batch = (if batch0 < 1 then 50 else batch0) in
      \<lparr>bConnect = (\<lambda>user s. case tls srv of
           Some e \<Rightarrow> (Inl (wrapf (''ews '' @ ews_url srv @ '': '') e), s)
         | None \<Rightarrow> (Inr (ewsEndpoint ut L \<lparr>clURL = ews_url srv, clAuth = newEWSAuth srv, clImpersonate = user\<rparr> batch),
             s\<lparr>ewFolderXML := [], ewFolder := []\<rparr>)),
       bAddr = ews_url srv\<rparr>)"

section \<open>What is asked for\<close>

text \<open>No request asks for the property that \<^verbatim>\<open>ewsFlags\<close> reads to recognize a draft.\<close>

lemma draft_not_requested: "\<not> str_contains (item_shape True) ''IsDraft''" "\<not> str_contains (item_shape False) ''IsDraft''"
  by code_simp+

end
