(* ===== verification/EwsWire.thy ===== *)
theory EwsWire
  imports Ews
begin

text \<open>
  The requests of the EWS endpoint on the wire. A request is described by the operation it asks for (\<open>soap_op\<close>) and the mailbox it acts
  on; \<open>read_request\<close> reads the text that the endpoint builds back. What the server is asked to do is therefore exactly what the
  endpoint meant, whatever characters a user name, a folder or message ID or a message holds.
\<close>

section \<open>Operations\<close>

text \<open>A folder; \<open>Unselected\<close> is the empty text before a folder is selected.\<close>

datatype folder_ref = Unselected | Distinguished string | ById string

fun ref_xml :: "folder_ref \<Rightarrow> string" where
  "ref_xml Unselected = []"
| "ref_xml (Distinguished d) = distinguished_xml d"
| "ref_xml (ById i) = folder_xml i"

datatype soap_op =
    FindFolder
  | FindItem nat nat folder_ref              \<comment> \<open>page size, offset\<close>
  | GetItem "string list" bool               \<comment> \<open>with the MIME content\<close>
  | CreateItem folder_ref string bool        \<comment> \<open>the message, read\<close>

fun op_body :: "soap_op \<Rightarrow> string" where
  "op_body FindFolder = find_folder_body"
| "op_body (FindItem b k r) = find_item_body (int b) (int k) (ref_xml r)"
| "op_body (GetItem ids mime) = get_item_body ids mime"
| "op_body (CreateItem r d seen) = create_item_body (ref_xml r) (b64_encode d) (if seen then ''true'' else ''false'')"

definition op_text :: "string \<Rightarrow> soap_op \<Rightarrow> string" where
  "op_text user p = soapEnvelope (impersonation user) (op_body p)"

text \<open>
  What a text becomes on its way through XML: a rune that XML does not allow is replaced. The distinguished names are fixed.
\<close>

abbreviation via_xml :: "string \<Rightarrow> string" where "via_xml s \<equiv> unesc (xesc s)"

fun known_ref :: "folder_ref \<Rightarrow> bool" where
  "known_ref (Distinguished d) = (d \<in> snd ` set ewsDistinguished)"
| "known_ref _ = True"

fun norm_ref :: "folder_ref \<Rightarrow> folder_ref" where
  "norm_ref (ById i) = ById (via_xml i)"
| "norm_ref r = r"

fun known_op :: "soap_op \<Rightarrow> bool" where
  "known_op (FindItem b k r) = known_ref r"
| "known_op (CreateItem r d seen) = known_ref r"
| "known_op _ = True"

fun norm_op :: "soap_op \<Rightarrow> soap_op" where
  "norm_op FindFolder = FindFolder"
| "norm_op (FindItem b k r) = FindItem b k (norm_ref r)"
| "norm_op (GetItem ids mime) = GetItem (map via_xml ids) mime"
| "norm_op (CreateItem r d seen) = CreateItem (norm_ref r) d seen"

section \<open>Reading a request\<close>

definition peel :: "string \<Rightarrow> string \<Rightarrow> string option" where
  "peel p s = (if prefix p s then Some (drop (length p) s) else None)"

definition peel_end :: "string \<Rightarrow> string \<Rightarrow> string option" where
  "peel_end p s = (if suffix p s then Some (take (length s - length p) s) else None)"

definition upto_char :: "char \<Rightarrow> string \<Rightarrow> string \<times> string" where
  "upto_char c s = (takeWhile (\<lambda>x. x \<noteq> c) s, dropWhile (\<lambda>x. x \<noteq> c) s)"

text \<open>The fixed texts between the parts.\<close>

definition t_head :: string where
  \<open>t_head = ''<?xml version="1.0" encoding="utf-8"?>'' @ [CHR 0x0A] @
     ''<soap:Envelope xmlns:soap="http://schemas.xmlsoap.org/soap/envelope/" xmlns:t="http://schemas.microsoft.com/exchange/services/2006/types" xmlns:m="http://schemas.microsoft.com/exchange/services/2006/messages">''
     @ [CHR 0x0A] @ ''<soap:Header><t:RequestServerVersion Version="Exchange2013"/>''\<close>
definition t_user :: string where "t_user = ''<t:ExchangeImpersonation><t:ConnectingSID><t:PrimarySmtpAddress>''"
definition t_user_end :: string where "t_user_end = ''</t:PrimarySmtpAddress></t:ConnectingSID></t:ExchangeImpersonation>''"
definition t_body :: string where "t_body = ''</soap:Header>'' @ [CHR 0x0A] @ ''<soap:Body>''"
definition t_end :: string where "t_end = ''</soap:Body>'' @ [CHR 0x0A] @ ''</soap:Envelope>''"
definition t_dist :: string where \<open>t_dist = ''<t:DistinguishedFolderId Id="''\<close>
definition t_byid :: string where \<open>t_byid = ''<t:FolderId Id="''\<close>
definition t_item :: string where \<open>t_item = ''<t:ItemId Id="''\<close>
definition t_close :: string where \<open>t_close = ''"/>''\<close>
definition t_find :: string where
  \<open>t_find = ''<m:FindItem Traversal="Shallow"><m:ItemShape><t:BaseShape>IdOnly</t:BaseShape></m:ItemShape>'' @
     ''<m:IndexedPageItemView MaxEntriesReturned="''\<close>
definition t_offset :: string where \<open>t_offset = ''" Offset="''\<close>
definition t_parents :: string where \<open>t_parents = ''" BasePoint="Beginning"/><m:ParentFolderIds>''\<close>
definition t_find_end :: string where "t_find_end = ''</m:ParentFolderIds></m:FindItem>''"
definition t_get :: string where "t_get = ''<m:GetItem><m:ItemShape>''"
definition t_ids :: string where "t_ids = ''</m:ItemShape><m:ItemIds>''"
definition t_get_end :: string where "t_get_end = ''</m:ItemIds></m:GetItem>''"
definition t_create :: string where \<open>t_create = ''<m:CreateItem MessageDisposition="SaveOnly"><m:SavedItemFolderId>''\<close>
definition t_mime :: string where \<open>t_mime = ''</m:SavedItemFolderId><m:Items><t:Message><t:MimeContent CharacterSet="UTF-8">''\<close>
definition t_read :: string where "t_read = ''</t:MimeContent><t:IsRead>''"
definition t_create_end :: string where "t_create_end = ''</t:IsRead></t:Message></m:Items></m:CreateItem>''"

definition read_attr :: "string \<Rightarrow> string \<Rightarrow> (string \<times> string) option" where
  "read_attr tag s = (case peel tag s of None \<Rightarrow> None | Some s1 \<Rightarrow>
     (case upto_char (CHR 34) s1 of (v, s2) \<Rightarrow> map_option (Pair v) (peel t_close s2)))"

definition read_ref :: "string \<Rightarrow> (folder_ref \<times> string) option" where
  "read_ref s = (case read_attr t_dist s of Some (d, s1) \<Rightarrow> Some (Distinguished d, s1)
     | None \<Rightarrow> (case read_attr t_byid s of Some (v, s1) \<Rightarrow> Some (ById (unesc v), s1)
     | None \<Rightarrow> Some (Unselected, s)))"

lemma read_attr_shorter: "read_attr tag s = Some (v, s') \<Longrightarrow> length s' < length s"
proof -
  assume "read_attr tag s = Some (v, s')"
  then obtain s1 where "peel tag s = Some s1" and p: "peel t_close (dropWhile (\<lambda>x. x \<noteq> CHR 34) s1) = Some s'"
    by (auto simp: read_attr_def upto_char_def split: option.splits)
  then have "length s1 \<le> length s"
    by (auto simp: peel_def split: if_splits)
  moreover have "length s' < length (dropWhile (\<lambda>x. x \<noteq> CHR 34) s1)"
    using p by (auto simp: peel_def t_close_def prefix_def split: if_splits)
  ultimately show ?thesis
    using length_dropWhile_le [of "\<lambda>x. x \<noteq> CHR 34" s1] by linarith
qed

function read_items :: "string \<Rightarrow> string list \<times> string" where
  "read_items s = (case read_attr t_item s of None \<Rightarrow> ([], s) | Some (v, s1) \<Rightarrow> (case read_items s1 of (vs, s2) \<Rightarrow> (unesc v # vs, s2)))"
  by pat_completeness auto
termination by (relation "measure length") (auto dest: read_attr_shorter)

declare read_items.simps [simp del]

definition read_get :: "string \<Rightarrow> soap_op option" where
  "read_get s = (case (case peel (item_shape True @ t_ids) s of Some s1 \<Rightarrow> Some (True, s1)
       | None \<Rightarrow> map_option (Pair False) (peel (item_shape False @ t_ids) s)) of
     None \<Rightarrow> None | Some (mime, s1) \<Rightarrow> (case read_items s1 of (ids, s2) \<Rightarrow> if s2 = t_get_end then Some (GetItem ids mime) else None))"

definition read_find :: "string \<Rightarrow> soap_op option" where
  "read_find s = (case upto_char (CHR 34) s of (b, s1) \<Rightarrow>
     (case peel t_offset s1 of None \<Rightarrow> None | Some s2 \<Rightarrow> (case upto_char (CHR 34) s2 of (k, s3) \<Rightarrow>
     (case peel t_parents s3 of None \<Rightarrow> None | Some s4 \<Rightarrow>
     (case read_ref s4 of None \<Rightarrow> None | Some (r, s5) \<Rightarrow> if s5 = t_find_end then Some (FindItem (str_nat b) (str_nat k) r) else None)))))"

definition read_create :: "string \<Rightarrow> soap_op option" where
  "read_create s = (case read_ref s of None \<Rightarrow> None | Some (r, s1) \<Rightarrow>
     (case peel t_mime s1 of None \<Rightarrow> None | Some s2 \<Rightarrow> (case upto_char (CHR ''<'') s2 of (b, s3) \<Rightarrow>
     (case (b64_decode b, peel t_read s3) of
        (Some d, Some s4) \<Rightarrow> if s4 = ''true'' @ t_create_end then Some (CreateItem r d True)
          else if s4 = ''false'' @ t_create_end then Some (CreateItem r d False) else None
      | _ \<Rightarrow> None))))"

definition read_op :: "string \<Rightarrow> soap_op option" where
  "read_op s = (if s = find_folder_body then Some FindFolder
     else case peel t_find s of Some s1 \<Rightarrow> read_find s1 | None \<Rightarrow>
     (case peel t_get s of Some s1 \<Rightarrow> read_get s1 | None \<Rightarrow>
     (case peel t_create s of Some s1 \<Rightarrow> read_create s1 | None \<Rightarrow> None)))"

definition read_user :: "string \<Rightarrow> (string \<times> string) option" where
  "read_user s = (case peel t_user s of None \<Rightarrow> Some ([], s)
     | Some s1 \<Rightarrow> (case upto_char (CHR ''<'') s1 of (v, s2) \<Rightarrow> map_option (Pair (unesc v)) (peel t_user_end s2)))"

definition read_request :: "string \<Rightarrow> (string \<times> soap_op) option" where
  "read_request s = (case peel t_head s of None \<Rightarrow> None | Some s1 \<Rightarrow>
     (case read_user s1 of None \<Rightarrow> None | Some (u, s2) \<Rightarrow>
     (case peel t_body s2 of None \<Rightarrow> None | Some s3 \<Rightarrow>
     (case peel_end t_end s3 of None \<Rightarrow> None | Some b \<Rightarrow> map_option (Pair u) (read_op b)))))"

section \<open>Reading back what was written\<close>

lemma peel_append [simp]: "peel p (p @ s) = Some s" "peel p p = Some []"
  by (simp_all add: peel_def)

lemma peel_end_append [simp]: "peel_end p (s @ p) = Some s"
  by (simp add: peel_end_def suffix_def)

lemma upto_char_append: "c \<notin> set v \<Longrightarrow> upto_char c (v @ c # s) = (v, c # s)"
  by (induction v) (auto simp: upto_char_def)

lemma peel_clash: "length p \<le> length q \<Longrightarrow> \<not> prefix p q \<Longrightarrow> peel p (q @ s) = None"
  by (auto simp: peel_def prefix_append)

text \<open>The first character of the texts that end a variable part.\<close>

lemma t_heads:
  "t_close = CHR 34 # tl t_close" "t_offset = CHR 34 # tl t_offset" "t_parents = CHR 34 # tl t_parents"
  "t_read = CHR ''<'' # tl t_read" "t_user_end = CHR ''<'' # tl t_user_end"
  by (simp_all add: t_close_def t_offset_def t_parents_def t_read_def t_user_end_def)

lemma upto_texts:
  "CHR 34 \<notin> set v \<Longrightarrow> upto_char (CHR 34) (v @ t_close @ s) = (v, t_close @ s)"
  "CHR 34 \<notin> set v \<Longrightarrow> upto_char (CHR 34) (v @ t_offset @ s) = (v, t_offset @ s)"
  "CHR 34 \<notin> set v \<Longrightarrow> upto_char (CHR 34) (v @ t_parents @ s) = (v, t_parents @ s)"
  "CHR ''<'' \<notin> set v \<Longrightarrow> upto_char (CHR ''<'') (v @ t_read @ s) = (v, t_read @ s)"
  "CHR ''<'' \<notin> set v \<Longrightarrow> upto_char (CHR ''<'') (v @ t_user_end @ s) = (v, t_user_end @ s)"
  by (metis t_heads upto_char_append append_Cons)+

lemma read_attr_text: "CHR 34 \<notin> set v \<Longrightarrow> read_attr tag (tag @ v @ t_close @ s) = Some (v, s)"
  by (simp add: read_attr_def upto_texts)

lemma xesc_free: "CHR 34 \<notin> set (xesc s)" "CHR ''<'' \<notin> set (xesc s)"
  using xesc_chars by blast+

lemma dist_values: "d \<in> snd ` set ewsDistinguished \<Longrightarrow> CHR 34 \<notin> set d"
  by (auto simp: ewsDistinguished_def)

lemma peel_ref: "peel t_dist (t_byid @ s) = None" "peel t_item (t_get_end @ s) = None" "peel t_item t_get_end = None"
  by (simp_all add: peel_def t_dist_def t_byid_def t_item_def t_get_end_def)

lemma ref_xml_text: "ref_xml (Distinguished d) = t_dist @ d @ t_close" "ref_xml (ById i) = t_byid @ xesc i @ t_close"
  by (simp_all add: t_dist_def t_byid_def t_close_def distinguished_xml_def folder_xml_def)

lemma read_ref_text:
  assumes "known_ref r" "prefix ''</'' s"
  shows "read_ref (ref_xml r @ s) = Some (norm_ref r, s)"
proof (cases r)
  case Unselected
  have "read_attr t_dist s = None" "read_attr t_byid s = None"
    using assms(2) by (auto simp: read_attr_def peel_def t_dist_def t_byid_def prefix_def)
  then show ?thesis
    using Unselected by (simp add: read_ref_def)
next
  case (Distinguished d)
  then show ?thesis
    using assms(1) by (simp add: read_ref_def ref_xml_text read_attr_text dist_values del: ref_xml.simps)
next
  case (ById i)
  have "read_attr t_dist (t_byid @ xesc i @ t_close @ s) = None"
    by (simp add: read_attr_def peel_ref)
  then show ?thesis
    using ById by (simp add: read_ref_def ref_xml_text read_attr_text xesc_free del: ref_xml.simps)
qed

lemma ref_ends: "prefix ''</'' t_find_end" "prefix ''</'' (t_mime @ s)"
  by (simp_all add: t_find_end_def t_mime_def)

lemma read_items_text: "read_items (concat (map item_ref ids) @ t_get_end) = (map via_xml ids, t_get_end)"
proof (induction ids)
  case Nil
  then show ?case by (subst read_items.simps) (simp add: read_attr_def peel_ref)
next
  case (Cons i ids)
  have "concat (map item_ref (i # ids)) @ t_get_end = t_item @ xesc i @ t_close @ concat (map item_ref ids) @ t_get_end"
    by (simp add: item_ref_def t_item_def t_close_def)
  then show ?case
    using Cons by (subst read_items.simps) (simp add: read_attr_text xesc_free)
qed

lemma find_item_text: "find_item_body (int b) (int k) x = t_find @ nat_str b @ t_offset @ nat_str k @ t_parents @ x @ t_find_end"
  by (simp add: find_item_body_def t_find_def t_offset_def t_parents_def t_find_end_def itoa_def)

lemma get_item_text: "get_item_body ids mime = t_get @ item_shape mime @ t_ids @ concat (map item_ref ids) @ t_get_end"
  by (simp add: get_item_body_def t_get_def t_ids_def t_get_end_def)

lemma create_item_text: "create_item_body x b r = t_create @ x @ t_mime @ b @ t_read @ r @ t_create_end"
  by (simp add: create_item_body_def t_create_def t_mime_def t_read_def t_create_end_def)

lemma nat_str_quote: "CHR 34 \<notin> set (nat_str n)"
  using nat_str_digits [of n] by (auto simp: list_all_iff is_digit_def)

lemma b64_char_free: "b64_char n \<noteq> CHR ''<''"
proof -
  have "bv (b64_char n) \<noteq> 60"
    by (auto simp: b64_char_def)
  then show ?thesis
    by auto
qed

lemma b64_free: "CHR ''<'' \<notin> set (b64_encode d)"
  by (induction d rule: b64_encode.induct) (auto simp: b64_char_free [symmetric])

lemma read_find_text: "known_ref r \<Longrightarrow> read_find (nat_str b @ t_offset @ nat_str k @ t_parents @ ref_xml r @ t_find_end) = Some (FindItem b k (norm_ref r))"
  by (simp add: read_find_def upto_texts nat_str_quote read_ref_text ref_ends del: ref_xml.simps)

lemma shape_clash: "peel (item_shape True @ t_ids) (item_shape False @ t_ids @ s) = None"
proof -
  have "\<not> prefix (item_shape True @ t_ids) (item_shape False @ t_ids)" "length (item_shape True @ t_ids) \<le> length (item_shape False @ t_ids)"
    by (simp_all add: item_shape_def t_ids_def)
  from peel_clash [OF this(2,1), of s] show ?thesis by simp
qed

lemma read_get_text: "read_get (item_shape mime @ t_ids @ concat (map item_ref ids) @ t_get_end) = Some (GetItem (map via_xml ids) mime)"
proof (cases mime)
  case True
  then show ?thesis
    using peel_append(1) [of "item_shape True @ t_ids" "concat (map item_ref ids) @ t_get_end"] by (simp add: read_get_def read_items_text)
next
  case False
  then show ?thesis
    using peel_append(1) [of "item_shape False @ t_ids" "concat (map item_ref ids) @ t_get_end"] by (simp add: read_get_def read_items_text shape_clash)
qed

lemma read_create_text:
  "known_ref r \<Longrightarrow> read_create (ref_xml r @ t_mime @ b64_encode d @ t_read @ (if seen then ''true'' else ''false'') @ t_create_end) = Some (CreateItem (norm_ref r) d seen)"
  by (simp add: read_create_def read_ref_text ref_ends upto_texts b64_free b64_decode_encode del: ref_xml.simps)

text \<open>The four operations start differently.\<close>

lemma op_clash:
  "find_folder_body \<noteq> t_find @ s" "find_folder_body \<noteq> t_get @ s" "find_folder_body \<noteq> t_create @ s"
  "peel t_find (t_get @ s) = None" "peel t_find (t_create @ s) = None" "peel t_get (t_create @ s) = None"
  by (simp_all add: find_folder_body_def t_find_def t_get_def t_create_def peel_def)

lemma read_op_body: "known_op p \<Longrightarrow> read_op (op_body p) = Some (norm_op p)"
proof (cases p)
  case FindFolder
  then show ?thesis by (simp add: read_op_def)
next
  case (FindItem b k r)
  then show "known_op p \<Longrightarrow> ?thesis"
    by (simp add: read_op_def find_item_text op_clash [symmetric] read_find_text del: ref_xml.simps)
next
  case (GetItem ids mime)
  then show "known_op p \<Longrightarrow> ?thesis"
    by (simp add: read_op_def get_item_text op_clash op_clash [symmetric] read_get_text)
next
  case (CreateItem r d seen)
  then show "known_op p \<Longrightarrow> ?thesis"
    using read_create_text [of r d seen]
    by (simp add: read_op_def create_item_text op_clash op_clash [symmetric] del: ref_xml.simps split: if_splits)
qed

lemma envelope_text: "soapEnvelope imp b = t_head @ imp @ t_body @ b @ t_end"
  by (simp add: soapEnvelope_def t_head_def t_body_def t_end_def)

lemma read_user_text: "read_user (impersonation u @ t_body @ s) = Some (via_xml u, t_body @ s)"
proof (cases "u = []")
  case True
  have "peel t_user (t_body @ s) = None"
    by (simp add: peel_def t_user_def t_body_def)
  then show ?thesis
    using True by (simp add: impersonation_def read_user_def xesc_def)
next
  case False
  have "impersonation u = t_user @ xesc u @ t_user_end"
    using False by (simp add: impersonation_def t_user_def t_user_end_def)
  then show ?thesis
    by (simp add: read_user_def upto_texts xesc_free)
qed

lemma read_op_text: "known_op p \<Longrightarrow> read_request (op_text u p) = Some (via_xml u, norm_op p)"
  using peel_end_append [of t_end "op_body p"]
  by (simp add: read_request_def op_text_def envelope_text read_user_text read_op_body)


end
