(* ===== verification/EwsServer.thy ===== *)
theory EwsServer
  imports EwsWire
begin

text \<open>
  The EWS endpoint against a server that does what a request says. The operations of the endpoint keep every property of the
  connection that reading requests for the user keep; with the laws of the server they meet the endpoint contract.
\<close>

section \<open>What the operations send\<close>

fun reads :: "soap_op \<Rightarrow> bool" where
  "reads (CreateItem r d seen) = False"
| "reads _ = True"

text \<open>A property that no reading request for the user breaks.\<close>

definition read_inv :: "'s weblib \<Rightarrow> string \<Rightarrow> ('s \<Rightarrow> bool) \<Rightarrow> bool" where
  "read_inv L u I = (offline_inv L I \<and>
     (\<forall>nt q c p. I c \<longrightarrow> read_request (rqBody q) = Some (u, p) \<longrightarrow> reads p \<longrightarrow> I (snd (wlDo L nt q c))))"

lemma read_call:
  assumes "read_inv L (via_xml (clImpersonate cl)) I" "known_op p" "reads p"
    and "I (ewConn s)"
  shows "I (ewConn (snd (call L cl (op_body p) s))) \<and> same_folder s (snd (call L cl (op_body p) s))"
proof (rule call_keeps [where L = L and I = I])
  show "offline_inv L I"
    using assms(1) by (simp add: read_inv_def)
  show "I (ewConn s)" "call L cl (op_body p) s = (fst (call L cl (op_body p) s), snd (call L cl (op_body p) s))"
    by (simp_all add: assms(4))
  fix nt and q :: Request and c
  assume "I c" "rqBody q = soapEnvelope (impersonation (clImpersonate cl)) (op_body p)"
  moreover have "reads (norm_op p)"
    using assms(3) by (cases p) auto
  ultimately show "I (snd (wlDo L nt q c))"
    using assms(1) read_op_text [OF assms(2), of "clImpersonate cl"] unfolding read_inv_def op_text_def by metis
qed

text \<open>The folder field holds nothing else than a reference that \<^verbatim>\<open>Select\<close> made.\<close>

definition selected :: "'s ews \<Rightarrow> folder_ref \<Rightarrow> bool" where
  "selected s r = (known_ref r \<and> ewFolderXML s = ref_xml r)"

lemma call_states:
  "snd (findFolder ut L cl n s) = snd (call L cl (op_body FindFolder) s)"
  "ewFolderXML s = ref_xml f \<Longrightarrow> snd (find_page ut L cl (int b) (int k) s) = snd (call L cl (op_body (FindItem b k f)) s)"
  "snd (getItems ut L cl ids m s) = snd (call L cl (op_body (GetItem ids m)) s)"
  by (simp_all add: findFolder_def find_page_def getItems_def split: prod.split sum.split)

lemma findFolder_keeps:
  assumes "read_inv L (via_xml (clImpersonate cl)) I" "I (ewConn s)" "findFolder ut L cl n s = (r, s')"
  shows "I (ewConn s') \<and> same_folder s s'"
  using read_call [OF assms(1), of FindFolder s] assms(2) call_states(1) [of ut L cl n s] assms(3) by simp

lemma distinguished_known: "map_of ewsDistinguished k = Some d \<Longrightarrow> known_ref (Distinguished d)"
  by (force dest: map_of_SomeD)

lemma ewSelect_keeps:
  assumes "read_inv L (via_xml (clImpersonate cl)) I" "I (ewConn s)" "ewSelect ut L cl n s = (r, s')" "selected s f"
  shows "I (ewConn s') \<and> (\<exists>f'. selected s' f')"
proof (cases "map_of ewsDistinguished (to_lower ut (trim_space n))")
  case (Some d)
  then have "selected s' (Distinguished d)" "ewConn s' = ewConn s"
    using assms(3) distinguished_known [OF Some] by (auto simp: ewSelect_def Let_def selected_def)
  then show ?thesis using assms(2) by auto
next
  case None
  obtain x s1 where f: "findFolder ut L cl n s = (x, s1)" by (cases "findFolder ut L cl n s")
  have "selected s' f \<or> (\<exists>i. selected s' (ById i))" "ewConn s' = ewConn s1"
    using assms(3,4) None findFolder_keeps [OF assms(1,2) f] by (auto simp: ewSelect_def f selected_def split: sum.splits)
  then show ?thesis
    using findFolder_keeps [OF assms(1,2) f] by auto
qed

lemma find_page_keeps:
  assumes "read_inv L (via_xml (clImpersonate cl)) I" "I (ewConn s)" "selected s f" "find_page ut L cl (int b) (int k) s = (r, s')"
  shows "I (ewConn s') \<and> same_folder s s'"
  using read_call [OF assms(1), of "FindItem b k f" s] assms(2,3) call_states(2) [of s f ut L cl b k] assms(4) by (simp add: selected_def del: op_body.simps)

lemma list_loop_keeps:
  assumes ri: "read_inv L (via_xml (clImpersonate cl)) I" and l: "list_loop ut L cl b k ids s = Some y" and b: "0 \<le> b" "0 \<le> k"
    and s: "I (ewConn s)" "selected s f"
  shows "I (ewConn (snd y)) \<and> same_folder s (snd y)"
proof -
  let ?P = "\<lambda>(_ :: utab) L' cl' b' k' (_ :: string list) s y. L' = L \<and> cl' = cl \<and> b' = b \<and> 0 \<le> k' \<and> I (ewConn s) \<and> selected s f \<longrightarrow>
      I (ewConn (snd y)) \<and> same_folder s (snd y)"
  have "?P ut L cl b k ids s y"
  proof (rule list_loop.raw_induct [where P = ?P, OF _ l], intro impI, elim conjE)
    fix g ut' L' cl' b' k' ids' s y
    assume ih: "\<And>ut' L' cl' b' k' ids' s y. g ut' L' cl' b' k' ids' s = Some y \<Longrightarrow> ?P ut' L' cl' b' k' ids' s y"
      and u: "(let rs = find_page ut' L' cl' b' k' s in
         case fst rs of Inl e \<Rightarrow> Some (Inl e, snd rs)
         | Inr p \<Rightarrow> if snd p then Some (Inr (ids' @ fst p), snd rs) else g ut' L' cl' b' (k' + b') (ids' @ fst p) (snd rs)) = Some y"
      and e: "L' = L" "cl' = cl" "b' = b" and k: "0 \<le> k'" and s: "I (ewConn s)" "selected s f"
    obtain x s1 where p: "find_page ut' L cl b k' s = (x, s1)" by (cases "find_page ut' L cl b k' s")
    have k1: "I (ewConn s1)" "same_folder s s1"
      using find_page_keeps [OF ri s, of ut' "nat b" "nat k'" x s1] p b k by auto
    then have s1: "selected s1 f"
      using s(2) by (simp add: selected_def)
    have "snd y = s1 \<or> (\<exists>ids1. g ut' L cl b (k' + b) ids1 s1 = Some y)"
      using u unfolding e Let_def p by (cases x) (auto split: if_splits)
    then show "I (ewConn (snd y)) \<and> same_folder s (snd y)"
    proof
      assume "\<exists>ids1. g ut' L cl b (k' + b) ids1 s1 = Some y"
      then obtain ids1 where "g ut' L cl b (k' + b) ids1 s1 = Some y" ..
      from ih [OF this] show ?thesis
        using k1 s1 k b by simp
    qed (use k1 in simp)
  qed
  then show ?thesis using b s by simp
qed

lemma ewListIDs_keeps:
  assumes "read_inv L (via_xml (clImpersonate cl)) I" "I (ewConn s)" "selected s f" "0 \<le> b" "ewListIDs ut L cl b s = (r, s')"
  shows "I (ewConn s') \<and> same_folder s s'"
proof (cases "list_loop ut L cl b 0 [] s")
  case None
  then show ?thesis
    using assms(2,5) by (simp add: ewListIDs_def list_ids_def)
next
  case (Some y)
  then show ?thesis
    using list_loop_keeps [OF assms(1) Some assms(4) order_refl assms(2,3)] assms(5) by (simp add: ewListIDs_def list_ids_def)
qed

lemma getItems_keeps:
  assumes "read_inv L (via_xml (clImpersonate cl)) I" "I (ewConn s)" "getItems ut L cl ids m s = (r, s')"
  shows "I (ewConn s') \<and> same_folder s s'"
  using read_call [OF assms(1), of "GetItem ids m" s] assms(2) call_states(3) [of ut L cl ids m s] assms(3) by simp

lemma meta_batches_keeps:
  assumes "read_inv L (via_xml (clImpersonate cl)) I"
  shows "I (ewConn s) \<Longrightarrow> meta_batches ut L cl b ids s = (r, s') \<Longrightarrow> I (ewConn s') \<and> same_folder s s'"
proof (induction "length ids" arbitrary: ids s r s' rule: less_induct)
  case less
  show ?case
  proof (cases "ids = [] \<or> b = 0")
    case True
    then show ?thesis
      using less.prems by (subst (asm) meta_batches.simps) (auto split: if_splits)
  next
    case False
    obtain x s1 where g: "getItems ut L cl (take b ids) False s = (x, s1)" by (cases "getItems ut L cl (take b ids) False s")
    note k = getItems_keeps [OF assms less.prems(1) g]
    obtain y s2 where m: "meta_batches ut L cl b (drop b ids) s1 = (y, s2)" by (cases "meta_batches ut L cl b (drop b ids) s1")
    have "I (ewConn s2) \<and> same_folder s1 s2"
      using less.hyps [OF _ _ m] k False by simp
    then show ?thesis
      using less.prems(2) False k g m by (subst (asm) meta_batches.simps) (auto split: sum.splits)
  qed
qed

lemma ewFetchMeta_keeps:
  assumes "read_inv L (via_xml (clImpersonate cl)) I" "I (ewConn s)" "selected s f" "0 \<le> b" "ewFetchMeta ut L cl b ids s = (r, s')"
  shows "I (ewConn s') \<and> same_folder s s'"
proof -
  obtain x s1 where l: "(case ids of None \<Rightarrow> ewListIDs ut L cl b s | Some li \<Rightarrow> (Inr li, s)) = (x, s1)"
    by (metis surj_pair)
  then have k: "I (ewConn s1) \<and> same_folder s s1"
    using ewListIDs_keeps [OF assms(1-4)] assms(2) by (auto split: option.splits)
  then show ?thesis
    using assms(5) meta_batches_keeps [OF assms(1), of s1 ut "nat b" _ r s'] unfolding ewFetchMeta_def l by (auto split: sum.splits)
qed

lemma ewOpen_keeps:
  assumes "read_inv L (via_xml (clImpersonate cl)) I" "I (ewConn s)" "ewOpen ut L cl i s = (r, s')"
  shows "I (ewConn s') \<and> same_folder s s'"
proof -
  obtain x s1 where g: "getItems ut L cl [i] True s = (x, s1)" by (cases "getItems ut L cl [i] True s")
  then show ?thesis
    using assms(3) getItems_keeps [OF assms(1,2) g] by (auto simp: ewOpen_def split: sum.splits if_splits option.splits)
qed

section \<open>The server\<close>

text \<open>
  What the endpoint relies on: the messages by account, folder and ID, the folder that a reference names in an account, and that the server
  does what a request says. A reading request changes nothing. A \<open>CreateItem\<close> stores in the account it names only; answered with
  success it has stored exactly the message in the folder it names, under the ID it answers with (if any); answered 401 it was not
  executed; otherwise it may or may not have been.
\<close>

record 's ews_view =
  evOK :: "'s \<Rightarrow> bool"
  evFolder :: "'s \<Rightarrow> string \<times> folder_ref \<Rightarrow> string option"
  evStore :: "'s \<Rightarrow> (string \<times> string) \<times> string \<Rightarrow> string option"

definition unchanged :: "'s ews_view \<Rightarrow> 's \<Rightarrow> 's \<Rightarrow> bool" where
  "unchanged V c c' = (evOK V c' \<and> evFolder V c' = evFolder V c \<and> evStore V c' = evStore V c)"

text \<open>The answer to a \<open>CreateItem\<close> says that the message with ID \<open>j\<close> was made.\<close>

definition says_created :: "'s weblib \<Rightarrow> string \<Rightarrow> xml \<Rightarrow> bool" where
  "says_created L b t = (wlXML L (take body_limit b) = Inr t \<and> resp_err (fst (create_item_out t)) ''CreateItem'' = None)"

definition names_item :: "xml \<Rightarrow> string \<Rightarrow> bool" where
  "names_item t j = (case snd (create_item_out t) of [] \<Rightarrow> True | i # _ \<Rightarrow> i = j \<or> i = [])"

definition create_law :: "'s weblib \<Rightarrow> 's ews_view \<Rightarrow> string \<Rightarrow> folder_ref \<Rightarrow> string \<Rightarrow> 's \<Rightarrow> (int \<times> string) result \<Rightarrow> 's \<Rightarrow> bool" where
  "create_law L V u r d c x c' =
     (evOK V c' \<and> evFolder V c' = evFolder V c \<and> evStore V c \<subseteq>\<^sub>m evStore V c'
      \<and> (\<forall>q f i. q \<noteq> u \<longrightarrow> evStore V c' ((q, f), i) = evStore V c ((q, f), i))
      \<and> (\<forall>b. x = Inr (401, b) \<longrightarrow> evStore V c' = evStore V c)
      \<and> (\<forall>b t. x = Inr (200, b) \<longrightarrow> says_created L b t \<longrightarrow>
           (\<exists>f j. evFolder V c (u, r) = Some f \<and> evStore V c ((u, f), j) = None \<and> evStore V c' = (evStore V c)(((u, f), j) \<mapsto> d) \<and> names_item t j)))"

definition ews_laws :: "'s weblib \<Rightarrow> 's ews_view \<Rightarrow> bool" where
  "ews_laws L V = (\<forall>c. evOK V c \<longrightarrow> unchanged V c (snd (wlNow L c)) \<and> (\<forall>q. unchanged V c (snd (wlDoToken L q c)))
     \<and> (\<forall>nt q u p x c'. read_request (rqBody q) = Some (u, p) \<longrightarrow> wlDo L nt q c = (x, c') \<longrightarrow>
          (if reads p then unchanged V c c' else \<forall>r d seen. p = CreateItem r d seen \<longrightarrow> create_law L V u r d c x c')))"

lemma unchanged_refl [simp]: "evOK V c \<Longrightarrow> unchanged V c c"
  by (simp add: unchanged_def)

lemma laws_offline: "ews_laws L V \<Longrightarrow> offline_inv L (unchanged V c)"
  unfolding ews_laws_def offline_inv_def unchanged_def by metis

lemma laws_reads: "ews_laws L V \<Longrightarrow> read_inv L u (unchanged V c)"
  unfolding read_inv_def
proof (intro conjI allI impI)
  fix nt and q :: Request and c1 p
  assume l: "ews_laws L V" and "unchanged V c c1" "read_request (rqBody q) = Some (u, p)" "reads p"
  moreover obtain x c2 where "wlDo L nt q c1 = (x, c2)" by (cases "wlDo L nt q c1")
  ultimately show "unchanged V c (snd (wlDo L nt q c1))"
    unfolding ews_laws_def unchanged_def by (metis snd_conv)
qed (rule laws_offline)

lemma laws_create:
  "ews_laws L V \<Longrightarrow> evOK V c \<Longrightarrow> read_request (rqBody q) = Some (u, CreateItem r d seen) \<Longrightarrow> wlDo L nt q c = (x, c') \<Longrightarrow> create_law L V u r d c x c'"
  unfolding ews_laws_def by (metis reads.simps(1))

section \<open>The contract\<close>

text \<open>The folder the endpoint writes to, and the messages; the invariant fixes the mail of all other accounts.\<close>

definition ref_of :: "string \<Rightarrow> folder_ref" where "ref_of fx = fst (the (read_ref (fx @ t_find_end)))"

definition ew_inv :: "'s ews_view \<Rightarrow> ((string \<times> string) \<times> string \<Rightarrow> string option) \<Rightarrow> string \<Rightarrow> 's ews \<Rightarrow> bool" where
  "ew_inv V M u s = (evOK V (ewConn s) \<and> (\<exists>r. selected s r) \<and> (\<forall>q f i. q \<noteq> u \<longrightarrow> evStore V (ewConn s) ((q, f), i) = M ((q, f), i)))"

definition ew_mail :: "'s ews_view \<Rightarrow> 's ews \<Rightarrow> (string \<times> string) \<times> string \<Rightarrow> string option" where
  "ew_mail V s = evStore V (ewConn s)"

definition ew_cur :: "'s ews_view \<Rightarrow> string \<Rightarrow> 's ews \<Rightarrow> (string \<times> string) option" where
  "ew_cur V u s = map_option (Pair u) (evFolder V (ewConn s) (u, ref_of (ewFolderXML s)))"

lemma ref_of_selected: "selected s r \<Longrightarrow> ref_of (ewFolderXML s) = norm_ref r"
  by (simp add: selected_def ref_of_def read_ref_text ref_ends del: ref_xml.simps)

lemma quiet_inv:
  assumes "ew_inv V M u s" "unchanged V (ewConn s) (ewConn s')" "\<exists>r. selected s' r"
  shows "ew_inv V M u s' \<and> ew_mail V s' = ew_mail V s"
  using assms by (auto simp: ew_inv_def ew_mail_def unchanged_def)

lemma quiet_cur:
  assumes "ew_inv V M u s" "unchanged V (ewConn s) (ewConn s') \<and> same_folder s s'"
  shows "ew_inv V M u s' \<and> ew_mail V s' = ew_mail V s \<and> ew_cur V u s' = ew_cur V u s"
proof -
  have "\<exists>r. selected s' r"
    using assms by (auto simp: ew_inv_def selected_def)
  then show ?thesis
    using quiet_inv [OF assms(1), of s'] assms(2) by (simp add: ew_cur_def unchanged_def)
qed

text \<open>Appending sends one writing request, for the user, with the bytes of the message.\<close>

definition append_op :: "'s ews \<Rightarrow> string list \<Rightarrow> Literal \<Rightarrow> soap_op" where
  "append_op s flags body = CreateItem (ref_of (ewFolderXML s)) (lit_read body) (bslash ''Seen'' \<in> set flags)"

lemma append_request:
  assumes "selected s r" and "rqBody q = soapEnvelope (impersonation u) (create_item_body (ewFolderXML s) (b64_encode (lit_read body))
    (if bslash ''Seen'' \<in> set flags then ''true'' else ''false''))"
  shows "read_request (rqBody q) = Some (via_xml u, append_op s flags body)"
proof -
  have "rqBody q = op_text u (CreateItem r (lit_read body) (bslash ''Seen'' \<in> set flags))"
    using assms by (simp add: op_text_def selected_def)
  then show ?thesis
    using assms(1) ref_of_selected [OF assms(1)] by (simp add: read_op_text selected_def append_op_def)
qed


text \<open>While a request to append is under way.\<close>

definition appending :: "'s ews_view \<Rightarrow> string \<Rightarrow> 's \<Rightarrow> 's \<Rightarrow> bool" where
  "appending V u c0 c = (evOK V c \<and> evFolder V c = evFolder V c0 \<and> evStore V c0 \<subseteq>\<^sub>m evStore V c
     \<and> (\<forall>q f i. q \<noteq> u \<longrightarrow> evStore V c ((q, f), i) = evStore V c0 ((q, f), i)))"

lemma laws_appending: "ews_laws L V \<Longrightarrow> offline_inv L (appending V u c0)"
  unfolding ews_laws_def offline_inv_def unchanged_def appending_def by simp

lemma create_appending: "create_law L V u r d c x c' \<Longrightarrow> appending V u c0 c \<Longrightarrow> appending V u c0 c'"
  unfolding create_law_def appending_def by (metis map_le_trans)

lemma ewAppend_call:
  "ewAppend L cl fl dt body s = (r, s') \<Longrightarrow>
    \<exists>x. call L cl (create_item_body (ewFolderXML s) (b64_encode (lit_read body)) (if bslash ''Seen'' \<in> set fl then ''true'' else ''false'')) s = (x, s')
      \<and> (\<forall>i. r = Inr i \<longrightarrow> (\<exists>d t. x = Inr d \<and> wlXML L d = Inr t \<and> resp_err (fst (create_item_out t)) ''CreateItem'' = None
          \<and> i = (case snd (create_item_out t) of [] \<Rightarrow> [] | k # _ \<Rightarrow> k)))"
  unfolding ewAppend_def Let_def by (auto split: prod.splits sum.splits option.splits)

lemma ewAppend_effect:
  assumes laws: "ews_laws L V" and inv: "ew_inv V M (via_xml (clImpersonate cl)) s" and a: "ewAppend L cl fl dt body s = (r, s')"
  shows "ew_inv V M (via_xml (clImpersonate cl)) s' \<and> ew_mail V s \<subseteq>\<^sub>m ew_mail V s'
      \<and> ew_cur V (via_xml (clImpersonate cl)) s' = ew_cur V (via_xml (clImpersonate cl)) s"
    and "r = Inr i \<Longrightarrow> \<exists>f j. ew_cur V (via_xml (clImpersonate cl)) s = Some f \<and> ew_mail V s (f, j) = None
      \<and> ew_mail V s' = (ew_mail V s)((f, j) \<mapsto> lit_read body) \<and> (i = j \<or> i = [])"
proof -
  let ?u = "via_xml (clImpersonate cl)" and ?c = "ewConn s"
  let ?b = "create_item_body (ewFolderXML s) (b64_encode (lit_read body)) (if bslash ''Seen'' \<in> set fl then ''true'' else ''false'')"
  obtain x where c: "call L cl ?b s = (x, s')" and r: "\<forall>i. r = Inr i \<longrightarrow> (\<exists>d t. x = Inr d \<and> wlXML L d = Inr t
      \<and> resp_err (fst (create_item_out t)) ''CreateItem'' = None \<and> i = (case snd (create_item_out t) of [] \<Rightarrow> [] | k # _ \<Rightarrow> k))"
    using ewAppend_call [OF a] by (elim exE conjE) (rule that)
  obtain f where sel: "selected s f" and ok: "evOK V ?c"
    using inv by (auto simp: ew_inv_def)
  have law: "create_law L V ?u (ref_of (ewFolderXML s)) (lit_read body) c y c'"
    if "evOK V c" "rqBody q = soapEnvelope (impersonation (clImpersonate cl)) ?b" "wlDo L nt q c = (y, c')" for nt q c y c'
    by (rule laws_create [OF laws that(1) append_request [OF sel that(2), unfolded append_op_def] that(3)])
  have "appending V ?u ?c (ewConn s') \<and> same_folder s s'"
  proof (rule call_keeps [where I = "appending V ?u ?c", OF laws_appending [OF laws] _ c])
    show "appending V ?u ?c ?c"
      using ok by (simp add: appending_def)
    show "appending V ?u ?c (snd (wlDo L nt q d))"
      if "appending V ?u ?c d" "rqBody q = soapEnvelope (impersonation (clImpersonate cl)) ?b" for nt q d
    proof -
      have "evOK V d"
        using that(1) by (simp add: appending_def)
      from create_appending [OF law [OF this that(2)] that(1)] show ?thesis
        by (metis prod.collapse)
    qed
  qed
  then show "ew_inv V M ?u s' \<and> ew_mail V s \<subseteq>\<^sub>m ew_mail V s' \<and> ew_cur V ?u s' = ew_cur V ?u s"
    using inv by (auto simp: appending_def ew_inv_def ew_mail_def ew_cur_def selected_def)
  assume "r = Inr i"
  then obtain d t where d: "x = Inr d" "wlXML L d = Inr t" "resp_err (fst (create_item_out t)) ''CreateItem'' = None"
      "i = (case snd (create_item_out t) of [] \<Rightarrow> [] | k # _ \<Rightarrow> k)"
    using r by blast
  have "\<exists>nt q c b. unchanged V ?c c \<and> rqBody q = soapEnvelope (impersonation (clImpersonate cl)) ?b \<and> wlDo L nt q c = (Inr (200, b), ewConn s') \<and> d = take body_limit b"
  proof (rule call_data [where I = "unchanged V ?c", OF laws_offline [OF laws] _ c [unfolded d(1)]])
    show "unchanged V ?c ?c"
      using ok by simp
    show "unchanged V ?c c'"
      if "unchanged V ?c c1" "rqBody q = soapEnvelope (impersonation (clImpersonate cl)) ?b" "wlDo L nt q c1 = (Inr (401, b), c')" for nt q c1 b c'
      using law [OF _ that(2,3)] that(1) by (simp add: create_law_def unchanged_def)
  qed
  then obtain nt q c1 b where l: "unchanged V ?c c1" "rqBody q = soapEnvelope (impersonation (clImpersonate cl)) ?b"
      "wlDo L nt q c1 = (Inr (200, b), ewConn s')" "d = take body_limit b" by blast
  have "evOK V c1" and v: "evFolder V c1 = evFolder V ?c" "evStore V c1 = evStore V ?c"
    using l(1) by (simp_all add: unchanged_def)
  then have "create_law L V ?u (ref_of (ewFolderXML s)) (lit_read body) c1 (Inr (200, b)) (ewConn s')"
    using law [OF _ l(2,3)] by blast
  moreover have "says_created L b t"
    using d(2,3) l(4) by (simp add: says_created_def)
  ultimately obtain g j where g: "evFolder V ?c (?u, ref_of (ewFolderXML s)) = Some g" "evStore V ?c ((?u, g), j) = None"
      "evStore V (ewConn s') = (evStore V ?c)(((?u, g), j) \<mapsto> lit_read body)" "names_item t j"
    unfolding create_law_def v by blast
  have "i = j \<or> i = []"
    using d(4) g(4) by (auto simp: names_item_def split: list.splits)
  then show "\<exists>f j. ew_cur V ?u s = Some f \<and> ew_mail V s (f, j) = None \<and> ew_mail V s' = (ew_mail V s)((f, j) \<mapsto> lit_read body) \<and> (i = j \<or> i = [])"
    using g by (auto simp: ew_cur_def ew_mail_def)
qed

lemma ews_reads_quiet:
  assumes laws: "ews_laws L V" and b: "0 \<le> b" and i: "ew_inv V M (via_xml (clImpersonate cl)) s"
  shows "ewSelect ut L cl n s = (r1, s') \<Longrightarrow> ew_inv V M (via_xml (clImpersonate cl)) s' \<and> ew_mail V s' = ew_mail V s"
    and "ewListIDs ut L cl b s = (r2, s') \<or> ewFetchMeta ut L cl b ids s = (r3, s') \<or> ewOpen ut L cl k s = (r4, s') \<Longrightarrow>
      ew_inv V M (via_xml (clImpersonate cl)) s' \<and> ew_mail V s' = ew_mail V s
      \<and> ew_cur V (via_xml (clImpersonate cl)) s' = ew_cur V (via_xml (clImpersonate cl)) s"
proof -
  let ?I = "unchanged V (ewConn s)"
  note ri = laws_reads [OF laws, of "via_xml (clImpersonate cl)" "ewConn s"]
  obtain f where f: "selected s f" and start: "?I (ewConn s)"
    using i by (auto simp: ew_inv_def)
  show "ewSelect ut L cl n s = (r1, s') \<Longrightarrow> ew_inv V M (via_xml (clImpersonate cl)) s' \<and> ew_mail V s' = ew_mail V s"
    using ewSelect_keeps [where I = ?I, OF ri start _ f] quiet_inv [OF i] by blast
  show "ewListIDs ut L cl b s = (r2, s') \<or> ewFetchMeta ut L cl b ids s = (r3, s') \<or> ewOpen ut L cl k s = (r4, s') \<Longrightarrow>
      ew_inv V M (via_xml (clImpersonate cl)) s' \<and> ew_mail V s' = ew_mail V s
      \<and> ew_cur V (via_xml (clImpersonate cl)) s' = ew_cur V (via_xml (clImpersonate cl)) s"
    using ewListIDs_keeps [where I = ?I, OF ri start f b] ewFetchMeta_keeps [where I = ?I, OF ri start f b] ewOpen_keeps [where I = ?I, OF ri start]
      quiet_cur [OF i] by blast
qed

lemma ews_contract:
  assumes laws: "ews_laws L V" and b: "0 \<le> b"
  shows "mail_endpoint (ewsEndpoint ut L cl b) (ew_inv V M (via_xml (clImpersonate cl))) (ew_mail V) (ew_cur V (via_xml (clImpersonate cl)))"
proof (unfold_locales, goal_cases)
  case (1 s n rs s') then show ?case using ews_reads_quiet(1) [OF assms] by (simp add: ewsEndpoint_def)
next case (2 s rl s') then show ?case using ews_reads_quiet(2) [OF assms 2(1) disjI1] by (simp add: ewsEndpoint_def)
next case (3 s ids rf s') then show ?case using ews_reads_quiet(2) [OF assms 3(1) disjI2 [OF disjI1]] by (simp add: ewsEndpoint_def)
next case (4 s i ro s') then show ?case using ews_reads_quiet(2) [OF assms 4(1) disjI2 [OF disjI2]] by (simp add: ewsEndpoint_def)
next case (5 s fl d lit e s') then show ?case using ewAppend_effect(1) [OF laws] by (simp add: ewsEndpoint_def)
next case (6 s fl d lit i s') then show ?case
    using ewAppend_effect(1) [OF laws 6(1)] ewAppend_effect(2) [OF laws 6(1), of fl d lit "Inr i" s' i] by (simp add: ewsEndpoint_def)
qed (simp_all add: ewsEndpoint_def)

section \<open>Requests for the user only\<close>

definition sends :: "string \<Rightarrow> (soap_op \<Rightarrow> bool) \<Rightarrow> ('s \<times> traffic list) ews \<Rightarrow> ('s \<times> traffic list) ews \<Rightarrow> bool" where
  "sends u P s s' = (\<exists>new. log_of s' = log_of s @ new \<and> (\<forall>(q, x)\<in>set (ews_calls new). \<exists>p. read_request (rqBody q) = Some (u, p) \<and> P p))"

definition log_inv :: "string \<Rightarrow> (soap_op \<Rightarrow> bool) \<Rightarrow> traffic list \<Rightarrow> 's \<times> traffic list \<Rightarrow> bool" where
  "log_inv u P t0 c = (\<exists>new. snd c = t0 @ new \<and> (\<forall>(q, x)\<in>set (ews_calls new). \<exists>p. read_request (rqBody q) = Some (u, p) \<and> P p))"

lemma log_start: "log_inv u P (log_of s) (ewConn s)"
  by (simp add: log_inv_def)

lemma log_extend:
  assumes "log_inv u P t0 c" "snd c' = snd c @ t" "\<forall>(q, x)\<in>set (ews_calls t). \<exists>p. read_request (rqBody q) = Some (u, p) \<and> P p"
  shows "log_inv u P t0 c'"
proof -
  obtain new where "snd c = t0 @ new" "\<forall>(q, x)\<in>set (ews_calls new). \<exists>p. read_request (rqBody q) = Some (u, p) \<and> P p"
    using assms(1) by (auto simp: log_inv_def)
  then show ?thesis
    using assms(2,3) unfolding log_inv_def by (intro exI [of _ "new @ t"]) auto
qed

lemma log_offline: "offline_inv (logged L) (log_inv u P t0)"
  unfolding offline_inv_def
  by (auto simp: logged_def split: prod.splits intro: log_extend [of u P t0 _ _ "[]"] log_extend [of u P t0 _ _ "[TokenCall _ _]"])

lemma log_request:
  assumes "log_inv u P t0 c" "read_request (rqBody q) = Some (u, p)" "P p"
  shows "log_inv u P t0 (snd (wlDo (logged L) nt q c))"
  using assms by (auto simp: logged_def split: prod.splits intro!: log_extend [OF assms(1), of _ "[EwsCall q _]"])

lemma log_reads: "read_inv (logged L) u (log_inv u reads t0)"
  unfolding read_inv_def using log_offline log_request by blast



section \<open>Complete listings\<close>

text \<open>
  A server that answers for the folder \<open>r\<close> with the messages \<open>ids\<close> in pages of size \<open>b\<close>: a page has the messages from the offset on, says whether it
  reaches the end, and the properties of items come in the order in which they are asked for.
\<close>

definition good :: "respMsg \<Rightarrow> bool" where
  "good m = ((ResponseCode m = [] \<or> ResponseCode m = ''NoError'') \<and> ResponseClass m \<noteq> ''Error'')"

definition pages :: "utab \<Rightarrow> 's weblib \<Rightarrow> 's ews_view \<Rightarrow> string \<Rightarrow> folder_ref \<Rightarrow> string list \<Rightarrow> nat \<Rightarrow> bool" where
  "pages ut L V u r ids b = (\<forall>c nt q k. evOK V c \<longrightarrow> read_request (rqBody q) = Some (u, FindItem b k r) \<longrightarrow>
     (\<exists>data c' t m. wlDo L nt q c = (Inr (200, data), c') \<and> wlXML L (take body_limit data) = Inr t \<and> good m
        \<and> find_item_out ut t = Inr (m, length ids \<le> k + b, take b (drop k ids))))"

definition gives_items :: "utab \<Rightarrow> 's weblib \<Rightarrow> 's ews_view \<Rightarrow> string \<Rightarrow> string list \<Rightarrow> nat \<Rightarrow> bool" where
  "gives_items ut L V u ids b = (\<forall>c nt q li. evOK V c \<longrightarrow> set li \<subseteq> set ids \<longrightarrow> length li \<le> b \<longrightarrow> read_request (rqBody q) = Some (u, GetItem li False) \<longrightarrow>
     (\<exists>data c' t ms. wlDo L nt q c = (Inr (200, data), c') \<and> wlXML L (take body_limit data) = Inr t
        \<and> get_item_out ut t = Inr ms \<and> list_all (good \<circ> fst) ms \<and> map eiItemID (concat (map snd ms)) = li))"

text \<open>The endpoint can send requests: the URL is valid and a token can be had.\<close>

definition can_send :: "'s weblib \<Rightarrow> ewsClient \<Rightarrow> bool" where
  "can_send L cl = (wlURL L (clURL cl) = None \<and> (\<forall>s q. \<exists>q' s1. authorize L (clAuth cl) q (clImpersonate cl) s = (Inr q', s1)))"

lemma good_ok: "good m \<Longrightarrow> resp_err m n = None"
  by (auto simp: good_def resp_err_def)

lemma call_served:
  assumes laws: "ews_laws L V" and send: "can_send L cl" and ok: "evOK V (ewConn s)" and op: "known_op p" "reads p"
    and ans: "\<And>nt q c. evOK V c \<Longrightarrow> read_request (rqBody q) = Some (via_xml (clImpersonate cl), norm_op p) \<Longrightarrow>
      \<exists>data c'. wlDo L nt q c = (Inr (200, data), c') \<and> P (take body_limit data)"
  shows "\<exists>d s'. call L cl (op_body p) s = (Inr d, s') \<and> P d \<and> evOK V (ewConn s') \<and> same_folder s s'"
proof -
  have "\<exists>d s'. call L cl (op_body p) s = (Inr d, s') \<and> P d \<and> unchanged V (ewConn s) (ewConn s') \<and> same_folder s s'"
  proof (rule call_answered [where I = "unchanged V (ewConn s)", OF laws_offline [OF laws]])
    show "unchanged V (ewConn s) (ewConn s)"
      using ok by simp
    show "wlURL L (clURL cl) = None" "\<And>s q. \<exists>q' s1. authorize L (clAuth cl) q (clImpersonate cl) s = (Inr q', s1)"
      using send by (auto simp: can_send_def)
  next
    fix nt and q :: Request and c
    assume c: "unchanged V (ewConn s) c" and q: "rqBody q = soapEnvelope (impersonation (clImpersonate cl)) (op_body p)"
    have r: "read_request (rqBody q) = Some (via_xml (clImpersonate cl), norm_op p)"
      using read_op_text [OF op(1), of "clImpersonate cl"] by (simp add: q op_text_def)
    have "reads (norm_op p)"
      using op(2) by (cases p) auto
    then have k: "unchanged V (ewConn s) (snd (wlDo L nt q c))"
      using laws_reads [OF laws, of "via_xml (clImpersonate cl)" "ewConn s"] c r unfolding read_inv_def by blast
    obtain data c' where "wlDo L nt q c = (Inr (200, data), c')" "P (take body_limit data)"
      using ans [OF _ r, of c nt] c unfolding unchanged_def by blast
    then show "\<exists>b c'. wlDo L nt q c = (Inr (200, b), c') \<and> unchanged V (ewConn s) c' \<and> P (take body_limit b)"
      using k by auto
  qed
  then show ?thesis
    by (auto simp: unchanged_def)
qed

lemma find_page_served:
  assumes laws: "ews_laws L V" and send: "can_send L cl" and pg: "pages ut L V (via_xml (clImpersonate cl)) (norm_ref r) ids b"
    and ok: "evOK V (ewConn s)" and sel: "selected s r" and ne: "[] \<notin> set ids"
  shows "\<exists>s'. find_page ut L cl (int b) (int k) s = (Inr (take b (drop k ids), length ids \<le> k + b \<or> take b (drop k ids) = []), s')
    \<and> evOK V (ewConn s') \<and> selected s' r"
proof -
  have op: "known_op (FindItem b k r)"
    using sel by (simp add: selected_def)
  obtain d s' t m where c: "call L cl (op_body (FindItem b k r)) s = (Inr d, s')" "wlXML L d = Inr t" "good m"
      "find_item_out ut t = Inr (m, length ids \<le> k + b, take b (drop k ids))" "evOK V (ewConn s')" "same_folder s s'"
    using call_served [OF laws send ok op, where P = "\<lambda>d. \<exists>t m. wlXML L d = Inr t \<and> good m \<and> find_item_out ut t = Inr (m, length ids \<le> k + b, take b (drop k ids))"]
      pg unfolding pages_def by (auto simp del: op_body.simps)
  have f: "filter (\<lambda>i. i \<noteq> []) (take b (drop k ids)) = take b (drop k ids)"
    using ne in_set_takeD in_set_dropD by (metis (mono_tags, lifting) filter_True)
  show ?thesis
    using c sel f by (intro exI [of _ s']) (simp add: find_page_def selected_def good_ok)
qed

lemma list_loop_served:
  assumes laws: "ews_laws L V" and send: "can_send L cl" and pg: "pages ut L V (via_xml (clImpersonate cl)) (norm_ref r) ids b" and ne: "[] \<notin> set ids" and b: "0 < b"
  shows "evOK V (ewConn s) \<Longrightarrow> selected s r \<Longrightarrow> k \<le> length ids \<or> k = 0 \<Longrightarrow>
    \<exists>s'. list_loop ut L cl (int b) (int k) (take k ids) s = Some (Inr ids, s') \<and> evOK V (ewConn s') \<and> selected s' r"
proof (induction "length ids - k" arbitrary: k s rule: less_induct)
  case less
  obtain s1 where p: "find_page ut L cl (int b) (int k) s = (Inr (take b (drop k ids), length ids \<le> k + b \<or> take b (drop k ids) = []), s1)"
      "evOK V (ewConn s1)" "selected s1 r"
    using find_page_served [OF laws send pg less.prems(1,2) ne, of k] by blast
  have t: "take k ids @ take b (drop k ids) = take (k + b) ids"
    by (simp add: take_add)
  show ?case
  proof (cases "length ids \<le> k + b \<or> take b (drop k ids) = []")
    case True
    then have "take k ids @ take b (drop k ids) = ids"
      using b by (auto simp: t)
    then show ?thesis
      using True p by (subst list_loop.simps) (simp add: Let_def)
  next
    case False
    then have "\<exists>s'. list_loop ut L cl (int b) (int (k + b)) (take (k + b) ids) s1 = Some (Inr ids, s') \<and> evOK V (ewConn s') \<and> selected s' r"
      using b by (intro less.hyps [OF _ p(2,3)]) auto
    then show ?thesis
      using False p(1) t by (subst list_loop.simps) (simp add: Let_def)
  qed
qed

lemma collect_good: "list_all (good \<circ> fst) ms \<Longrightarrow> collect_items ms = Inr (concat (map snd ms))"
  by (induction ms rule: collect_items.induct) (auto simp: good_ok)

lemma getItems_served:
  assumes laws: "ews_laws L V" and send: "can_send L cl" and gv: "gives_items ut L V (via_xml (clImpersonate cl)) ids b"
    and ok: "evOK V (ewConn s)" and li: "list_all xml_text li" "set li \<subseteq> set ids" "length li \<le> b"
  shows "\<exists>its s'. getItems ut L cl li False s = (Inr its, s') \<and> map eiItemID its = li \<and> evOK V (ewConn s')"
proof -
  have n: "map via_xml li = li"
    using li(1) by (induction li) (auto simp: unesc_xesc)
  obtain d s' t ms where c: "call L cl (op_body (GetItem li False)) s = (Inr d, s')" "wlXML L d = Inr t" "get_item_out ut t = Inr ms"
      "list_all (good \<circ> fst) ms" "map eiItemID (concat (map snd ms)) = li" "evOK V (ewConn s')"
    using call_served [OF laws send ok, of "GetItem li False" "\<lambda>d. \<exists>t ms. wlXML L d = Inr t \<and> get_item_out ut t = Inr ms
        \<and> list_all (good \<circ> fst) ms \<and> map eiItemID (concat (map snd ms)) = li"]
      gv li(2,3) unfolding gives_items_def by (auto simp: n simp del: op_body.simps)
  then show ?thesis
    by (simp add: getItems_def collect_good)
qed

lemma meta_batches_served:
  assumes laws: "ews_laws L V" and send: "can_send L cl" and gv: "gives_items ut L V (via_xml (clImpersonate cl)) ids b" and b: "0 < b"
  shows "evOK V (ewConn s) \<Longrightarrow> list_all xml_text li \<Longrightarrow> set li \<subseteq> set ids \<Longrightarrow> \<exists>ms s'. meta_batches ut L cl b li s = (Inr ms, s') \<and> map mID ms = li \<and> evOK V (ewConn s')"
proof (induction "length li" arbitrary: li s rule: less_induct)
  case less
  show ?case
  proof (cases "li = []")
    case True
    then show ?thesis
      using less.prems by (subst meta_batches.simps) simp
  next
    case False
    have x: "list_all xml_text (take b li)" "list_all xml_text (drop b li)" "set (take b li) \<subseteq> set ids" "set (drop b li) \<subseteq> set ids" "length (take b li) \<le> b"
      using less.prems(2,3) by (auto simp: list_all_iff dest: in_set_takeD in_set_dropD)
    obtain its s1 where g: "getItems ut L cl (take b li) False s = (Inr its, s1)" "map eiItemID its = take b li" "evOK V (ewConn s1)"
      using getItems_served [OF laws send gv less.prems(1) x(1,3,5)] by blast
    obtain ms s2 where m: "meta_batches ut L cl b (drop b li) s1 = (Inr ms, s2)" "map mID ms = drop b li" "evOK V (ewConn s2)"
      using less.hyps [OF _ g(3) x(2,4)] False b by auto
    have "map mID (map (ews_meta ut L) its @ ms) = li"
      using g(2) m(2) by (simp add: ews_meta_def comp_def)
    then show ?thesis
      using False b g(1) m(1,3) by (subst meta_batches.simps) simp
  qed
qed

text \<open>C19: listing an Exchange folder ends and is complete: from a server that pages correctly \<^verbatim>\<open>ListIDs\<close> returns every message exactly as
  often and in the order the folder has them, however many pages it takes, and fetching all metadata gives one entry for each of
  them in that order, however many batches.\<close>
theorem ews_listing_complete:
  assumes "ews_laws L V" and "can_send L cl" and "xml_text (clImpersonate cl)" and "evOK V (ewConn s)" and "selected s r"
    and "pages ut L V (clImpersonate cl) (norm_ref r) ids (nat b)" and "gives_items ut L V (clImpersonate cl) ids (nat b)"
    and "[] \<notin> set ids" and "list_all xml_text ids" and "1 \<le> b"
  shows "(\<exists>s'. list_ids ut L cl b s = Some (Inr ids, s')) \<and> (\<exists>ms s'. ewFetchMeta ut L cl b None s = (Inr ms, s') \<and> map mID ms = ids)"
proof -
  have u: "via_xml (clImpersonate cl) = clImpersonate cl"
    by (rule unesc_xesc [OF assms(3)])
  obtain s1 where l: "list_loop ut L cl (int (nat b)) (int 0) (take 0 ids) s = Some (Inr ids, s1)" "evOK V (ewConn s1)"
    using list_loop_served [OF assms(1,2) _ assms(8) _ assms(4,5), of ut "nat b" 0] assms(6,10) by (auto simp: u)
  moreover obtain ms s2 where "meta_batches ut L cl (nat b) ids s1 = (Inr ms, s2)" "map mID ms = ids"
    using meta_batches_served [OF assms(1,2) _ _ l(2) assms(9) order_refl, of ut "nat b"] assms(7,10) by (auto simp: u)
  ultimately show ?thesis
    using assms(10) by (auto simp: list_ids_def ewFetchMeta_def ewListIDs_def)
qed


section \<open>An example server\<close>

text \<open>A server that keeps messages, with three messages in every listing; answers are short texts that its XML reader turns into documents.\<close>

record memews =
  meStore :: "(string \<times> string) \<times> string \<Rightarrow> string option"
  meNext :: nat

definition item_xml :: "string \<Rightarrow> xml" where "item_xml i = Elem ''Message'' [] [Elem ''ItemId'' [(''Id'', i)] []]"

definition soap_xml :: "string \<Rightarrow> string \<Rightarrow> xml list \<Rightarrow> xml" where
  "soap_xml resp msg xs = Elem ''Envelope'' [] [Elem ''Body'' [] [Elem resp [] [Elem ''ResponseMessages'' [] [Elem msg [] xs]]]]"

fun mem_xml :: "string \<Rightarrow> xml" where
  "mem_xml (c # s) =
     (if c = CHR ''G'' then soap_xml ''GetItemResponse'' ''GetItemResponseMessage'' [Elem ''Items'' [] (map (\<lambda>x. item_xml [x]) s)]
      else if c = CHR ''L'' \<or> c = CHR ''M'' then soap_xml ''FindItemResponse'' ''FindItemResponseMessage''
        [Elem ''RootFolder'' [(''IncludesLastItemInRange'', if c = CHR ''L'' then ''true'' else ''false'')] [Elem ''Items'' [] (map (\<lambda>x. item_xml [x]) s)]]
      else Text [])"
| "mem_xml [] = Text []"

definition mem_ids :: "string list" where "mem_ids = [''x'', ''y'', ''z'']"

fun mem_do :: "soap_op \<Rightarrow> string \<Rightarrow> memews \<Rightarrow> (int \<times> string) \<times> memews" where
  "mem_do (CreateItem (Distinguished f) d seen) u c = ((200, ''ok''), c\<lparr>meStore := (meStore c)(((u, f), nat_str (meNext c)) \<mapsto> d), meNext := Suc (meNext c)\<rparr>)"
| "mem_do (FindItem b k r) u c = ((200, (if length mem_ids \<le> k + b then CHR ''L'' else CHR ''M'') # concat (take b (drop k mem_ids))), c)"
| "mem_do (GetItem li mime) u c = ((200, CHR ''G'' # concat li), c)"
| "mem_do p u c = ((404, ''no''), c)"

definition mem_web :: "memews weblib" where
  "mem_web = \<lparr>wlURL = (\<lambda>_. None),
     wlDo = (\<lambda>_ q c. case read_request (rqBody q) of None \<Rightarrow> (Inr (404, ''no''), c) | Some (u, p) \<Rightarrow> (case mem_do p u c of (a, c') \<Rightarrow> (Inr a, c'))),
     wlDoToken = (\<lambda>_ c. (Inr (404, ''no''), c)), wlNow = (\<lambda>c. (0, c)), wlXML = (\<lambda>d. Inr (mem_xml d)), wlJSON = (\<lambda>_. None), wlTime = (\<lambda>_ _. None)\<rparr>"

definition memews_view :: "memews ews_view" where
  "memews_view = \<lparr>evOK = (\<lambda>c. \<forall>a n. meNext c \<le> n \<longrightarrow> meStore c (a, nat_str n) = None),
     evFolder = (\<lambda>c (u, r). case r of Distinguished f \<Rightarrow> Some f | _ \<Rightarrow> None), evStore = meStore\<rparr>"

lemma memews_laws: "ews_laws mem_web memews_view"
  unfolding ews_laws_def
proof (intro allI impI conjI)
  fix c :: memews
  assume ok: "evOK memews_view c"
  show "unchanged memews_view c (snd (wlNow mem_web c))" "unchanged memews_view c (snd (wlDoToken mem_web q c))" for q
    using ok by (simp_all add: mem_web_def)
  fix nt and q :: Request and u p x c'
  assume r: "read_request (rqBody q) = Some (u, p)" and d: "wlDo mem_web nt q c = (x, c')"
  have x: "mem_do p u c = (y, c1) \<Longrightarrow> x = Inr y \<and> c' = c1" for y c1
    using d r by (simp add: mem_web_def)
  show "if reads p then unchanged memews_view c c' else \<forall>r d seen. p = CreateItem r d seen \<longrightarrow> create_law mem_web memews_view u r d c x c'"
  proof (cases "reads p")
    case True
    then have "c' = c"
      using x by (cases p) auto
    then show ?thesis
      using True ok by simp
  next
    case False
    then obtain r d seen where p: "p = CreateItem r d seen" by (cases p) auto
    have "create_law mem_web memews_view u r d c x c'"
    proof (cases r)
      case (Distinguished f)
      let ?j = "nat_str (meNext c)"
      have new: "meStore c ((u, f), ?j) = None"
        using ok by (simp add: memews_view_def)
      have c': "x = Inr (200, ''ok'')" "c' = c\<lparr>meStore := (meStore c)(((u, f), ?j) \<mapsto> d), meNext := Suc (meNext c)\<rparr>"
        using x p Distinguished by auto
      have "names_item t ?j" if "says_created mem_web ''ok'' t" for t
        using that by (auto simp: says_created_def mem_web_def body_limit_def names_item_def create_item_out_def at_def any_of_def)
      then show ?thesis
        using ok new Distinguished unfolding create_law_def c' by (auto simp: memews_view_def map_le_def intro!: exI [of _ ?j])
    qed (use x p ok in \<open>auto simp: create_law_def\<close>)
    then show ?thesis
      using False p by simp
  qed
qed

lemma at_path [simp]: "at [] xs = xs" "at (n # ns) xs = at ns (concat (map (\<lambda>y. filter (named n) (children y)) xs))"
  by (simp_all add: at_def)

lemma item_xml_out [simp]: "filter is_elem (map (\<lambda>x. item_xml [x]) s) = map (\<lambda>x. item_xml [x]) s" "item_id ''ItemId'' (item_xml i) = i"
  by (auto simp: item_xml_def item_id_def attr_of_def attrs_of_def last_or_def)

lemma no_resp: "respMsg_at [Elem n [] [Elem k as xs]] = \<lparr>ResponseClass = [], ResponseCode = [], MessageText = []\<rparr>" if "k \<notin> {''ResponseCode'', ''MessageText''}"
  using that by (auto simp: respMsg_at_def attr_of_def attrs_of_def last_or_def text_at_def)

lemma mem_ids_chars: "set xs \<subseteq> set mem_ids \<Longrightarrow> map (\<lambda>x. [x]) (concat xs) = xs \<and> length (concat xs) = length xs"
  by (induction xs) (auto simp: mem_ids_def)

lemma short_answer: "length s < 1000 \<Longrightarrow> take body_limit s = s"
  by (simp add: body_limit_def)

lemma memews_pages: "pages ut_ex mem_web memews_view u r mem_ids b"
  unfolding pages_def
proof (intro allI impI)
  fix c nt and q :: Request and k
  assume r: "read_request (rqBody q) = Some (u, FindItem b k r)"
  let ?p = "take b (drop k mem_ids)" and ?c = "if length mem_ids \<le> k + b then CHR ''L'' else CHR ''M''"
  let ?m = "\<lparr>ResponseClass = [], ResponseCode = [], MessageText = []\<rparr>"
  have p: "map (\<lambda>x. [x]) (concat ?p) = ?p \<and> length (concat ?p) = length ?p"
    by (rule mem_ids_chars) (meson in_set_takeD in_set_dropD subsetI)
  then have "take body_limit (?c # concat ?p) = ?c # concat ?p"
    by (intro short_answer) (simp add: mem_ids_def)
  moreover have "find_item_out ut_ex (mem_xml (?c # concat ?p)) = Inr (?m, length mem_ids \<le> k + b, ?p)"
    using p by (auto simp: find_item_out_def soap_xml_def any_of_def no_resp attrs_of_def xml_bool_def comp_def trim_space_plain plain_chars_def)
  ultimately show "\<exists>data c' t m. wlDo mem_web nt q c = (Inr (200, data), c') \<and> wlXML mem_web (take body_limit data) = Inr t \<and> good m
        \<and> find_item_out ut_ex t = Inr (m, length mem_ids \<le> k + b, ?p)"
    using r by (intro exI [of _ "?c # concat ?p"] exI [of _ c] exI [of _ "mem_xml (?c # concat ?p)"] exI [of _ ?m]) (simp add: mem_web_def good_def)
qed

lemma item_at_ex: "ewsItem_at ut (item_xml i) = Inr \<lparr>eiItemID = i, eiSubject = [], eiDateTimeReceived = [], eiSize = 0, eiIsRead = [], eiIsDraft = [],
    eiInternetMsgID = [], eiMimeContent = [], eiHeaders = []\<rparr>"
  unfolding ewsItem_at_def by (subst item_xml_out(2)) (simp add: item_xml_def text_at_def last_or_def)

lemma all_results_map: "(\<And>x. x \<in> set xs \<Longrightarrow> f x = Inr (g x)) \<Longrightarrow> all_results (map f xs) = Inr (map g xs)"
  by (induction xs) auto

lemma memews_items: "b < 900 \<Longrightarrow> gives_items ut_ex mem_web memews_view u mem_ids b"
  unfolding gives_items_def
proof (intro allI impI)
  fix c nt and q :: Request and li
  assume b: "b < 900" "length li \<le> b" and li: "set li \<subseteq> set mem_ids" and r: "read_request (rqBody q) = Some (u, GetItem li False)"
  let ?d = "CHR ''G'' # concat li" and ?m = "\<lparr>ResponseClass = [], ResponseCode = [], MessageText = []\<rparr>"
  let ?it = "\<lambda>i. \<lparr>eiItemID = i, eiSubject = [], eiDateTimeReceived = [], eiSize = 0, eiIsRead = [], eiIsDraft = [], eiInternetMsgID = [],
    eiMimeContent = [], eiHeaders = []\<rparr>"
  note p = mem_ids_chars [OF li]
  have d: "take body_limit ?d = ?d"
    using p b by (intro short_answer) simp
  have l: "map (\<lambda>x. ?it [x]) (concat li) = map ?it li"
    using p by (metis (no_types, lifting) list.map_comp comp_def map_eq_conv)
  have "all_results (map (ewsItem_at ut_ex) (map (\<lambda>x. item_xml [x]) (concat li))) = Inr (map ?it li)"
    using l by (simp add: comp_def all_results_map item_at_ex)
  then have "get_item_out ut_ex (mem_xml ?d) = Inr [(?m, map ?it li)]"
    by (simp add: get_item_out_def soap_xml_def get_item_msg_def any_of_def no_resp)
  then show "\<exists>data c' t ms. wlDo mem_web nt q c = (Inr (200, data), c') \<and> wlXML mem_web (take body_limit data) = Inr t
        \<and> get_item_out ut_ex t = Inr ms \<and> list_all (good \<circ> fst) ms \<and> map eiItemID (concat (map snd ms)) = li"
    using r d by (intro exI [of _ ?d] exI [of _ c] exI [of _ "mem_xml ?d"] exI [of _ "[(?m, map ?it li)]"]) (simp add: mem_web_def good_def comp_def)
qed

definition mem_cl :: ewsClient where "mem_cl = \<lparr>clURL = ''u'', clAuth = BasicAuth ''m'' ''p'', clImpersonate = ''a@x''\<rparr>"

definition memews_ex :: "memews ews" where
  "memews_ex = \<lparr>ewConn = \<lparr>meStore = Map.empty, meNext = 0\<rparr>, ewTok = [], ewExp = 0, ewFolderXML = distinguished_xml ''inbox'', ewFolder = ''INBOX''\<rparr>"

lemma mem_start: "can_send mem_web mem_cl" "evOK memews_view (ewConn memews_ex)" "selected memews_ex (Distinguished ''inbox'')"
  "xml_text (clImpersonate mem_cl)" "list_all xml_text mem_ids"
proof -
  have "known_ref (Distinguished ''inbox'')"
    by (rule distinguished_known [of "[]"]) (simp add: ewsDistinguished_def)
  then show "selected memews_ex (Distinguished ''inbox'')"
    by (simp add: selected_def memews_ex_def)
qed (auto simp: can_send_def mem_web_def mem_cl_def authorize_def memews_view_def memews_ex_def xml_text_def mem_ids_def runes_ascii_Cons xml_char_def rune_error_def)

theorem ews_listing_complete_witness:
  "(\<exists>s'. list_ids ut_ex mem_web mem_cl 2 memews_ex = Some (Inr [''x'', ''y'', ''z''], s'))
    \<and> (\<exists>ms s'. ewFetchMeta ut_ex mem_web mem_cl 2 None memews_ex = (Inr ms, s') \<and> map mID ms = [''x'', ''y'', ''z''])"
  using ews_listing_complete [OF memews_laws mem_start(1,4,2,3) memews_pages memews_items _ mem_start(5), of 2] by (simp add: mem_ids_def)

definition log_ex :: "(memews \<times> traffic list) ews" where
  "log_ex = \<lparr>ewConn = (ewConn memews_ex, []), ewTok = [], ewExp = 0, ewFolderXML = distinguished_xml ''inbox'', ewFolder = ''INBOX''\<rparr>"



end
