(* ===== verification/SyncEws.thy ===== *)
theory SyncEws
  imports EwsServer SyncSafety
begin

text \<open>
  The synchronizer over two Exchange servers: the contract of the EWS endpoint is put into the locale of \<^theory_text>\<open>SyncSafety\<close>, with an
  invariant that also fixes the mail of every mailbox but the impersonated one.
\<close>

definition ew_syncer :: "'s weblib \<Rightarrow> 's weblib \<Rightarrow> (Server \<Rightarrow> goerr option) \<Rightarrow> env \<Rightarrow> Config \<Rightarrow> bool \<Rightarrow> 's ews Syncer" where
  "ew_syncer LA LB tls env cfg st = \<lparr>yCfg = cfg, yState = st,
     yBackendA = newEWSBackend (g_ut (evLib env)) LA tls (cFetchBatchSize cfg) (cServerA cfg),
     yBackendB = newEWSBackend (g_ut (evLib env)) LB tls (cFetchBatchSize cfg) (cServerB cfg),
     yDirAToB = (cDirection cfg \<noteq> DirectionBToA), yDirBToA = (cDirection cfg \<noteq> DirectionAToB), yEnv = env\<rparr>"

lemma ew_connects:
  assumes "ews_laws L V" "ew_inv V M (via_xml a) s" "bConnect (newEWSBackend ut L tls b srv) a s = (r, s')"
  shows "ew_inv V M (via_xml a) s' \<and> ew_mail V s' = ew_mail V s
    \<and> (\<forall>ep. r = Inr ep \<longrightarrow> mail_endpoint ep (ew_inv V M (via_xml a)) (ew_mail V) (ew_cur V (via_xml a)))"
proof (cases "tls srv")
  case (Some e)
  then show ?thesis
    using assms by (auto simp: newEWSBackend_def Let_def)
next
  case None
  let ?cl = "\<lparr>clURL = ews_url srv, clAuth = newEWSAuth srv, clImpersonate = a\<rparr>" and ?b = "if b < 1 then 50 else b"
  have s': "s' = s\<lparr>ewFolderXML := [], ewFolder := []\<rparr>" and r: "r = Inr (ewsEndpoint ut L ?cl ?b)"
    using assms(3) None by (auto simp: newEWSBackend_def Let_def)
  have "selected s' Unselected"
    by (simp add: s' selected_def)
  then have "ew_inv V M (via_xml a) s' \<and> ew_mail V s' = ew_mail V s"
    using assms(2) unfolding ew_inv_def ew_mail_def by (auto simp: s')
  then show ?thesis
    using ews_contract [OF assms(1), of ?b ut ?cl M] by (simp add: r)
qed

lemma ew_sides:
  assumes "ews_laws LA VA" "ews_laws LB VB"
  shows "sync_sides (ew_syncer LA LB tls env cfg st) usr
    (ew_inv VA MA (via_xml (ConnectAs usr ''a''))) (ew_mail VA) (ew_cur VA (via_xml (ConnectAs usr ''a''))) False
    (ew_inv VB MB (via_xml (ConnectAs usr ''b''))) (ew_mail VB) (ew_cur VB (via_xml (ConnectAs usr ''b''))) False"
  by unfold_locales (use ew_connects [OF assms(1)] ew_connects [OF assms(2)] in \<open>simp_all add: ew_syncer_def\<close>)

text \<open>C4: synchronizing a user between two Exchange servers never changes or removes a message, does not add to a side that the direction
  does not write to, and never touches another mailbox: on servers that do what a request says, whatever request fails or is
  repeated, the service account acts on the mailbox of that user only, whatever characters names and messages hold.\<close>
theorem ews_SyncUser_safe:
  assumes "ews_laws LA VA" and "ews_laws LB VB" and "xml_text (ConnectAs u ''a'')" and "xml_text (ConnectAs u ''b'')"
    and "evOK VA (ewConn (wA w))" and "ewFolderXML (wA w) = []" and "evOK VB (ewConn (wB w))" and "ewFolderXML (wB w) = []"
    and "run_state (SyncUser (ew_syncer LA LB tls env cfg st) ctx u) w = (x, w')"
  shows "ew_mail VA (wA w) \<subseteq>\<^sub>m ew_mail VA (wA w') \<and> ew_mail VB (wB w) \<subseteq>\<^sub>m ew_mail VB (wB w')
    \<and> (cDirection cfg = DirectionAToB \<longrightarrow> ew_mail VA (wA w') = ew_mail VA (wA w))
    \<and> (cDirection cfg = DirectionBToA \<longrightarrow> ew_mail VB (wB w') = ew_mail VB (wB w))
    \<and> (\<forall>q f i. q \<noteq> ConnectAs u ''a'' \<longrightarrow> ew_mail VA (wA w') ((q, f), i) = ew_mail VA (wA w) ((q, f), i))
    \<and> (\<forall>q f i. q \<noteq> ConnectAs u ''b'' \<longrightarrow> ew_mail VB (wB w') ((q, f), i) = ew_mail VB (wB w) ((q, f), i))"
proof -
  note sides = ew_sides [OF assms(1,2), of tls env cfg st u "evStore VA (ewConn (wA w))" "evStore VB (ewConn (wB w))", unfolded unesc_xesc [OF assms(3)] unesc_xesc [OF assms(4)]]
  have "selected (wA w) Unselected" "selected (wB w) Unselected"
    using assms(6,8) by (simp_all add: selected_def)
  then have i: "ew_inv VA (evStore VA (ewConn (wA w))) (ConnectAs u ''a'') (wA w)" "ew_inv VB (evStore VB (ewConn (wB w))) (ConnectAs u ''b'') (wB w)"
    using assms(5,7) unfolding ew_inv_def by blast+
  show ?thesis
    using sync_sides.SyncUser_grown [OF sides i assms(9)] unfolding sync_sides.grown_def [OF sides]
    by (simp add: ew_inv_def ew_mail_def ew_syncer_def)
qed

definition ew_wld_ex :: "memews ews world" where
  "ew_wld_ex = \<lparr>wA = memews_ex\<lparr>ewFolderXML := []\<rparr>, wB = memews_ex\<lparr>ewFolderXML := []\<rparr>, wDB = \<lparr>sdTables = empty_db, sdTick = 0\<rparr>,
     wCol = NewCollector, wErrs = [], wTick = 0\<rparr>"

theorem ews_SyncUser_safe_witness:
  "\<exists>w'. run_state (SyncUser (ew_syncer mem_web mem_web (\<lambda>_. None) senv_ex cfg_ex True) ctx_ex (usr_ex ''u'')) ew_wld_ex = ((), w')
     \<and> ew_mail memews_view (wA w') ((''boss'', ''inbox''), ''0'') = None"
proof -
  obtain w' where r: "run_state (SyncUser (ew_syncer mem_web mem_web (\<lambda>_. None) senv_ex cfg_ex True) ctx_ex (usr_ex ''u'')) ew_wld_ex = ((), w')"
    by (metis old.unit.exhaust surj_pair)
  have u: "ConnectAs (usr_ex ''u'') ''a'' = ''a''" "ConnectAs (usr_ex ''u'') ''b'' = ''b''"
    by (simp_all add: usr_ex_def ConnectAs_def)
  then have x: "xml_text (ConnectAs (usr_ex ''u'') ''a'')" "xml_text (ConnectAs (usr_ex ''u'') ''b'')"
    by (simp_all add: xml_text_def runes_ascii_Cons xml_char_def rune_error_def)
  have s: "evOK memews_view (ewConn (wA ew_wld_ex))" "ewFolderXML (wA ew_wld_ex) = []" "evOK memews_view (ewConn (wB ew_wld_ex))" "ewFolderXML (wB ew_wld_ex) = []"
    "ew_mail memews_view (wA ew_wld_ex) ((''boss'', ''inbox''), ''0'') = None"
    using mem_start(2) by (simp_all add: ew_wld_ex_def memews_ex_def ew_mail_def memews_view_def)
  show ?thesis
    using ews_SyncUser_safe [OF memews_laws memews_laws x s(1-4) r] r s(5) u by simp
qed

end
