(* ===== verification/EwsTest.thy ===== *)
theory EwsTest
  imports Encoding Message "HOL-Library.Word"
begin

text \<open>
  The in-memory Exchange server that the repository's tests run the EWS endpoint against (\<^verbatim>\<open>internal/endpoint/ewstest\<close>): the store of messages and
  the SOAP operations (\<^verbatim>\<open>server.go\<close>), and its authentication (\<^verbatim>\<open>auth.go\<close>) by Basic, OAuth2 tokens and NTLMv2 with its own MD4. The lemmas
  show the authentication to be sound: what the tests observe of a client that is not authorized is what a real server would show.
  Parameters: HMAC-MD5, the random challenge, \<^verbatim>\<open>unicode.ToUpper\<close> outside ASCII, the form parser of \<^verbatim>\<open>net/http\<close> and the order of Go maps.
\<close>

unbundle bit_operations_syntax

section \<open>Bytes\<close>

definition put_le :: "nat \<Rightarrow> nat \<Rightarrow> string" where
  "put_le n v = map (\<lambda>i. char_of (v div 256 ^ i)) [0..<n]"

definition get_le :: "nat \<Rightarrow> string \<Rightarrow> nat" where
  "get_le n s = (\<Sum>i<n. bv (s ! i) * 256 ^ i)"

text \<open>Writing at a position of a buffer that is long enough.\<close>

definition put_at :: "nat \<Rightarrow> string \<Rightarrow> string \<Rightarrow> string" where
  "put_at at bs m = take at m @ bs @ drop (at + length bs) m"

section \<open>MD4\<close>

type_synonym md4_state = "32 word \<times> 32 word \<times> 32 word \<times> 32 word"

definition pad_left :: "nat \<Rightarrow> nat" where
  "pad_left k = (let r = k mod 64 in if r \<le> 56 then 56 - r else 120 - r)"

lemma pad_left_Suc: "k mod 64 \<noteq> 56 \<Longrightarrow> pad_left (Suc k) < pad_left k"
proof -
  define r where "r = k mod 64"
  have "r < 64"
    by (simp add: r_def)
  moreover assume "k mod 64 \<noteq> 56"
  ultimately show ?thesis
    unfolding pad_left_def Let_def mod_Suc r_def [symmetric] by auto
qed

function pad_zeros :: "string \<Rightarrow> string" where
  "pad_zeros m = (if length m mod 64 = 56 then m else pad_zeros (m @ [CHR 0x00]))"
  by pat_completeness auto
termination
  by (relation "measure (\<lambda>m. pad_left (length m))") (simp_all add: pad_left_Suc)

declare pad_zeros.simps [simp del]

definition md4_pad :: "string \<Rightarrow> string" where
  "md4_pad data = pad_zeros (data @ [CHR 0x80]) @ put_le 8 (length data * 8 mod 2 ^ 64)"

definition md4_F :: "32 word \<Rightarrow> 32 word \<Rightarrow> 32 word \<Rightarrow> 32 word" where "md4_F x y z = (x AND y) OR (NOT x AND z)"
definition md4_G :: "32 word \<Rightarrow> 32 word \<Rightarrow> 32 word \<Rightarrow> 32 word" where "md4_G x y z = (x AND y) OR (x AND z) OR (y AND z)"
definition md4_H :: "32 word \<Rightarrow> 32 word \<Rightarrow> 32 word \<Rightarrow> 32 word" where "md4_H x y z = x XOR y XOR z"

text \<open>One pass of a round: four assignments with the rotations \<open>r1\<close> to \<open>r4\<close> and the words \<open>x1\<close> to \<open>x4\<close>.\<close>

definition md4_quad :: "(32 word \<Rightarrow> 32 word \<Rightarrow> 32 word \<Rightarrow> 32 word) \<Rightarrow> 32 word \<Rightarrow> nat \<times> nat \<times> nat \<times> nat
    \<Rightarrow> 32 word \<times> 32 word \<times> 32 word \<times> 32 word \<Rightarrow> md4_state \<Rightarrow> md4_state" where
  "md4_quad f k rs xs st = (case (rs, xs, st) of ((r1, r2, r3, r4), (x1, x2, x3, x4), (a, b, c, d)) \<Rightarrow>
     (let a = word_rotl r1 (a + f b c d + x1 + k);
          d = word_rotl r2 (d + f a b c + x2 + k);
          c = word_rotl r3 (c + f d a b + x3 + k);
          b = word_rotl r4 (b + f c d a + x4 + k)
      in (a, b, c, d)))"

definition md4_words :: "string \<Rightarrow> 32 word list" where
  "md4_words blk = map (\<lambda>i. word_of_nat (get_le 4 (drop (4 * i) blk))) [0..<16]"

definition md4_block :: "string \<Rightarrow> md4_state \<Rightarrow> md4_state" where
  "md4_block blk st =
     (let x = md4_words blk;
          s1 = fold (\<lambda>i. md4_quad md4_F 0 (3, 7, 11, 19) (x ! i, x ! (i + 1), x ! (i + 2), x ! (i + 3))) [0, 4, 8, 12] st;
          s2 = fold (\<lambda>i. md4_quad md4_G 0x5a827999 (3, 5, 9, 13) (x ! i, x ! (i + 4), x ! (i + 8), x ! (i + 12))) [0, 1, 2, 3] s1;
          s3 = fold (\<lambda>i. md4_quad md4_H 0x6ed9eba1 (3, 9, 11, 15) (x ! i, x ! (i + 8), x ! (i + 4), x ! (i + 12))) [0, 2, 1, 3] s2
      in case (s3, st) of ((a, b, c, d), (aa, bb, cc, dd)) \<Rightarrow> (a + aa, b + bb, c + cc, d + dd))"

function md4_blocks :: "string \<Rightarrow> md4_state \<Rightarrow> md4_state" where
  "md4_blocks msg st = (if msg = [] then st else md4_blocks (drop 64 msg) (md4_block (take 64 msg) st))"
  by pat_completeness auto
termination by (relation "measure (length \<circ> fst)") auto

declare md4_blocks.simps [simp del]

definition md4 :: "string \<Rightarrow> string" where
  "md4 data = (case md4_blocks (md4_pad data) (0x67452301, 0xefcdab89, 0x98badcfe, 0x10325476) of
     (a, b, c, d) \<Rightarrow> put_le 4 (unat a) @ put_le 4 (unat b) @ put_le 4 (unat c) @ put_le 4 (unat d))"

section \<open>UTF-16\<close>

definition utf16_units :: "nat \<Rightarrow> nat list" where
  "utf16_units r = (if r < 0xD800 \<or> 0xE000 \<le> r \<and> r < 0x10000 then [r]
     else if 0x10000 \<le> r \<and> r < 0x110000 then [0xD800 + (r - 0x10000) div 0x400, 0xDC00 + (r - 0x10000) mod 0x400]
     else [rune_error])"

fun utf16_decode :: "nat list \<Rightarrow> nat list" where
  "utf16_decode [] = []"
| "utf16_decode (u # us) =
     (if u < 0xD800 \<or> 0xE000 \<le> u then u # utf16_decode us
      else case us of
        v # vs \<Rightarrow> if u < 0xDC00 \<and> 0xDC00 \<le> v \<and> v < 0xE000
          then ((u - 0xD800) * 0x400 + (v - 0xDC00) + 0x10000) # utf16_decode vs else rune_error # utf16_decode us
      | [] \<Rightarrow> [rune_error])"

definition toUTF16 :: "string \<Rightarrow> string" where
  "toUTF16 s = concat (map (put_le 2) (concat (map (\<lambda>(r, _). utf16_units r) (runes s))))"

fun le_units :: "string \<Rightarrow> nat list" where
  "le_units (a # b # s) = (bv a + 256 * bv b) # le_units s"
| "le_units _ = []"

definition fromUTF16 :: "string \<Rightarrow> string" where
  "fromUTF16 b = concat (map utf8_encode (utf16_decode (le_units b)))"

section \<open>The server\<close>

datatype authMode = AuthBasicAny | AuthNTLM | AuthOAuth2

record srvlib =
  slU :: utab
  slUpper :: "nat \<Rightarrow> nat"                          \<comment> \<open>\<^verbatim>\<open>unicode.ToUpper\<close> of a rune outside ASCII\<close>
  slHMAC :: "string \<Rightarrow> string \<Rightarrow> string"            \<comment> \<open>HMAC-MD5 of the data under the key\<close>
  slForm :: "string \<Rightarrow> string \<Rightarrow> string"            \<comment> \<open>a field of the posted form\<close>
  slOrder :: "string list \<Rightarrow> string list"           \<comment> \<open>the order of a map iteration\<close>

record Server =
  svItems :: "(string, string) table"
  svNext :: int
  svLastImp :: string
  svMode :: authMode
  svNtlmUser :: string
  svNtlmPass :: string
  svNtlmChal :: "(string, string) table"
  svNtlmConns :: "(string, bool) table"
  svClientID :: string
  svSecret :: string
  svValidToken :: string
  svNTLMHandshakes :: int
  svTokenRequests :: int
  svLastScope :: string
  svLastAnchor :: string

record srvreq =
  sqPath :: string
  sqRemote :: string                                 \<comment> \<open>\<^verbatim>\<open>RemoteAddr\<close>\<close>
  sqAuth :: string                                   \<comment> \<open>\<^verbatim>\<open>Authorization\<close>\<close>
  sqAnchor :: string                                 \<comment> \<open>\<^verbatim>\<open>X-AnchorMailbox\<close>\<close>
  sqBody :: string
  sqRandom :: string                                 \<comment> \<open>eight bytes of \<^verbatim>\<open>crypto/rand\<close> for this request\<close>

text \<open>The answer: status, the header \<^verbatim>\<open>WWW-Authenticate\<close> and the body.\<close>

type_synonym srvresp = "nat \<times> string \<times> string"

definition http_error :: "nat \<Rightarrow> string \<Rightarrow> string \<Rightarrow> srvresp" where
  "http_error status www text = (status, www, text @ [CHR 0x0A])"

definition newServer :: "(string, string) table \<Rightarrow> Server" where
  "newServer seed = \<lparr>svItems = seed, svNext = 0, svLastImp = [], svMode = AuthBasicAny, svNtlmUser = [], svNtlmPass = [], svNtlmChal = [],
     svNtlmConns = [], svClientID = [], svSecret = [], svValidToken = [], svNTLMHandshakes = 0, svTokenRequests = 0, svLastScope = [], svLastAnchor = []\<rparr>"

definition Count :: "Server \<Rightarrow> nat" where "Count s = length (svItems s)"

definition Add :: "string \<Rightarrow> string \<Rightarrow> Server \<Rightarrow> Server" where
  "Add i raw s = s\<lparr>svItems := AList.update i raw (svItems s)\<rparr>"

definition RequireNTLM :: "string \<Rightarrow> string \<Rightarrow> Server \<Rightarrow> Server" where
  "RequireNTLM user pass s = s\<lparr>svMode := AuthNTLM, svNtlmUser := user, svNtlmPass := pass\<rparr>"

definition RequireOAuth2 :: "string \<Rightarrow> string \<Rightarrow> Server \<Rightarrow> Server" where
  "RequireOAuth2 clientID secret s = s\<lparr>svMode := AuthOAuth2, svClientID := clientID, svSecret := secret\<rparr>"

definition RevokeTokens :: "Server \<Rightarrow> Server" where "RevokeTokens s = s\<lparr>svValidToken := []\<rparr>"

subsection \<open>OAuth2\<close>

definition json_str :: "string \<Rightarrow> string" where "json_str s = [CHR 34] @ s @ [CHR 34]"

definition token :: "srvlib \<Rightarrow> srvreq \<Rightarrow> Server \<Rightarrow> srvresp \<times> Server" where
  "token L r s0 =
     (let s = s0\<lparr>svTokenRequests := svTokenRequests s0 + 1\<rparr>; form = slForm L (sqBody r) in
      if form ''grant_type'' \<noteq> ''client_credentials'' \<or> form ''client_id'' \<noteq> svClientID s \<or> form ''client_secret'' \<noteq> svSecret s
      then ((401, [], ''{'' @ json_str ''error'' @ '':'' @ json_str ''invalid_client'' @ '','' @ json_str ''error_description'' @ '':''
              @ json_str ''AADSTS7000215: Invalid client secret provided.'' @ ''}'' @ [CHR 0x0A]), s)
      else let tok = ''tok-'' @ itoa (svTokenRequests s) in
        ((200, [], ''{'' @ json_str ''access_token'' @ '':'' @ json_str tok @ '','' @ json_str ''expires_in'' @ '':3599,'' @ json_str ''token_type'' @ '':'' @ json_str ''Bearer'' @ ''}''
           @ [CHR 0x0A]),
         s\<lparr>svLastScope := form ''scope'', svValidToken := tok\<rparr>))"

subsection \<open>NTLM\<close>

definition ntlm_sig :: string where "ntlm_sig = ''NTLMSSP'' @ [CHR 0x00]"

definition ntlmToken :: "string \<Rightarrow> string option" where
  "ntlmToken h =
     (case find (\<lambda>scheme. prefix scheme h) [''NTLM '', ''Negotiate ''] of
        None \<Rightarrow> None
      | Some scheme \<Rightarrow> (case b64_decode (drop (length scheme) h) of
          None \<Rightarrow> None
        | Some b \<Rightarrow> if prefix ntlm_sig b then Some b else None))"

definition challengeMsg :: "string \<Rightarrow> string" where
  "challengeMsg chal =
     (let m0 = put_at 0 ntlm_sig (replicate 52 (CHR 0x00));
          m1 = put_at 8 (put_le 4 2) m0;
          m2 = put_at 16 (put_le 4 48) m1;
          m3 = put_at 20 (put_le 4 (0x1 + 0x200 + 0x80000 + 0x800000)) m2;
          m4 = put_at 24 (take 8 chal) m3;
          m5 = put_at 40 (put_le 2 4) m4;
          m6 = put_at 42 (put_le 2 4) m5
      in put_at 44 (put_le 4 48) m6)"

definition field :: "string \<Rightarrow> nat \<Rightarrow> string" where
  "field msg at =
     (if length msg < at + 8 then []
      else let n = get_le 2 (drop at msg); off = get_le 4 (drop (at + 4) msg) in
        if off + n > length msg then [] else take n (drop off msg))"

definition to_upper :: "srvlib \<Rightarrow> string \<Rightarrow> string" where
  "to_upper L s = concat (map (\<lambda>(r, _). utf8_encode (if r < 128 then (if 97 \<le> r \<and> r \<le> 122 then r - 32 else r) else slUpper L r)) (runes s))"

definition verifyNTLMv2 :: "srvlib \<Rightarrow> string \<Rightarrow> string \<Rightarrow> string \<Rightarrow> string \<Rightarrow> bool" where
  "verifyNTLMv2 L msg chal wantUser pass =
     (let nt = field msg 20; domain = fromUTF16 (field msg 28); user = fromUTF16 (field msg 36) in
      if length nt \<le> 16 then False
      else let got = (if domain \<noteq> [] then domain @ bslash user else user) in
        if \<not> equal_fold (slU L) got wantUser then False
        else let key = slHMAC L (md4 (toUTF16 pass)) (toUTF16 (to_upper L user @ domain)) in
          slHMAC L key (chal @ drop 16 nt) = take 16 nt)"

definition ntlm_fail :: "string \<Rightarrow> srvresp" where "ntlm_fail text = http_error 401 ''NTLM'' text"

definition ntlm_conn :: "Server \<Rightarrow> string \<Rightarrow> bool" where
  "ntlm_conn s addr = (map_of (svNtlmConns s) addr = Some True)"

text \<open>\<open>None\<close>: the request may go on; otherwise the answer that was written.\<close>

definition ntlm :: "srvlib \<Rightarrow> srvreq \<Rightarrow> Server \<Rightarrow> srvresp option \<times> Server" where
  "ntlm L r s =
     (if ntlm_conn s (sqRemote r) then (None, s)
      else case ntlmToken (sqAuth r) of
        None \<Rightarrow> (Some (ntlm_fail ''ntlm required''), s)
      | Some msg \<Rightarrow>
          if length msg < 12 then (Some (ntlm_fail ''ntlm required''), s)
          else (let kind = get_le 4 (drop 8 msg) in
            if kind = 1 then
              (Some (http_error 401 (''NTLM '' @ b64_encode (challengeMsg (sqRandom r))) ''challenge''),
               s\<lparr>svNtlmChal := AList.update (sqRemote r) (sqRandom r) (svNtlmChal s)\<rparr>)
            else if kind = 3 then
              (let s1 = s\<lparr>svNtlmChal := tbl_del (\<lambda>a. a = sqRemote r) (svNtlmChal s)\<rparr> in
               case map_of (svNtlmChal s) (sqRemote r) of
                 None \<Rightarrow> (Some (ntlm_fail ''ntlm failed''), s1)
               | Some chal \<Rightarrow>
                   if verifyNTLMv2 L msg chal (svNtlmUser s) (svNtlmPass s)
                   then (None, s1\<lparr>svNtlmConns := AList.update (sqRemote r) True (svNtlmConns s), svNTLMHandshakes := svNTLMHandshakes s + 1\<rparr>)
                   else (Some (ntlm_fail ''ntlm failed''), s1))
            else (Some (ntlm_fail ''ntlm failed''), s)))"

definition basic_ok :: "string \<Rightarrow> bool" where
  "basic_ok h = (length h \<ge> 6 \<and> map (ascii_lower \<circ> of_char) (take 6 h) = map (ascii_lower \<circ> of_char) ''Basic ''
     \<and> (case b64_decode (drop 6 h) of None \<Rightarrow> False | Some c \<Rightarrow> CHR '':'' \<in> set c))"

definition authorized :: "srvlib \<Rightarrow> srvreq \<Rightarrow> Server \<Rightarrow> srvresp option \<times> Server" where
  "authorized L r s =
     (case svMode s of
        AuthNTLM \<Rightarrow> ntlm L r s
      | AuthOAuth2 \<Rightarrow>
          (let s1 = s\<lparr>svLastAnchor := sqAnchor r\<rparr> in
           if svValidToken s \<noteq> [] \<and> sqAuth r = ''Bearer '' @ svValidToken s then (None, s1)
           else (Some (http_error 401 (''Bearer error='' @ json_str ''invalid_token'') ''invalid token''), s1))
      | AuthBasicAny \<Rightarrow> if basic_ok (sqAuth r) then (None, s) else (Some (http_error 401 [] ''no auth''), s))"

section \<open>Requests\<close>

text \<open>The texts of the answers hold line feeds where the source has them.\<close>

abbreviation nl :: string where "nl \<equiv> [CHR 0x0A]"

definition srv_wrap :: "string \<Rightarrow> string" where
  \<open>srv_wrap inner = ''<?xml version="1.0"?><soap:Envelope xmlns:soap="http://schemas.xmlsoap.org/soap/envelope/" xmlns:t="http://schemas.microsoft.com/exchange/services/2006/types" xmlns:m="http://schemas.microsoft.com/exchange/services/2006/messages"><soap:Body>''
     @ inner @ ''</soap:Body></soap:Envelope>''\<close>

definition ok_code :: string where "ok_code = ''<m:ResponseCode>NoError</m:ResponseCode>''"

definition srv_folders :: string where
  \<open>srv_folders = ''<m:FindFolderResponse><m:ResponseMessages><m:FindFolderResponseMessage ResponseClass="Success">'' @ nl @
     ok_code @ ''<m:RootFolder><t:Folders>'' @ nl @
     ''<t:Folder><t:FolderId Id="cust-1" ChangeKey="ck"/><t:DisplayName>Custom</t:DisplayName></t:Folder>'' @ nl @
     ''</t:Folders></m:RootFolder></m:FindFolderResponseMessage></m:ResponseMessages></m:FindFolderResponse>''\<close>

definition srv_item :: "string \<Rightarrow> string" where
  \<open>srv_item i = ''<t:Message><t:ItemId Id="'' @ xesc i @ ''" ChangeKey="ck"/></t:Message>''\<close>

definition srv_listing :: "string list \<Rightarrow> string" where
  \<open>srv_listing ids = ''<m:FindItemResponse><m:ResponseMessages><m:FindItemResponseMessage ResponseClass="Success">'' @ nl @
     ok_code @ ''<m:RootFolder IncludesLastItemInRange="true"><t:Items>'' @ concat (map srv_item ids) @ ''</t:Items></m:RootFolder>'' @ nl @
     ''</m:FindItemResponseMessage></m:ResponseMessages></m:FindItemResponse>''\<close>

definition srv_created :: "string \<Rightarrow> string" where
  \<open>srv_created i = ''<m:CreateItemResponse><m:ResponseMessages><m:CreateItemResponseMessage ResponseClass="Success">'' @ nl @
     ok_code @ ''<m:Items>'' @ srv_item i @ ''</m:Items>'' @ nl @
     ''</m:CreateItemResponseMessage></m:ResponseMessages></m:CreateItemResponse>''\<close>

text \<open>The header of a message as XML: the keys in the order of the map, the values of a key in the order of the message.\<close>

definition headerXML :: "srvlib \<Rightarrow> string \<Rightarrow> string" where
  \<open>headerXML L raw = (case read_message raw of Inl _ \<Rightarrow> []
     | Inr h \<Rightarrow> concat (map (\<lambda>k. concat (map (\<lambda>(_, v). ''<t:InternetMessageHeader HeaderName="'' @ k @ ''">'' @ xesc v @ ''</t:InternetMessageHeader>'')
         (filter (\<lambda>(k', _). k' = k) h))) (slOrder L (remdups (map fst h)))))\<close>

definition readFlag :: "srvlib \<Rightarrow> string \<Rightarrow> string" where
  "readFlag L raw =
     (case read_message raw of
        Inr h \<Rightarrow> if equal_fold (slU L) (header_get h ''X-Test-Read'') ''yes'' then ''<t:IsRead>true</t:IsRead>'' else ''<t:IsRead>false</t:IsRead>''
      | Inl _ \<Rightarrow> ''<t:IsRead>false</t:IsRead>'')"

definition srv_message :: "srvlib \<Rightarrow> bool \<Rightarrow> string \<Rightarrow> string \<Rightarrow> string" where
  \<open>srv_message L mime i data = ''<m:GetItemResponseMessage ResponseClass="Success">'' @ ok_code @ nl @
     (if mime then ''<m:Items><t:Message><t:ItemId Id="'' @ xesc i @ ''"/><t:MimeContent CharacterSet="UTF-8">'' @ b64_encode data
        @ ''</t:MimeContent></t:Message></m:Items>'' @ nl @ ''</m:GetItemResponseMessage>''
      else ''<m:Items><t:Message><t:ItemId Id="'' @ xesc i @ ''"/><t:Size>'' @ nat_str (length data) @ ''</t:Size>'' @ readFlag L data
        @ ''<t:InternetMessageHeaders>'' @ headerXML L data @ ''</t:InternetMessageHeaders>'' @ nl
        @ ''</t:Message></m:Items></m:GetItemResponseMessage>'')\<close>

definition srv_messages :: "string \<Rightarrow> string" where
  "srv_messages msgs = ''<m:GetItemResponse><m:ResponseMessages>'' @ msgs @ ''</m:ResponseMessages></m:GetItemResponse>''"

text \<open>The two regular expressions, by hand: the first impersonated address, and the values of all attributes \<^verbatim>\<open>Id\<close>.\<close>

fun imp_match :: "string \<Rightarrow> string option" where
  "imp_match [] = None"
| "imp_match (c # s) =
     (let tag = ''<t:PrimarySmtpAddress>''; r = drop (length tag) (c # s); v = takeWhile (\<lambda>x. x \<noteq> CHR ''<'') r in
      if prefix tag (c # s) \<and> v \<noteq> [] \<and> prefix ''</t:PrimarySmtpAddress>'' (drop (length v) r) then Some v else imp_match s)"

function id_matches :: "string \<Rightarrow> string list" where
  "id_matches [] = []"
| "id_matches (c # s) =
     (let r = drop 4 (c # s); v = takeWhile (\<lambda>x. x \<noteq> CHR 34) r in
      if prefix (''Id='' @ [CHR 34]) (c # s) \<and> v \<noteq> [] \<and> prefix [CHR 34] (drop (length v) r)
      then v # id_matches (drop (length v + 1) r) else id_matches s)"
  by pat_completeness auto
termination by (relation "measure length") auto

declare id_matches.simps(2) [simp del]

definition srv_entities :: "(string \<times> string) list" where
  "srv_entities = [(''&lt;'', ''<''), (''&gt;'', ''>''), (''&amp;'', ''&''), (''&quot;'', [CHR 34]), (''&#39;'', [CHR 39]), (''&#x9;'', [CHR 9])]"

function srv_unesc :: "string \<Rightarrow> string" where
  "srv_unesc [] = []"
| "srv_unesc (c # s) = (case find (\<lambda>(e, t). e \<noteq> [] \<and> prefix e (c # s)) srv_entities of
     Some (e, t) \<Rightarrow> t @ srv_unesc (drop (length e) (c # s)) | None \<Rightarrow> c # srv_unesc s)"
  by pat_completeness auto
termination by (relation "measure length") (auto simp: find_Some_iff)

declare srv_unesc.simps(2) [simp del]

definition reqIDs :: "string \<Rightarrow> string list" where
  "reqIDs body = (case str_index ''<m:ItemIds>'' body of None \<Rightarrow> [] | Some i \<Rightarrow> map srv_unesc (id_matches (drop i body)))"

text \<open>\<open>None\<close>: the bounds of the slice are out of order, and the handler panics.\<close>

definition tagText :: "string \<Rightarrow> string \<Rightarrow> string option" where
  "tagText body tag =
     (case str_index (''<t:'' @ tag) body of None \<Rightarrow> Some []
      | Some i \<Rightarrow> (case (str_index ''>'' (drop i body), str_index (''</t:'' @ tag @ ''>'') (drop i body)) of
          (Some j, Some k) \<Rightarrow> if j + 1 \<le> k then Some (take (k - (j + 1)) (drop (i + j + 1) body)) else None
        | _ \<Rightarrow> Some []))"

text \<open>\<^verbatim>\<open>base64.StdEncoding.DecodeString\<close> without looking at its error: what was decoded before it.\<close>

fun b64_part :: "string \<Rightarrow> string" where
  "b64_part (a # b # c # d # s) =
     (case (b64_val a, b64_val b) of
        (Some w, Some x) \<Rightarrow>
          if c = CHR ''='' then (if d = CHR ''='' then [b64_byte1 w x] else [])
          else (case b64_val c of None \<Rightarrow> []
            | Some y \<Rightarrow> if d = CHR ''='' then [b64_byte1 w x, b64_byte2 x y]
                else (case b64_val d of None \<Rightarrow> [] | Some z \<Rightarrow> [b64_byte1 w x, b64_byte2 x y, b64_byte3 y z] @ b64_part s))
      | _ \<Rightarrow> [])"
| "b64_part _ = []"

definition decode_part :: "string \<Rightarrow> string" where
  "decode_part s = b64_part (filter (\<lambda>c. c \<noteq> CHR 0x0A \<and> c \<noteq> CHR 0x0D) s)"

definition get_items :: "srvlib \<Rightarrow> string \<Rightarrow> Server \<Rightarrow> string" where
  "get_items L body s = concat (map (\<lambda>i. case map_of (svItems s) i of None \<Rightarrow> []
       | Some data \<Rightarrow> srv_message L (str_contains body ''IncludeMimeContent'') i data) (reqIDs body))"

definition create_item :: "string \<Rightarrow> Server \<Rightarrow> string \<times> Server" where
  "create_item data s =
     (let n = svNext s + 1; i = ''AAMk-'' @ itoa n @ ''==''
      in (i, s\<lparr>svNext := n, svItems := AList.update i data (svItems s)\<rparr>))"

text \<open>The operation of an authorized request; \<open>None\<close> when the handler panics.\<close>

definition serve_op :: "srvlib \<Rightarrow> string \<Rightarrow> Server \<Rightarrow> srvresp option \<times> Server" where
  "serve_op L body s =
     (if str_contains body ''FindFolder'' then (Some (200, [], srv_wrap srv_folders), s)
      else if str_contains body ''FindItem'' then (Some (200, [], srv_wrap (srv_listing (slOrder L (map fst (svItems s))))), s)
      else if str_contains body ''CreateItem'' then
        (case tagText body ''MimeContent'' of
           None \<Rightarrow> (None, s)
         | Some text \<Rightarrow> (case create_item (decode_part text) s of (i, s') \<Rightarrow> (Some (200, [], srv_wrap (srv_created i)), s')))
      else if str_contains body ''GetItem'' then (Some (200, [], srv_wrap (srv_messages (get_items L body s))), s)
      else (Some (http_error 400 [] ''unknown op''), s))"

definition handle :: "srvlib \<Rightarrow> srvreq \<Rightarrow> Server \<Rightarrow> srvresp option \<times> Server" where
  "handle L r s =
     (if sqPath r = ''/token'' then (case token L r s of (x, s') \<Rightarrow> (Some x, s'))
      else case authorized L r s of
        (Some x, s1) \<Rightarrow> (Some x, s1)
      | (None, s1) \<Rightarrow> serve_op L (sqBody r) (case imp_match (sqBody r) of None \<Rightarrow> s1 | Some u \<Rightarrow> s1\<lparr>svLastImp := u\<rparr>))"

section \<open>Properties\<close>

subsection \<open>Encodings\<close>

lemma length_pad_zeros: "length (pad_zeros m) mod 64 = 56"
  by (induction m rule: pad_zeros.induct) (subst pad_zeros.simps, simp)

lemma length_put_le [simp]: "length (put_le n v) = n"
  by (simp add: put_le_def)

text \<open>MD4 works on whole blocks, whatever the length of the data.\<close>

lemma length_md4_pad: "length (md4_pad data) mod 64 = 0"
proof -
  obtain k where "length (pad_zeros (data @ [CHR 0x80])) = 64 * k + 56"
    using length_pad_zeros [of "data @ [CHR 0x80]"] by (metis div_mult_mod_eq mult.commute)
  then have "length (md4_pad data) = 64 * (k + 1)"
    by (simp add: md4_pad_def)
  then show ?thesis
    by simp
qed

lemma length_md4: "length (md4 data) = 16"
  by (simp add: md4_def split: prod.splits)

definition scalar :: "nat \<Rightarrow> bool" where
  "scalar r = (r < 0xD800 \<or> 0xE000 \<le> r \<and> r < 0x110000)"

lemma utf16_roundtrip: "scalar r \<Longrightarrow> utf16_decode (utf16_units r @ us) = r # utf16_decode us"
proof (cases "0x10000 \<le> r")
  case True
  define k where "k = r - 0x10000"
  assume "scalar r"
  then have "k < 0x100000" and r: "r = k + 0x10000"
    using True by (auto simp: scalar_def k_def)
  moreover obtain h l where hl: "k div 0x400 = h" "k mod 0x400 = l"
    by blast
  moreover have "k = h * 0x400 + l" and "l < 0x400"
    using div_mult_mod_eq [of k "0x400"] hl by auto
  ultimately have "h < 0x400"
    by linarith
  then have "utf16_units r = [0xD800 + h, 0xDC00 + l]"
    using \<open>k < 0x100000\<close> hl by (simp add: utf16_units_def r)
  then show ?thesis
    using \<open>h < 0x400\<close> \<open>l < 0x400\<close> \<open>k = h * 0x400 + l\<close> r by simp
qed (auto simp: utf16_units_def scalar_def)

lemma utf16_decode_units: "list_all scalar rs \<Longrightarrow> utf16_decode (concat (map utf16_units rs)) = rs"
  by (induction rs) (auto simp: utf16_roundtrip)

lemma unit_bound: "u \<in> set (utf16_units r) \<Longrightarrow> u < 0x10000"
proof -
  assume u: "u \<in> set (utf16_units r)"
  have "(r - 0x10000) div 0x400 < 0x400" if "r < 0x110000"
    using that by (simp add: div_less_iff_less_mult)
  moreover have "(r - 0x10000) mod 0x400 < 0x400"
    by simp
  ultimately show ?thesis
    using u by (auto simp: utf16_units_def rune_error_def split: if_splits)
qed

lemma le_units_put: "u < 0x10000 \<Longrightarrow> le_units (put_le 2 u @ s) = u # le_units s"
proof -
  assume "u < 0x10000"
  then have "u div 256 mod 256 = u div 256"
    by (simp add: div_less_iff_less_mult)
  then have "u mod 256 + 256 * (u div 256 mod 256) = u"
    by simp
  moreover have "put_le 2 u = [char_of u, char_of (u div 256)]"
    by (simp add: put_le_def numeral_2_eq_2)
  ultimately show ?thesis
    by (simp add: of_char_of)
qed

lemma le_units_concat: "list_all (\<lambda>u. u < 0x10000) us \<Longrightarrow> le_units (concat (map (put_le 2) us)) = us"
  by (induction us) (auto simp: le_units_put)

text \<open>A name that is written in UTF-16 and read back: every rune is, so the text is the UTF-8 of its runes.\<close>

lemma UTF16_roundtrip:
  assumes "list_all scalar (map fst (runes s))"
  shows "fromUTF16 (toUTF16 s) = concat (map (\<lambda>(r, _). utf8_encode r) (runes s))"
proof -
  let ?us = "concat (map utf16_units (map fst (runes s)))"
  have us: "toUTF16 s = concat (map (put_le 2) ?us)"
    by (simp add: toUTF16_def comp_def split_def)
  have "list_all (\<lambda>u. u < 0x10000) ?us"
    using unit_bound by (fastforce simp: list_all_iff)
  then show ?thesis
    unfolding us by (simp only: fromUTF16_def le_units_concat utf16_decode_units [OF assms]) (simp add: comp_def split_def)
qed

text \<open>A field of an NTLM message is always inside the message.\<close>

lemma field_inside: "\<exists>pre post. pre @ field msg at @ post = msg"
proof -
  have "\<exists>pre post. pre @ take n (drop off msg) @ post = msg" for n off
    by (metis append_take_drop_id)
  moreover have "\<exists>pre post. pre @ [] @ post = msg"
    by (metis append_Nil)
  ultimately show ?thesis
    by (simp add: field_def Let_def)
qed

subsection \<open>Authentication\<close>

text \<open>
  A connection becomes authenticated only by a proof for the challenge that this server sent on it, and the challenge is used up whether the
  proof is right or not; nothing else changes for other connections.
\<close>

lemma ntlm_step:
  assumes "ntlm L r s = (x, s')"
  shows "(\<forall>a. ntlm_conn s' a \<longrightarrow> ntlm_conn s a \<or> a = sqRemote r \<and>
      (\<exists>msg chal. ntlmToken (sqAuth r) = Some msg \<and> map_of (svNtlmChal s) a = Some chal
         \<and> verifyNTLMv2 L msg chal (svNtlmUser s) (svNtlmPass s) \<and> map_of (svNtlmChal s') a = None))
    \<and> (\<forall>a. a \<noteq> sqRemote r \<longrightarrow> map_of (svNtlmChal s') a = map_of (svNtlmChal s) a)
    \<and> (\<forall>c. map_of (svNtlmChal s') (sqRemote r) = Some c \<longrightarrow> c = sqRandom r \<or> map_of (svNtlmChal s) (sqRemote r) = Some c)
    \<and> (x = None \<longleftrightarrow> ntlm_conn s' (sqRemote r)) \<and> svItems s' = svItems s \<and> svMode s' = svMode s
    \<and> svNtlmUser s' = svNtlmUser s \<and> svNtlmPass s' = svNtlmPass s"
proof (cases "ntlm_conn s (sqRemote r)")
  case True
  then show ?thesis
    using assms by (auto simp: ntlm_def)
next
  case False
  then show ?thesis
    using assms
    by (auto simp: ntlm_def Let_def ntlm_conn_def ntlm_fail_def http_error_def map_of_tbl_del update_conv' split: option.splits if_splits)
qed

text \<open>A request that is not authorized is answered with 401 and changes no message.\<close>

lemma unauthorized_no_effect:
  assumes "authorized L r s = (Some x, s')"
  shows "fst x = 401 \<and> svItems s' = svItems s"
proof (cases "svMode s")
  case AuthNTLM
  have "fst x = 401" if "ntlm L r s = (Some x, s')"
    using that by (auto simp: ntlm_def Let_def ntlm_fail_def http_error_def split: option.splits if_splits)
  then show ?thesis
    using assms AuthNTLM ntlm_step [of L r s "Some x" s'] by (simp add: authorized_def)
qed (use assms in \<open>auto simp: authorized_def http_error_def Let_def split: if_splits\<close>)

text \<open>After a revocation no bearer token is accepted until the token endpoint has issued a new one.\<close>

lemma revoked_refused: "svMode s = AuthOAuth2 \<Longrightarrow> \<exists>x s'. authorized L r (RevokeTokens s) = (Some x, s') \<and> svValidToken s' = []"
  by (simp add: authorized_def RevokeTokens_def http_error_def)

lemma token_issued:
  assumes "token L r s = (x, s')"
  shows "fst x = 200 \<longleftrightarrow> slForm L (sqBody r) ''grant_type'' = ''client_credentials'' \<and> slForm L (sqBody r) ''client_id'' = svClientID s
      \<and> slForm L (sqBody r) ''client_secret'' = svSecret s"
    and "svValidToken s' = (if fst x = 200 then ''tok-'' @ itoa (svTokenRequests s + 1) else svValidToken s)"
  using assms by (auto simp: token_def Let_def split: if_splits)

subsection \<open>The store\<close>

text \<open>Whatever the request, a message that is stored stays as it is; only \<^verbatim>\<open>CreateItem\<close> adds one, under a number that was not used.\<close>

definition fresh_ids :: "Server \<Rightarrow> bool" where
  "fresh_ids s = (\<forall>n > svNext s. map_of (svItems s) (''AAMk-'' @ itoa n @ ''=='') = None)"

lemma create_item_step:
  assumes "fresh_ids s" and "create_item data s = (i, s')"
  shows "map_of (svItems s) i = None \<and> map_of (svItems s') = (map_of (svItems s))(i \<mapsto> data) \<and> fresh_ids s'"
  using assms by (auto simp: create_item_def Let_def fresh_ids_def update_conv' itoa_inject)

lemma serve_op_store:
  assumes "serve_op L body s = (x, s')" and "fresh_ids s"
  shows "fresh_ids s' \<and> map_of (svItems s) \<subseteq>\<^sub>m map_of (svItems s')"
  using assms create_item_step [OF assms(2)]
  by (auto simp: serve_op_def map_le_def split: if_splits option.splits prod.splits)

lemma handle_store:
  assumes "handle L r s = (x, s')" and "fresh_ids s"
  shows "fresh_ids s' \<and> map_of (svItems s) \<subseteq>\<^sub>m map_of (svItems s')"
proof -
  have same: "fresh_ids t' \<and> map_of (svItems t) \<subseteq>\<^sub>m map_of (svItems t')" if "svItems t' = svItems t" "svNext t' = svNext t" "fresh_ids t" for t t'
    using that by (simp add: fresh_ids_def)
  show ?thesis
  proof (cases "sqPath r = ''/token''")
    case True
    then show ?thesis
      using assms by (intro same) (auto simp: handle_def token_def Let_def split: prod.splits if_splits)
  next
    case False
    obtain y s1 where a: "authorized L r s = (y, s1)"
      by (cases "authorized L r s")
    have s1: "svItems s1 = svItems s" "svNext s1 = svNext s"
      using a by (auto simp: authorized_def ntlm_def Let_def split: authMode.splits if_splits option.splits)
    show ?thesis
    proof (cases y)
      case None
      let ?t = "case imp_match (sqBody r) of None \<Rightarrow> s1 | Some u \<Rightarrow> s1\<lparr>svLastImp := u\<rparr>"
      have "serve_op L (sqBody r) ?t = (x, s')"
        using assms(1) False a None by (simp add: handle_def)
      moreover have "fresh_ids ?t" "svItems ?t = svItems s"
        using s1 assms(2) by (auto simp: fresh_ids_def split: option.splits)
      ultimately show ?thesis
        using serve_op_store by metis
    next
      case Some
      then show ?thesis
        using assms False a s1 by (intro same) (auto simp: handle_def)
    qed
  qed
qed

text \<open>The server does not undo the entity that \<^verbatim>\<open>xml.EscapeText\<close> writes for a double quote, so it does not find an item whose ID holds one.\<close>

lemma quote_not_unescaped: "srv_unesc (xesc [CHR 34]) = ''&#34;''"
proof -
  have "xesc [CHR 34] = ''&#34;''"
    by (simp add: xesc_def esc_rune_def runes_ascii ascii_def)
  then show ?thesis
    by (simp add: srv_unesc.simps(2) srv_entities_def)
qed

end
