(* ===== verification/Pst.thy ===== *)
theory Pst
  imports Encoding Maildir
begin

text \<open>
  The PST transport (\<^verbatim>\<open>internal/endpoint/pst.go\<close>): a read-only mail archive whose messages are rebuilt as RFC 822 text from
  their MAPI properties. The reader \<^verbatim>\<open>go-pst\<close> is a parameter (\<open>pstlib\<close>, over the state \<open>'s\<close> of the open file); a message is the
  record of what its accessors give. The text decoders of \<^verbatim>\<open>golang.org/x/text\<close> and the random boundary of
  \<^verbatim>\<open>mime/multipart\<close> are parameters too.
\<close>

section \<open>The archive reader\<close>

text \<open>The accessors of \<^verbatim>\<open>mapiProps\<close>; times are Unix nanoseconds.\<close>

record mapiProps =
  maSubject :: string
  maInternetMessageId :: string
  maTransportMessageHeaders :: string
  maClientSubmitTime :: int
  maMessageDeliveryTime :: int
  maSenderName :: string
  maSenderEmailAddress :: string
  maSmtpAddress :: string
  maSentRepresentingEmailAddress :: string
  maDisplayTo :: string
  maDisplayCc :: string
  maMessageFlags :: "32 word"
  maBody :: string
  maBodyHtml :: string

text \<open>A property reader: its size, what reading gives, whether it is a string property and how it is decoded.\<close>

record RawProp =
  rpSize :: int
  rpBytes :: "string result"
  rpIsString :: bool
  rpDecode :: "string \<Rightarrow> string result"

record PAttachment =
  paMethod :: int
  paData :: "string result"
  paLongFilename :: string
  paFilename :: string
  paMimeTag :: string
  paContentId :: string

text \<open>
  A message: \<open>pmProps\<close> is \<open>None\<close> when its properties are of another class, \<open>pmSubject\<close> is then the subject accessor, if there is
  one. A library call may panic while the metadata or the content is read; \<open>pmPanicMeta\<close> and \<open>pmPanicRender\<close> are the
  value it panics with.
\<close>

record PMessage =
  pmIdentifier :: int
  pmProps :: "mapiProps option"
  pmSubject :: "string option"
  pmRaw :: "nat \<Rightarrow> RawProp result"
  pmBodyRTF :: "string result"
  pmAttachments :: "PAttachment option list result"
  pmPanicMeta :: "string option"
  pmPanicRender :: "string option"

record PFolder =
  pfName :: string
  pfIdentifier :: int
  pfIsSearch :: bool
  pfMessageCount :: int

text \<open>\<^verbatim>\<open>GetMessageIterator\<close>: no error, \<^verbatim>\<open>ErrMessagesNotFound\<close>, or another error.\<close>

datatype iter_err = IterOK | IterNotFound | IterFailed goerr

record 's pstlib =
  plOpen :: "string \<Rightarrow> 's \<Rightarrow> goerr option \<times> 's"
  plNew :: "'s \<Rightarrow> goerr option \<times> 's"
  plFileClose :: "'s \<Rightarrow> 's"
  plCleanup :: "'s \<Rightarrow> 's"
  plWalkFolders :: "'s \<Rightarrow> PFolder list result \<times> 's"
  plMessages :: "PFolder \<Rightarrow> 's \<Rightarrow> (iter_err \<times> PMessage list \<times> goerr option) \<times> 's"

record textlib =
  txUTF16 :: "string \<Rightarrow> string option"      \<comment> \<open>UTF-16LE with a byte order mark\<close>
  txWindows1252 :: "string \<Rightarrow> string option"
  txBoundary :: string                        \<comment> \<open>\<^verbatim>\<open>multipart.Writer.Boundary\<close>\<close>

section \<open>From MAPI to RFC 822\<close>

definition mapiDate :: "mapiProps \<Rightarrow> time" where
  "mapiDate p = (if maClientSubmitTime p \<noteq> 0 then maClientSubmitTime p
     else if maMessageDeliveryTime p \<noteq> 0 then maMessageDeliveryTime p else zero_time)"

definition mapiFlags :: "mapiProps \<Rightarrow> string list" where
  "mapiFlags p = (if bit (maMessageFlags p) 0 then [bslash ''Seen''] else []) @ (if bit (maMessageFlags p) 3 then [bslash ''Draft''] else [])"

text \<open>\<^verbatim>\<open>strings.HasPrefix(strings.ToUpper(c), "/O=")\<close>: no rune but o and O has the upper case O.\<close>

definition exchange_dn :: "string \<Rightarrow> bool" where
  "exchange_dn c = (prefix ''/O='' c \<or> prefix ''/o='' c)"

fun firstSMTP :: "string list \<Rightarrow> string" where
  "firstSMTP [] = []"
| "firstSMTP (c0 # cs) = (let c = trim_space c0 in if str_contains c ''@'' \<and> \<not> exchange_dn c then c else firstSMTP cs)"

definition mapiFrom :: "mapiProps \<Rightarrow> string" where
  "mapiFrom p =
     (let name = oneLine (maSenderName p);
          addr = firstSMTP [maSmtpAddress p, maSentRepresentingEmailAddress p, maSenderEmailAddress p]
      in if addr \<noteq> [] \<and> name \<noteq> [] then encodeWord name @ '' <'' @ addr @ ''>''
         else if addr \<noteq> [] then addr
         else if name \<noteq> [] then encodeWord name else [])"

definition pidTagBody :: nat where "pidTagBody = 0x1000"
definition pidTagBodyHTML :: nat where "pidTagBodyHTML = 0x1013"

definition readRawProp :: "PMessage \<Rightarrow> nat \<Rightarrow> string" where
  "readRawProp m i =
     (case pmRaw m i of Inl _ \<Rightarrow> []
      | Inr pr \<Rightarrow>
          if rpSize pr \<le> 0 then []
          else (case rpBytes pr of Inl _ \<Rightarrow> []
            | Inr buf \<Rightarrow> if rpIsString pr then (case rpDecode pr buf of Inr s \<Rightarrow> s | Inl _ \<Rightarrow> buf) else buf))"

definition decodeMAPIBytes :: "textlib \<Rightarrow> string \<Rightarrow> string" where
  "decodeMAPIBytes T d =
     (case (if prefix [CHR 0xFF, CHR 0xFE] d then txUTF16 T d else None) of
        Some s \<Rightarrow> s
      | None \<Rightarrow> if utf8_valid d then d else (case txWindows1252 T d of Some s \<Rightarrow> s | None \<Rightarrow> d))"

definition pstBody :: "textlib \<Rightarrow> mapiProps \<Rightarrow> PMessage \<Rightarrow> string \<times> string" where
  "pstBody T p m =
     (if trim_space (maBodyHtml p) \<noteq> [] then (''text/html'', trim_space (maBodyHtml p))
      else if readRawProp m pidTagBodyHTML \<noteq> [] then (''text/html'', decodeMAPIBytes T (readRawProp m pidTagBodyHTML))
      else if trim_space (maBody p) \<noteq> [] then (''text/plain'', trim_space (maBody p))
      else if readRawProp m pidTagBody \<noteq> [] then (''text/plain'', decodeMAPIBytes T (readRawProp m pidTagBody))
      else (case pmBodyRTF m of Inr rtf \<Rightarrow> (''text/plain'', if trim_space rtf \<noteq> [] then rtf else [])
            | Inl _ \<Rightarrow> (''text/plain'', [])))"

record pstAttach =
  atName :: string
  atCtype :: string
  atCid :: string
  atData :: string

fun attach_loop :: "PAttachment option list \<Rightarrow> pstAttach list" where
  "attach_loop [] = []"
| "attach_loop (x # xs) =
     (case x of None \<Rightarrow> attach_loop xs
      | Some a \<Rightarrow> if paMethod a \<noteq> 1 then attach_loop xs
          else (case paData a of Inl _ \<Rightarrow> attach_loop xs
            | Inr buf \<Rightarrow> if buf = [] then attach_loop xs
                else \<lparr>atName = firstNonEmpty [paLongFilename a, paFilename a, ''attachment''],
                      atCtype = firstNonEmpty [paMimeTag a, ''application/octet-stream''],
                      atCid = trim_chars {CHR ''<'', CHR ''>''} (paContentId a), atData = buf\<rparr> # attach_loop xs))"

definition pstAttachments :: "PMessage \<Rightarrow> pstAttach list" where
  "pstAttachments m = (case pmAttachments m of Inl _ \<Rightarrow> [] | Inr all \<Rightarrow> attach_loop all)"

section \<open>Header blocks\<close>

text \<open>The local \<^verbatim>\<open>wr\<close>: a header line, unless the value is blank.\<close>

definition wr :: "string \<Rightarrow> string \<Rightarrow> string" where
  "wr k v = (if trim_space v \<noteq> [] then k @ '': '' @ v @ crlf else [])"

definition withBlankLine :: "string \<Rightarrow> string" where
  "withBlankLine h = (if suffix (crlf @ crlf) h then h else if suffix crlf h then h @ crlf else h @ crlf @ crlf)"

text \<open>The loop of \<^verbatim>\<open>strippedTransportHeaders\<close>: the lines kept so far, the current field and whether it is kept.\<close>

definition mime_field :: "utab \<Rightarrow> string \<Rightarrow> bool" where
  "mime_field ut ln =
     (let name = (case str_index '':'' ln of Some i \<Rightarrow> take i ln | None \<Rightarrow> ln); low = to_lower ut (trim_space name)
      in low = ''mime-version'' \<or> prefix ''content-'' low)"

fun strip_loop :: "utab \<Rightarrow> string list \<Rightarrow> string list \<Rightarrow> string list \<Rightarrow> bool \<Rightarrow> string list" where
  "strip_loop ut [] out cur keep = (if keep then out @ cur else out)"
| "strip_loop ut (ln # lns) out cur keep =
     (if ln = [] then (if keep then out @ cur else out)
      else if hd ln \<in> blank_chars then strip_loop ut lns out (cur @ [ln]) keep
      else strip_loop ut lns (if keep then out @ cur else out) [ln] (\<not> mime_field ut ln))"

definition strippedTransportHeaders :: "utab \<Rightarrow> string \<Rightarrow> string" where
  "strippedTransportHeaders ut raw =
     concat (map (\<lambda>ln. ln @ crlf) (strip_loop ut (split_char (CHR 0x0A) (replace_str crlf [CHR 0x0A] raw)) [] [] True))"

definition pstSubjectOf :: "PMessage \<Rightarrow> string" where
  "pstSubjectOf m = (case pmProps m of Some p \<Rightarrow> maSubject p | None \<Rightarrow> (case pmSubject m of Some s \<Rightarrow> s | None \<Rightarrow> []))"

definition pstMeta :: "utab \<Rightarrow> PMessage \<Rightarrow> (string \<times> time \<times> string list) result" where
  "pstMeta ut m =
     (case pmPanicMeta m of Some r \<Rightarrow> Inl (errnew (''panic while reading message: '' @ r))
      | None \<Rightarrow>
     (case pmProps m of
        None \<Rightarrow> Inr (''Subject: '' @ encodeWord (pstSubjectOf m) @ crlf @ crlf, zero_time, [])
      | Some p \<Rightarrow>
          (let raw = trim_space (maTransportMessageHeaders p) in
           if raw \<noteq> [] then Inr (withBlankLine (strippedTransportHeaders ut raw), mapiDate p, mapiFlags p)
           else Inr (wr ''Message-ID'' (trim_space (maInternetMessageId p))
             @ (if mapiDate p \<noteq> zero_time then wr ''Date'' (format_rfc1123z (mapiDate p)) else [])
             @ wr ''From'' (mapiFrom p) @ wr ''Subject'' (encodeWord (maSubject p)) @ crlf, mapiDate p, mapiFlags p))))"

section \<open>Rendering\<close>

text \<open>\<^verbatim>\<open>multipart.Writer.CreatePart\<close> writes the header fields in the order of their names.\<close>

definition part_head :: "string \<Rightarrow> bool \<Rightarrow> (string \<times> string) list \<Rightarrow> string" where
  "part_head bnd first hs = (if first then [] else crlf) @ ''--'' @ bnd @ crlf @ concat (map (\<lambda>(k, v). k @ '': '' @ v @ crlf) hs) @ crlf"

definition attach_part :: "utab \<Rightarrow> string \<Rightarrow> pstAttach \<Rightarrow> string" where
  "attach_part ut bnd a =
     part_head bnd False ([(''Content-Disposition'', ''attachment; filename='' @ quote_str ut (atName a))]
       @ (if atCid a \<noteq> [] then [(''Content-Id'', ''<'' @ atCid a @ ''>'')] else [])
       @ [(''Content-Transfer-Encoding'', ''base64''), (''Content-Type'', atCtype a)])
     @ base64Lines (atData a)"

definition multipart :: "utab \<Rightarrow> string \<Rightarrow> string \<Rightarrow> string \<Rightarrow> pstAttach list \<Rightarrow> string" where
  "multipart ut bnd ctype body atts =
     part_head bnd True [(''Content-Transfer-Encoding'', ''8bit''), (''Content-Type'', ctype @ ''; charset=utf-8'')] @ body
     @ concat (map (attach_part ut bnd) atts) @ crlf @ ''--'' @ bnd @ ''--'' @ crlf"

definition render_header :: "utab \<Rightarrow> mapiProps \<Rightarrow> string" where
  "render_header ut p =
     (let raw = trim_space (maTransportMessageHeaders p) in
      (if raw \<noteq> [] then strippedTransportHeaders ut raw
       else wr ''Message-ID'' (trim_space (maInternetMessageId p))
         @ (if mapiDate p \<noteq> zero_time then wr ''Date'' (format_rfc1123z (mapiDate p)) else [])
         @ wr ''From'' (mapiFrom p) @ wr ''To'' (nameList (maDisplayTo p)) @ wr ''Cc'' (nameList (maDisplayCc p))
         @ wr ''Subject'' (encodeWord (maSubject p)))
      @ wr ''MIME-Version'' ''1.0'')"

definition pstRender :: "utab \<Rightarrow> textlib \<Rightarrow> PMessage \<Rightarrow> string result" where
  "pstRender ut T m =
     (case pmPanicRender m of Some r \<Rightarrow> Inl (errnew (''panic while rendering message: '' @ r))
      | None \<Rightarrow>
     (case pmProps m of
        None \<Rightarrow> Inr (''Subject: '' @ encodeWord (pstSubjectOf m) @ crlf @ ''MIME-Version: 1.0'' @ crlf
                  @ ''Content-Type: text/plain; charset=utf-8'' @ crlf @ crlf)
      | Some p \<Rightarrow>
          (let (ctype, body) = pstBody T p m; atts = pstAttachments m; hdr = render_header ut p in
           if atts = [] then Inr (hdr @ ''Content-Type: '' @ ctype @ ''; charset=utf-8'' @ crlf @ ''Content-Transfer-Encoding: 8bit'' @ crlf @ crlf @ body)
           else Inr (hdr @ ''Content-Type: multipart/mixed; boundary='' @ quote_str ut (txBoundary T) @ crlf @ crlf
             @ multipart ut (txBoundary T) ctype body atts))))"

section \<open>The endpoint\<close>

text \<open>\<open>psMsgs\<close> is the map \<^verbatim>\<open>msgs\<close>, without repeated keys; \<open>ord\<close> below is the order in which Go ranges over a map.\<close>

record 's pst =
  psConn :: 's
  psPath :: string
  psUser :: string
  psOpen :: bool
  psFolder :: string
  psMsgs :: "(string, PMessage) table"

definition pstSpecial :: "(string, string list) table" where
  "pstSpecial = [(bslash ''Sent'', [''Sent Items'', ''Sent'', ''Sent Messages'']), (bslash ''Drafts'', [''Drafts'']),
     (bslash ''Trash'', [''Deleted Items'', ''Trash'']), (bslash ''Junk'', [''Junk Email'', ''Junk E-mail'', ''Junk'']),
     (bslash ''Archive'', [''Archive'', ''Archive Items''])]"

fun find_cands :: "utab \<Rightarrow> string list \<Rightarrow> PFolder list \<Rightarrow> PFolder option" where
  "find_cands ut [] folders = None"
| "find_cands ut (c # cs) folders = (case find (\<lambda>f. equal_fold ut (pfName f) c) folders of Some f \<Rightarrow> Some f | None \<Rightarrow> find_cands ut cs folders)"

definition resolvePSTFolder :: "utab \<Rightarrow> string \<Rightarrow> PFolder list \<Rightarrow> PFolder option" where
  "resolvePSTFolder ut name folders =
     (let n = trim_space name in
      case find (\<lambda>f. pfName f = n) folders of Some f \<Rightarrow> Some f | None \<Rightarrow>
      (case (case map_of pstSpecial n of Some cands \<Rightarrow> find_cands ut cands folders | None \<Rightarrow> None) of Some f \<Rightarrow> Some f | None \<Rightarrow>
      (case (if equal_fold ut n ''INBOX'' then find (\<lambda>f. equal_fold ut (pfName f) ''Inbox'') folders else None) of Some f \<Rightarrow> Some f | None \<Rightarrow>
      find (\<lambda>f. equal_fold ut (pfName f) n) folders)))"

fun load_msgs :: "PMessage list \<Rightarrow> (string, PMessage) table \<Rightarrow> (string, PMessage) table" where
  "load_msgs [] t = t"
| "load_msgs (m # ms) t = load_msgs ms (AList.update (itoa (pmIdentifier m)) m t)"

definition psSelect :: "utab \<Rightarrow> 's pstlib \<Rightarrow> string \<Rightarrow> 's pst \<Rightarrow> (string \<times> string) result \<times> 's pst" where
  "psSelect ut L name s =
     (case plWalkFolders L (psConn s) of
        (Inl e, c) \<Rightarrow> (Inl (wrapf (''pst '' @ psPath s @ '': walking folders: '') e), s\<lparr>psConn := c\<rparr>)
      | (Inr folders, c) \<Rightarrow>
          (case resolvePSTFolder ut name folders of
             None \<Rightarrow> (Inl (errnew (''pst '' @ psPath s @ '': folder '' @ quote_str ut name @ '' not found (have: ''
                 @ str_join '', '' (filter (\<lambda>n. n \<noteq> []) (map pfName folders)) @ '')'')), s\<lparr>psConn := c\<rparr>)
           | Some target \<Rightarrow>
               (let msg = ''pst '' @ psPath s @ '', folder '' @ quote_str ut (pfName target) @ '': ''; s1 = s\<lparr>psConn := c, psMsgs := []\<rparr> in
                if pfMessageCount target > 0 then
                  (case plMessages L target c of
                     ((IterFailed e, _, _), c2) \<Rightarrow> (Inl (wrapf msg e), s1\<lparr>psConn := c2\<rparr>)
                   | ((_, ms, err), c2) \<Rightarrow>
                       (let s2 = s1\<lparr>psConn := c2, psMsgs := load_msgs ms []\<rparr> in
                        case err of Some e \<Rightarrow> (Inl (wrapf (msg @ ''iterating messages: '') e), s2)
                        | None \<Rightarrow> (Inr (pfName target, ''pst''), s2\<lparr>psFolder := pfName target\<rparr>)))
                else (Inr (pfName target, ''pst''), s1\<lparr>psFolder := pfName target\<rparr>))))"

definition psListIDs :: "'s pst \<Rightarrow> string list result \<times> 's pst" where
  "psListIDs s = (Inr (sort (map fst (psMsgs s))), s)"

fun meta_loop :: "utab \<Rightarrow> string \<Rightarrow> (string, PMessage) table \<Rightarrow> string list \<Rightarrow> EMessage list result" where
  "meta_loop ut path t [] = Inr []"
| "meta_loop ut path t (i # is) =
     (case map_of t i of None \<Rightarrow> meta_loop ut path t is
      | Some m \<Rightarrow> (case pstMeta ut m of
          Inl e \<Rightarrow> Inl (wrapf (''pst '' @ path @ '', id='' @ i @ '': '') e)
        | Inr (hdr, date, flags) \<Rightarrow> (case meta_loop ut path t is of Inl e \<Rightarrow> Inl e
            | Inr ms \<Rightarrow> Inr (\<lparr>mID = i, mFlags = flags, mInternalDate = date, mSize = 0, mHeader = hdr\<rparr> # ms))))"

definition psFetchMeta :: "utab \<Rightarrow> (string list \<Rightarrow> string list) \<Rightarrow> string list option \<Rightarrow> 's pst \<Rightarrow> EMessage list result \<times> 's pst" where
  "psFetchMeta ut ord ids s = (meta_loop ut (psPath s) (psMsgs s) (case ids of None \<Rightarrow> ord (map fst (psMsgs s)) | Some li \<Rightarrow> li), s)"

definition psOpenMsg :: "utab \<Rightarrow> textlib \<Rightarrow> string \<Rightarrow> 's pst \<Rightarrow> Literal result \<times> 's pst" where
  "psOpenMsg ut T i s =
     (case map_of (psMsgs s) i of
        None \<Rightarrow> (Inl (errnew (''pst: message '' @ quote_str ut i @ '' not found in '' @ quote_str ut (psFolder s))), s)
      | Some m \<Rightarrow> (case pstRender ut T m of
          Inl e \<Rightarrow> (Inl (wrapf (''pst '' @ psPath s @ '', id='' @ i @ '': '') e), s)
        | Inr raw \<Rightarrow> (Inr (Buffer raw), s)))"

definition psAppend :: "string list \<Rightarrow> time \<Rightarrow> Literal \<Rightarrow> 's pst \<Rightarrow> string result \<times> 's pst" where
  "psAppend flags date lit s = (Inl (errnew ''pst: append is not supported (read-only archive)''), s)"

definition psClose :: "'s pstlib \<Rightarrow> 's pst \<Rightarrow> 's pst" where
  "psClose L s = (if psOpen s then s\<lparr>psConn := plFileClose L (plCleanup L (psConn s)), psOpen := False, psMsgs := []\<rparr> else s\<lparr>psMsgs := []\<rparr>)"

definition pstAdminFolders :: "string set" where
  "pstAdminFolders = {'''', ''root_folder'', ''top of personal folders'', ''search root''}"

definition pstSpecialUseOf :: "utab \<Rightarrow> (string list \<Rightarrow> string list) \<Rightarrow> string \<Rightarrow> string" where
  "pstSpecialUseOf ut ord name =
     (case find (\<lambda>tok. \<exists>c\<in>set (the (map_of pstSpecial tok)). equal_fold ut c name) (ord (map fst pstSpecial)) of Some tok \<Rightarrow> tok | None \<Rightarrow> [])"

definition psListFolders :: "utab \<Rightarrow> (string list \<Rightarrow> string list) \<Rightarrow> 's pstlib \<Rightarrow> 's pst \<Rightarrow> FolderInfo list result \<times> 's pst" where
  "psListFolders ut ord L s =
     (case plWalkFolders L (psConn s) of
        (Inl e, c) \<Rightarrow> (Inl (wrapf (''pst '' @ psPath s @ '': walking folders: '') e), s\<lparr>psConn := c\<rparr>)
      | (Inr folders, c) \<Rightarrow>
          (Inr (map (\<lambda>f. \<lparr>fiName = pfName f, fiSpecialUse = pstSpecialUseOf ut ord (pfName f), fiSelectable = True\<rparr>)
             (filter (\<lambda>f. to_lower ut (trim_space (pfName f)) \<notin> pstAdminFolders \<and> \<not> pfIsSearch f) folders)), s\<lparr>psConn := c\<rparr>))"

definition psCreateFolder :: "utab \<Rightarrow> string \<Rightarrow> 's pst \<Rightarrow> goerr option \<times> 's pst" where
  "psCreateFolder ut name s = (Some (errnew (''pst '' @ psPath s @ '': cannot create folder '' @ quote_str ut name @ '' - a PST archive is read-only'')), s)"

definition pstEndpoint :: "utab \<Rightarrow> textlib \<Rightarrow> (string list \<Rightarrow> string list) \<Rightarrow> 's pstlib \<Rightarrow> 's pst Endpoint" where
  "pstEndpoint ut T ord L = \<lparr>epSelect = psSelect ut L, epListIDs = psListIDs, epFetchMeta = psFetchMeta ut ord, epOpen = psOpenMsg ut T,
     epAppend = psAppend, epReadOnly = True, epClose = psClose L, epListFolders = Some (psListFolders ut ord L),
     epCreateFolder = Some (psCreateFolder ut)\<rparr>"

definition newPSTBackend :: "utab \<Rightarrow> textlib \<Rightarrow> (string list \<Rightarrow> string list) \<Rightarrow> 's pstlib \<Rightarrow> Server \<Rightarrow> 's pst Backend" where
  "newPSTBackend ut T ord L srv = \<lparr>bConnect = (\<lambda>user s.
       let path = expandUser (sRoot srv) user; msg = ''pst '' @ path @ '' (user '' @ user @ ''): '' in
       case plOpen L path (psConn s) of
         (Some e, c) \<Rightarrow> (Inl (wrapf msg e), s\<lparr>psConn := c\<rparr>)
       | (None, c) \<Rightarrow> (case plNew L c of
           (Some e, c2) \<Rightarrow> (Inl (wrapf msg e), s\<lparr>psConn := plFileClose L c2\<rparr>)
         | (None, c2) \<Rightarrow> (Inr (pstEndpoint ut T ord L), s\<lparr>psConn := c2, psPath := path, psUser := user, psOpen := True, psFolder := [], psMsgs := []\<rparr>))),
     bAddr = ''pst:'' @ sRoot srv\<rparr>"

section \<open>Fields of a header block\<close>

lemma dropWhile_stop: "\<not> P x \<Longrightarrow> dropWhile P (a @ x # b) = dropWhile P a @ x # b"
  by (induction a) auto

lemma takeWhile_stop: "rest = [] \<or> \<not> P (hd rest) \<Longrightarrow> takeWhile P (ls @ rest) = takeWhile P ls \<and> dropWhile P (ls @ rest) = dropWhile P ls @ rest"
  by (induction ls) (auto, (cases rest; simp)+)

text \<open>Reading lines and then more lines, the first of which is not a continuation.\<close>

lemma read_header_append:
  assumes "rest = [] \<or> \<not> starts_blank (hd rest)"
  shows "read_header (ls @ rest) m = (case read_header ls m of (m', Eof) \<Rightarrow> read_header rest m' | r \<Rightarrow> r)"
proof (induction "length ls" arbitrary: ls m rule: less_induct)
  case less
  show ?case
  proof (cases ls)
    case Nil
    then show ?thesis by (simp add: read_header.simps)
  next
    case (Cons l ls')
    have "length (dropWhile starts_blank ls') < length ls"
      using Cons by (simp add: length_dropWhile_le less_Suc_eq_le)
    note IH = less [OF this]
    note t = takeWhile_stop [of rest starts_blank ls', OF assms]
    show ?thesis
      unfolding Cons append_Cons read_header.simps(2) continued_line_def
      by (simp add: t Let_def IH split: option.split)
  qed
qed

text \<open>The value of a field line \<^verbatim>\<open>k: v\<close>.\<close>

definition field_value :: "string \<Rightarrow> string" where
  "field_value v = dropWhile (\<lambda>c. c \<in> blank_chars) (rev (dropWhile (\<lambda>c. c \<in> blank_chars) (rev (CHR '' '' # v))))"

lemma token_key: "k \<noteq> [] \<Longrightarrow> list_all token_char k \<Longrightarrow> CHR '':'' \<notin> set k \<and> hd k \<notin> blank_chars \<and> CHR 0x0A \<notin> set k"
  by (cases k) (auto simp: list_all_iff dest: token_char_facts)

lemma trim_key:
  assumes "k \<noteq> []" "hd k \<notin> cs" "x \<notin> cs"
  shows "trim_chars cs (k @ x # w) = k @ x # rev (dropWhile (\<lambda>c. c \<in> cs) (rev w))"
proof -
  have "dropWhile (\<lambda>c. c \<in> cs) (k @ x # w) = k @ x # w"
    using assms(1,2) by (intro dropWhile_fixed) simp
  then show ?thesis
    using assms(3) by (simp add: trim_chars_def dropWhile_stop)
qed

lemma read_header_field:
  assumes k: "k \<noteq> []" "list_all token_char k" and rest: "rest = [] \<or> \<not> starts_blank (hd rest)"
  shows "read_header ((k @ '': '' @ v) # rest) m = read_header rest (m @ [(canonical_key k, field_value v)])"
proof -
  note tk = token_key [OF k]
  have "trim_chars blank_chars (k @ CHR '':'' # CHR '' '' # v) = k @ CHR '':'' # rev (dropWhile (\<lambda>c. c \<in> blank_chars) (rev (CHR '' '' # v)))"
    by (rule trim_key) (use tk k(1) in auto)
  then have c: "continued_line (k @ '': '' @ v) rest = k @ CHR '':'' # rev (dropWhile (\<lambda>c. c \<in> blank_chars) (rev (CHR '' '' # v)))"
    using takeWhile_stop [of rest starts_blank "[]", OF rest] by (simp add: continued_line_def)
  have "canonical_key k \<noteq> []"
    using k by (simp add: canonical_key_def)
  moreover have "str_cut (CHR '':'') (k @ CHR '':'' # w) = Some (k, w)" for w
    using tk by (simp add: str_cut_append)
  moreover have "dropWhile starts_blank rest = rest"
    using takeWhile_stop [of rest starts_blank "[]", OF rest] by simp
  ultimately show ?thesis
    by (subst read_header.simps(2)) (simp only: c Let_def field_value_def option.case prod.case append_is_Nil_conv list.distinct append_Nil if_False simp_thms k(1))
qed

text \<open>A text of complete lines, followed by fields.\<close>

definition lines_text :: "string \<Rightarrow> bool" where
  "lines_text p = (p = [] \<or> last p = CHR 0x0A)"

definition field_ok :: "string \<times> string \<Rightarrow> bool" where
  "field_ok f = (fst f \<noteq> [] \<and> list_all token_char (fst f) \<and> CHR 0x0A \<notin> set (snd f))"

definition fields_text :: "(string \<times> string) list \<Rightarrow> string" where
  "fields_text fs = concat (map (\<lambda>(k, v). k @ '': '' @ v @ crlf) fs)"

definition field_vals :: "(string \<times> string) list \<Rightarrow> header" where
  "field_vals fs = map (\<lambda>(k, v). (canonical_key k, field_value v)) fs"

lemma read_lines_app: "lines_text p \<Longrightarrow> read_lines (p @ x) = read_lines p @ read_lines x"
proof (cases p rule: rev_cases)
  case (snoc q c)
  assume "lines_text p"
  then have "p = q @ CHR 0x0A # []"
    using snoc by (simp add: lines_text_def)
  then show ?thesis
    using read_lines_lf [of q x] read_lines_lf [of q "[]"] by (simp add: read_lines_def Let_def)
qed (simp add: read_lines_def)

lemma read_lines_fields:
  "list_all field_ok fs \<Longrightarrow> read_lines (fields_text fs @ crlf @ x) = map (\<lambda>(k, v). k @ '': '' @ v) fs @ [] # read_lines x"
proof (induction fs)
  case Nil
  then show ?case using read_lines_line [of "[]" x] by (simp add: fields_text_def)
next
  case (Cons f fs)
  obtain k v where f: "f = (k, v)" by (cases f)
  have "CHR 0x0A \<notin> set (k @ '': '' @ v)"
    using Cons.prems token_key [of k] by (simp add: f field_ok_def)
  from read_lines_line [OF this, of "fields_text fs @ crlf @ x"] Cons show ?case
    by (simp add: f fields_text_def)
qed

lemma read_header_fields:
  "list_all field_ok fs \<Longrightarrow> read_header (map (\<lambda>(k, v). k @ '': '' @ v) fs @ [] # ls) m = (m @ field_vals fs, Blank)"
proof (induction fs arbitrary: m)
  case Nil
  then show ?case by (simp add: read_header.simps field_vals_def)
next
  case (Cons f fs)
  obtain k v where f: "f = (k, v)" by (cases f)
  have k: "k \<noteq> []" "list_all token_char k"
    using Cons.prems by (simp_all add: f field_ok_def)
  let ?rest = "map (\<lambda>(k, v). k @ '': '' @ v) fs @ [] # ls"
  have "\<not> starts_blank (hd ?rest)"
  proof (cases fs)
    case (Cons g gs)
    then show ?thesis
      using Cons.prems token_key [of "fst g"] by (auto simp: starts_blank_def field_ok_def case_prod_beta)
  qed simp
  then show ?case
    using read_header_field [OF k, of ?rest v m] Cons by (simp add: f field_vals_def)
qed

lemma fields_text_start: "list_all field_ok fs \<Longrightarrow> \<not> starts_blank (fields_text fs @ crlf @ x) \<and> fields_text fs @ crlf @ x \<noteq> []"
  using token_key by (cases fs) (auto simp: fields_text_def starts_blank_def field_ok_def crlf_def case_prod_beta)

lemma read_header_text:
  assumes "lines_text p" "list_all field_ok fs"
  shows "read_header (read_lines (p @ fields_text fs @ crlf @ x)) [] =
    (case read_header (read_lines p) [] of (m, Eof) \<Rightarrow> (m @ field_vals fs, Blank) | r \<Rightarrow> r)"
proof -
  let ?rest = "map (\<lambda>(k, v). k @ '': '' @ v) fs @ [] # read_lines x"
  have "\<not> starts_blank (hd ?rest)"
    using assms(2) token_key by (cases fs) (auto simp: starts_blank_def field_ok_def case_prod_beta)
  then show ?thesis
    using read_header_append [of ?rest "read_lines p" "[]"] read_header_fields [OF assms(2)]
    by (simp add: read_lines_app [OF assms(1)] read_lines_fields [OF assms(2)] split: prod.split hdr_end.split)
qed

lemma read_message_text:
  assumes "lines_text p" "list_all field_ok fs"
  shows "read_message (p @ fields_text fs @ crlf @ x) =
    (if starts_blank p then Inl (errnew (''malformed initial line: '' @ hd (read_lines p)))
     else case read_header (read_lines p) [] of (m, Eof) \<Rightarrow> Inr (m @ field_vals fs) | (m, Blank) \<Rightarrow> Inr m
       | (m, Malformed kv) \<Rightarrow> Inl (errnew (''malformed header line: '' @ kv)))"
proof -
  have b: "starts_blank (p @ fields_text fs @ crlf @ x) = starts_blank p"
    using fields_text_start [OF assms(2), of x] by (cases "p = []") (auto simp: starts_blank_app)
  have h: "starts_blank p \<Longrightarrow> hd (read_lines (p @ fields_text fs @ crlf @ x)) = hd (read_lines p)"
  proof -
    assume "starts_blank p"
    then have "p \<noteq> []" "CHR 0x0A \<in> set p"
      using assms(1) last_in_set [of p] by (auto simp: lines_text_def starts_blank_def)
    then show ?thesis
      using hd_read_lines_cut [of p "[]" "fields_text fs @ crlf @ x"] by simp
  qed
  show ?thesis
    using b h by (simp add: read_message_def read_header_text [OF assms] split: prod.split hdr_end.split)
qed

lemma header_get_append: "header_get (m @ h) n = (if canonical_key n \<in> fst ` set m then header_get m n else header_get h n)"
  by (induction m) (auto simp: header_get_def)

lemma ParseFields_agree:
  assumes p: "lines_text p" and ok: "list_all field_ok fs" "list_all field_ok gs"
    and x: "x @ crlf = p @ fields_text fs @ crlf @ x'" and y: "y @ crlf = p @ fields_text gs @ crlf @ y'"
    and get: "\<And>n. n \<in> {''Message-Id'', ''Date'', ''Subject'', ''From'', hh} \<Longrightarrow> header_get (field_vals fs) n = header_get (field_vals gs) n"
  shows "ParseFields lib x hh = ParseFields lib y hh"
proof -
  have "fields_of lib (m @ field_vals fs) hh = fields_of lib (m @ field_vals gs) hh" for m
    using get by (simp add: fields_of_def header_get_append)
  then show ?thesis
    using read_message_text [OF p ok(1), of x'] read_message_text [OF p ok(2), of y']
    by (simp add: ParseFields_def read_message_parse_buf x y split: prod.split hdr_end.split)
qed

lemma utf8_encode_high: "c \<in> set (utf8_encode r) \<Longrightarrow> 32 \<le> r \<Longrightarrow> 32 \<le> bv c"
  by (auto simp: utf8_encode_def Let_def rune_error_def split: if_splits)

lemma hex_str_printable: "list_all (\<lambda>c. 32 \<le> bv c) (hex_str k n)"
  using hex_str_plain [of k n] by (fastforce simp: plain_chars_def list_all_iff)

lemma quote_rune_printable: "list_all (\<lambda>c. 32 \<le> bv c) (quote_rune ut p)"
proof -
  obtain r b where p: "p = (r, b)" by (cases p)
  have en: "(if r < 128 then 32 \<le> r \<and> r < 127 else u_print ut r) \<Longrightarrow> list_all (\<lambda>c. 32 \<le> bv c) (utf8_encode r)"
    using utf8_encode_high [of _ r] by (auto simp: list_all_iff split: if_splits)
  show ?thesis
    by (simp add: p quote_rune_def Let_def bslash_def hex_str_printable en del: if_split_asm split: if_split)
qed

lemma quote_str_line: "CHR 0x0A \<notin> set (quote_str ut s)"
  using quote_rune_printable [of ut] by (force simp: quote_str_def list_all_iff)

lemma header_char_line: "\<forall>c\<in>set v. header_char c \<Longrightarrow> CHR 0x0A \<notin> set v"
  by (auto simp: header_char_def)

lemma wr_fields: "wr k v = fields_text (if trim_space v \<noteq> [] then [(k, v)] else [])"
  by (simp add: wr_def fields_text_def)

lemma fields_text_Nil [simp]: "fields_text [] = []"
  by (simp add: fields_text_def)

lemma fields_text_append: "fields_text (fs @ gs) = fields_text fs @ fields_text gs"
  by (simp add: fields_text_def)

lemma lines_text_fields: "lines_text (fields_text fs)"
  by (induction fs rule: rev_induct) (auto simp: lines_text_def fields_text_def crlf_def case_prod_beta)

lemma lines_text_app: "lines_text p \<Longrightarrow> lines_text q \<Longrightarrow> lines_text (p @ q)"
  by (cases "q = []") (auto simp: lines_text_def last_append)

text \<open>The part of a block that \<^verbatim>\<open>pstMeta\<close> and \<^verbatim>\<open>pstRender\<close> have in common, and the fields that each adds.\<close>

definition common_block :: "utab \<Rightarrow> mapiProps \<Rightarrow> string" where
  "common_block ut p =
     (let raw = trim_space (maTransportMessageHeaders p) in
      if raw \<noteq> [] then strippedTransportHeaders ut raw
      else wr ''Message-ID'' (trim_space (maInternetMessageId p))
        @ (if mapiDate p \<noteq> zero_time then wr ''Date'' (format_rfc1123z (mapiDate p)) else []) @ wr ''From'' (mapiFrom p))"

definition opt_field :: "string \<Rightarrow> string \<Rightarrow> (string \<times> string) list" where
  "opt_field k v = (if trim_space v \<noteq> [] then [(k, v)] else [])"

definition meta_fields :: "mapiProps \<Rightarrow> (string \<times> string) list" where
  "meta_fields p = (if trim_space (maTransportMessageHeaders p) \<noteq> [] then [] else opt_field ''Subject'' (encodeWord (maSubject p)))"

definition render_fields :: "mapiProps \<Rightarrow> (string \<times> string) list" where
  "render_fields p = (if trim_space (maTransportMessageHeaders p) \<noteq> [] then []
     else opt_field ''To'' (nameList (maDisplayTo p)) @ opt_field ''Cc'' (nameList (maDisplayCc p)) @ opt_field ''Subject'' (encodeWord (maSubject p)))"

lemma lines_text_wr: "lines_text (wr k v)"
  by (simp add: wr_fields lines_text_fields)

lemma lines_text_common: "lines_text (common_block ut p)"
proof -
  have "lines_text (concat (map (\<lambda>ln. ln @ crlf) ls))" for ls
    by (induction ls rule: rev_induct) (auto simp: lines_text_def crlf_def)
  moreover have "lines_text []"
    by (simp add: lines_text_def)
  ultimately show ?thesis
    by (auto simp: common_block_def Let_def strippedTransportHeaders_def intro!: lines_text_app lines_text_wr)
qed

lemma plain_fields: "list_all field_ok (opt_field ''Subject'' (encodeWord s))" "list_all field_ok (opt_field ''To'' (nameList s))"
  "list_all field_ok (opt_field ''Cc'' (nameList s))"
  using header_char_line encodeWord_chars nameList_chars
  by (auto simp: opt_field_def field_ok_def token_char_def)

lemma withBlankLine_text: "lines_text p \<Longrightarrow> \<exists>x. withBlankLine p @ crlf = p @ crlf @ x"
  by (auto simp: withBlankLine_def)

lemma meta_text:
  assumes "pmProps m = Some p" "pstMeta ut m = Inr (hdr, d, fl)"
  shows "\<exists>x. hdr @ crlf = common_block ut p @ fields_text (meta_fields p) @ crlf @ x"
proof (cases "trim_space (maTransportMessageHeaders p) = []")
  case False
  then have "hdr = withBlankLine (common_block ut p)" "meta_fields p = []"
    using assms by (auto simp: pstMeta_def common_block_def meta_fields_def Let_def split: option.splits)
  then show ?thesis
    using withBlankLine_text [OF lines_text_common] by (simp add: fields_text_def)
next
  case True
  then have "hdr = common_block ut p @ fields_text (meta_fields p) @ crlf"
    using assms by (auto simp: pstMeta_def common_block_def meta_fields_def opt_field_def wr_fields Let_def split: option.splits)
  then show ?thesis by simp
qed

definition content_fields :: "utab \<Rightarrow> textlib \<Rightarrow> mapiProps \<Rightarrow> PMessage \<Rightarrow> (string \<times> string) list" where
  "content_fields ut T p m = (''MIME-Version'', ''1.0'') #
     (if pstAttachments m = [] then [(''Content-Type'', fst (pstBody T p m) @ ''; charset=utf-8''), (''Content-Transfer-Encoding'', ''8bit'')]
      else [(''Content-Type'', ''multipart/mixed; boundary='' @ quote_str ut (txBoundary T))])"

lemma render_text:
  assumes "pmProps m = Some p" "pstRender ut T m = Inr raw"
  shows "\<exists>x. raw @ crlf = common_block ut p @ fields_text (render_fields p @ content_fields ut T p m) @ crlf @ x"
proof -
  have v: "trim_space ''1.0'' \<noteq> []"
    by (simp add: trim_space_plain plain_chars_def)
  have h: "render_header ut p = common_block ut p @ fields_text (render_fields p) @ fields_text [(''MIME-Version'', ''1.0'')]"
    by (simp add: render_header_def common_block_def render_fields_def opt_field_def wr_fields fields_text_append Let_def v)
  show ?thesis
    using assms h by (auto simp: pstRender_def content_fields_def fields_text_def Let_def split: option.splits if_splits prod.splits)
qed

lemma pstBody_type: "fst (pstBody T p m) \<in> {''text/html'', ''text/plain''}"
  by (simp add: pstBody_def split: sum.split)

lemma content_fields_ok: "list_all field_ok (content_fields ut T p m)"
  using quote_str_line [of ut "txBoundary T"] pstBody_type [of T p m] by (auto simp: content_fields_def field_ok_def token_char_def)

text \<open>A name that none of the fields written here for the content has.\<close>

definition content_name :: "string \<Rightarrow> bool" where
  "content_name n = (canonical_key n \<in> canonical_key ` {''To'', ''Cc'', ''MIME-Version'', ''Content-Type'', ''Content-Transfer-Encoding''})"

lemma get_none: "canonical_key n \<notin> canonical_key ` fst ` set fs \<Longrightarrow> header_get (field_vals fs) n = []"
  by (induction fs) (auto simp: field_vals_def header_get_def)

lemma get_skip: "canonical_key n \<notin> canonical_key ` fst ` set fs \<Longrightarrow> header_get (field_vals (fs @ gs)) n = header_get (field_vals gs) n"
  by (induction fs) (auto simp: field_vals_def header_get_def)

lemma get_first: "header_get (field_vals gs) n = [] \<Longrightarrow> header_get (field_vals (fs @ gs)) n = header_get (field_vals fs) n"
  by (induction fs) (auto simp: field_vals_def header_get_def)

lemma content_get:
  assumes "\<not> content_name n"
  shows "header_get (field_vals (meta_fields p)) n = header_get (field_vals (render_fields p @ content_fields ut T p m)) n"
proof -
  have "header_get (field_vals (content_fields ut T p m)) n = []"
    by (rule get_none) (use assms in \<open>auto simp: content_fields_def content_name_def\<close>)
  moreover have "canonical_key n \<notin> canonical_key ` fst ` set (opt_field k v)" if "k \<in> {''To'', ''Cc''}" for k v
    using assms that by (auto simp: opt_field_def content_name_def)
  ultimately show ?thesis
    by (simp add: meta_fields_def render_fields_def get_skip get_first)
qed

lemma canonical_fixed:
  "canonical_key ''Message-Id'' = ''Message-Id''" "canonical_key ''Date'' = ''Date''" "canonical_key ''Subject'' = ''Subject''" "canonical_key ''From'' = ''From''"
  "canonical_key ''To'' = ''To''" "canonical_key ''Cc'' = ''Cc''" "canonical_key ''MIME-Version'' = ''Mime-Version''" "canonical_key ''Content-Type'' = ''Content-Type''"
  "canonical_key ''Content-Transfer-Encoding'' = ''Content-Transfer-Encoding''"
  by code_simp+

lemma fixed_names: "n \<in> {''Message-Id'', ''Date'', ''Subject'', ''From''} \<Longrightarrow> \<not> content_name n"
  by (auto simp: content_name_def canonical_fixed)

text \<open>The fields parsed from the metadata are the fields parsed from the rendered message, also when a property holds line breaks.\<close>

lemma pst_meta_agrees:
  assumes "pstMeta ut m = Inr (hdr, d, fl)" and "pstRender ut T m = Inr raw" and "\<not> content_name hh"
  shows "ParseFields lib hdr hh = ParseFields lib raw hh"
proof (cases "pmProps m")
  case (Some p)
  obtain x y where x: "hdr @ crlf = common_block ut p @ fields_text (meta_fields p) @ crlf @ x"
    and y: "raw @ crlf = common_block ut p @ fields_text (render_fields p @ content_fields ut T p m) @ crlf @ y"
    using meta_text [OF Some assms(1)] render_text [OF Some assms(2)] by blast
  have fixed: "\<not> content_name n" if "n \<in> {''Message-Id'', ''Date'', ''Subject'', ''From'', hh}" for n
    using that assms(3) fixed_names [of n] by blast
  have ok: "list_all field_ok (meta_fields p)" "list_all field_ok (render_fields p @ content_fields ut T p m)"
    by (simp_all add: meta_fields_def render_fields_def plain_fields content_fields_ok)
  show ?thesis
    by (rule ParseFields_agree [OF lines_text_common ok x y content_get [OF fixed]])
next
  case None
  let ?s = "[(''Subject'', encodeWord (pstSubjectOf m))]" and ?c = "[(''MIME-Version'', ''1.0''), (''Content-Type'', ''text/plain; charset=utf-8'')]"
  have x: "hdr @ crlf = [] @ fields_text ?s @ crlf @ crlf" and y: "raw @ crlf = [] @ fields_text (?s @ ?c) @ crlf @ crlf"
    using assms None by (auto simp: pstMeta_def pstRender_def fields_text_def split: option.splits)
  have ok: "list_all field_ok ?s" "list_all field_ok (?s @ ?c)"
    using header_char_line [of "encodeWord (pstSubjectOf m)"] encodeWord_chars by (auto simp: field_ok_def token_char_def)
  have "header_get (field_vals ?s) n = header_get (field_vals (?s @ ?c)) n" if "n \<in> {''Message-Id'', ''Date'', ''Subject'', ''From'', hh}" for n
  proof -
    have "\<not> content_name n"
      using that assms(3) fixed_names [of n] by blast
    then show ?thesis
      by (intro get_first [symmetric] get_none) (auto simp: content_name_def)
  qed
  then show ?thesis
    by (intro ParseFields_agree [OF _ ok x y]) (auto simp: lines_text_def)
qed

section \<open>Stripping the MIME framing\<close>

text \<open>The fields of a block: a line with its continuation lines.\<close>

function line_groups :: "string list \<Rightarrow> string list list" where
  "line_groups [] = []"
| "line_groups (l # ls) = (l # takeWhile starts_blank ls) # line_groups (dropWhile starts_blank ls)"
  by pat_completeness auto
termination by (relation "measure length") (auto simp: less_Suc_eq_le length_dropWhile_le)

definition kept_group :: "utab \<Rightarrow> string list \<Rightarrow> bool" where
  "kept_group ut g = (starts_blank (hd g) \<or> \<not> mime_field ut (hd g))"

lemma strip_loop_groups:
  "strip_loop ut lns out cur keep =
     (if keep then out @ cur @ takeWhile starts_blank (takeWhile (\<lambda>l. l \<noteq> []) lns) else out)
     @ concat (filter (kept_group ut) (line_groups (dropWhile starts_blank (takeWhile (\<lambda>l. l \<noteq> []) lns))))"
proof (induction lns arbitrary: out cur keep)
  case (Cons ln lns)
  have "ln \<noteq> [] \<Longrightarrow> (hd ln = CHR '' '' \<or> hd ln = CHR 0x09) = starts_blank ln"
    by (simp add: starts_blank_def)
  then show ?case
    using Cons by (cases "starts_blank ln") (auto simp: kept_group_def)
qed simp

definition header_lines :: "string \<Rightarrow> string list" where
  "header_lines raw = takeWhile (\<lambda>l. l \<noteq> []) (split_char (CHR 0x0A) (replace_str crlf [CHR 0x0A] raw))"

text \<open>C22: rebuilding a received message keeps its original headers: of the header block of the transport headers exactly the fields
  \<^verbatim>\<open>MIME-Version\<close> and \<^verbatim>\<open>Content-*\<close> are left out, with their continuation lines, and every other line is kept in order.\<close>
theorem strippedTransportHeaders_spec:
  "strippedTransportHeaders ut raw = concat (map (\<lambda>ln. ln @ crlf) (concat (filter (kept_group ut) (line_groups (header_lines raw)))))"
proof -
  have "strip_loop ut (split_char (CHR 0x0A) (replace_str crlf [CHR 0x0A] raw)) [] [] True = concat (filter (kept_group ut) (line_groups (header_lines raw)))"
    unfolding strip_loop_groups header_lines_def [symmetric] by (cases "header_lines raw") (auto simp: kept_group_def)
  then show ?thesis
    by (simp add: strippedTransportHeaders_def)
qed

section \<open>Messages of a folder\<close>

lemma distinct_load: "distinct (map fst t) \<Longrightarrow> distinct (map fst (load_msgs ms t))"
  by (induction ms t rule: load_msgs.induct) (auto simp: distinct_update)

lemma psSelect_distinct: "psSelect ut L name s = (Inr x, s') \<Longrightarrow> distinct (map fst (psMsgs s'))"
  by (auto simp: psSelect_def Let_def distinct_load split: prod.splits sum.splits option.splits if_splits iter_err.splits)

lemma meta_loop_ok:
  "meta_loop ut path t is = Inr ms \<Longrightarrow> map mID ms = filter (\<lambda>i. map_of t i \<noteq> None) is
     \<and> (\<forall>x\<in>set ms. \<exists>m. map_of t (mID x) = Some m \<and> pstMeta ut m = Inr (mHeader x, mInternalDate x, mFlags x))"
proof (induction "is" arbitrary: ms)
  case (Cons i "is")
  then show ?case
    by (auto split: option.splits sum.splits prod.splits)
qed simp


section \<open>Special folders\<close>

definition cand_key :: "string \<Rightarrow> nat list" where "cand_key c = map (\<lambda>x. ascii_lower (bv x)) c"

definition cand_owner :: "(nat list \<times> string) list" where
  "cand_owner = concat (map (\<lambda>(tok, cs). map (\<lambda>c. (cand_key c, tok)) cs) pstSpecial)"

lemma cand_table: "list_all (\<lambda>(tok, cs). list_all (\<lambda>c. list_all (\<lambda>x. bv x < 128) c \<and> map_of cand_owner (cand_key c) = Some tok) cs) pstSpecial"
  by (simp add: cand_owner_def cand_key_def pstSpecial_def bslash_def ascii_lower_def)

lemma cand_facts:
  assumes "map_of pstSpecial tok = Some cs" "c \<in> set cs"
  shows "ascii c" "map_of cand_owner (cand_key c) = Some tok"
  using cand_table map_of_SomeD [OF assms(1)] assms(2) by (auto simp: list_all_iff ascii_def)

definition special_tok :: "utab \<Rightarrow> string \<Rightarrow> string \<Rightarrow> bool" where
  "special_tok ut name tok = (\<exists>cs. map_of pstSpecial tok = Some cs \<and> (\<exists>c\<in>set cs. equal_fold ut c name))"

lemma special_tok_unique:
  assumes "special_tok ut n tok" "special_tok ut n tok'"
  shows "tok = tok'"
proof -
  obtain cs c cs' c' where c: "map_of pstSpecial tok = Some cs" "c \<in> set cs" "equal_fold ut c n"
      "map_of pstSpecial tok' = Some cs'" "c' \<in> set cs'" "equal_fold ut c' n"
    using assms by (auto simp: special_tok_def)
  have "equal_fold ut c c'"
    using c(3,6) equal_fold_sym equal_fold_trans by blast
  then have "cand_key c = cand_key c'"
    using cand_facts(1) [OF c(1,2)] cand_facts(1) [OF c(4,5)] by (simp add: equal_fold_ascii cand_key_def comp_def)
  then show ?thesis
    using cand_facts(2) [OF c(1,2)] cand_facts(2) [OF c(4,5)] by simp
qed

lemma special_tok_iff: "special_tok ut n tok \<longleftrightarrow> tok \<in> set (map fst pstSpecial) \<and> (\<exists>c\<in>set (the (map_of pstSpecial tok)). equal_fold ut c n)"
proof (cases "map_of pstSpecial tok")
  case None
  then show ?thesis using map_of_eq_None_iff [of pstSpecial tok] by (auto simp: special_tok_def)
next
  case (Some cs)
  then have "tok \<in> set (map fst pstSpecial)"
    by (metis map_of_eq_None_iff option.distinct(1) list.set_map)
  then show ?thesis using Some by (simp add: special_tok_def)
qed

text \<open>The order in which Go visits the map of special folders does not matter.\<close>

lemma pstSpecialUseOf_iff:
  assumes "perm_fun ord"
  shows "special_tok ut n tok \<Longrightarrow> pstSpecialUseOf ut ord n = tok" "(\<And>tok. \<not> special_tok ut n tok) \<Longrightarrow> pstSpecialUseOf ut ord n = []"
proof -
  let ?P = "\<lambda>tok. \<exists>c\<in>set (the (map_of pstSpecial tok)). equal_fold ut c n"
  have s: "tok \<in> set (ord (map fst pstSpecial)) \<and> ?P tok \<longleftrightarrow> special_tok ut n tok" for tok
    unfolding special_tok_iff perm_fun_set [OF assms] ..
  show "pstSpecialUseOf ut ord n = tok" if "special_tok ut n tok"
  proof -
    have "find ?P (ord (map fst pstSpecial)) = Some tok"
      by (rule find_unique) (use that s special_tok_unique [OF _ that] in blast)+
    then show ?thesis by (simp add: pstSpecialUseOf_def)
  qed
  show "pstSpecialUseOf ut ord n = []" if "\<And>tok. \<not> special_tok ut n tok"
  proof -
    have "find ?P (ord (map fst pstSpecial)) = None"
      using that s unfolding find_None_iff by blast
    then show ?thesis by (simp add: pstSpecialUseOf_def)
  qed
qed

lemma find_cands_some:
  "f \<in> set folders \<Longrightarrow> c \<in> set cs \<Longrightarrow> equal_fold ut c (pfName f) \<Longrightarrow>
    \<exists>g c'. find_cands ut cs folders = Some g \<and> c' \<in> set cs \<and> equal_fold ut c' (pfName g)"
proof (induction cs)
  case (Cons d cs)
  show ?case
  proof (cases "find (\<lambda>f. equal_fold ut (pfName f) d) folders")
    case None
    then have "c \<noteq> d"
      using Cons.prems by (auto simp: find_None_iff dest: equal_fold_sym)
    then show ?thesis
      using Cons None by auto
  next
    case (Some g)
    then have "equal_fold ut d (pfName g)"
      by (auto simp: find_Some_iff dest: equal_fold_sym)
    then show ?thesis
      using Some by auto
  qed
qed simp

lemma trim_token: "tok \<in> set (map fst pstSpecial) \<Longrightarrow> trim_space tok = tok"
  by (rule trim_space_plain) (auto simp: pstSpecial_def bslash_def plain_chars_def)

text \<open>Special folders of an archive are recognized whatever order Go visits its map of names in, and selecting the SPECIAL-USE token that a
  listing shows finds a folder of that use (or one that has the token itself as its name).\<close>
theorem pst_special_use:
  assumes "perm_fun ord" and "perm_fun ord'" and "f \<in> set folders" and "pstSpecialUseOf ut ord (pfName f) = tok" and "tok \<noteq> []"
  shows "pstSpecialUseOf ut ord' (pfName f) = tok
    \<and> (\<exists>g. resolvePSTFolder ut tok folders = Some g \<and> g \<in> set folders \<and> (pfName g = tok \<or> pstSpecialUseOf ut ord (pfName g) = tok))"
proof -
  have t: "special_tok ut (pfName f) tok"
    using pstSpecialUseOf_iff [OF assms(1), of ut "pfName f"] assms(4,5) by metis
  then obtain cs c where cs: "map_of pstSpecial tok = Some cs" "c \<in> set cs" and c: "equal_fold ut c (pfName f)"
    by (auto simp: special_tok_def)
  have tok: "tok \<in> set (map fst pstSpecial)"
    using t by (simp add: special_tok_iff)
  obtain g c' where g: "find_cands ut cs folders = Some g" "c' \<in> set cs" "equal_fold ut c' (pfName g)"
    using find_cands_some [OF assms(3) cs(2) c] by blast
  have gin: "g \<in> set folders"
    using g(1) by (induction cs) (auto simp: find_Some_iff split: option.splits)
  have "pstSpecialUseOf ut ord (pfName g) = tok"
    using cs(1) g(2,3) by (intro pstSpecialUseOf_iff(1) [OF assms(1)]) (auto simp: special_tok_def)
  then have "\<exists>g. resolvePSTFolder ut tok folders = Some g \<and> g \<in> set folders \<and> (pfName g = tok \<or> pstSpecialUseOf ut ord (pfName g) = tok)"
    using cs(1) g(1) gin by (auto simp: resolvePSTFolder_def trim_token [OF tok] find_Some_iff split: option.split)
  then show ?thesis
    using pstSpecialUseOf_iff(1) [OF assms(2) t] by blast
qed

section \<open>A concrete archive\<close>

text \<open>An archive with two messages in its inbox, on which the theorems apply.\<close>

definition props_ex :: mapiProps where
  "props_ex = \<lparr>maSubject = ''hi'', maInternetMessageId = ''<1@x>'', maTransportMessageHeaders = [], maClientSubmitTime = 0, maMessageDeliveryTime = 0,
     maSenderName = ''Bob'', maSenderEmailAddress = ''/o=org/cn=bob'', maSmtpAddress = ''bob@x'', maSentRepresentingEmailAddress = [], maDisplayTo = ''Ann'',
     maDisplayCc = [], maMessageFlags = 1, maBody = ''text'', maBodyHtml = []\<rparr>"

definition pmsg_ex :: "int \<Rightarrow> PMessage" where
  "pmsg_ex i = \<lparr>pmIdentifier = i, pmProps = Some props_ex, pmSubject = None, pmRaw = (\<lambda>_. Inl (errnew ''none'')), pmBodyRTF = Inl (errnew ''none''),
     pmAttachments = Inr [], pmPanicMeta = None, pmPanicRender = None\<rparr>"

definition pstlib_ex :: "unit pstlib" where
  "pstlib_ex = \<lparr>plOpen = (\<lambda>_ s. (None, s)), plNew = (\<lambda>s. (None, s)), plFileClose = id, plCleanup = id,
     plWalkFolders = (\<lambda>s. (Inr [\<lparr>pfName = ''Inbox'', pfIdentifier = 1, pfIsSearch = False, pfMessageCount = 2\<rparr>,
         \<lparr>pfName = ''Sent Items'', pfIdentifier = 2, pfIsSearch = False, pfMessageCount = 0\<rparr>], s)),
     plMessages = (\<lambda>f s. ((IterOK, [pmsg_ex 7, pmsg_ex 5], None), s))\<rparr>"

definition pst_ex :: "unit pst" where
  "pst_ex = \<lparr>psConn = (), psPath = ''a.pst'', psUser = ''u'', psOpen = True, psFolder = [], psMsgs = []\<rparr>"

lemma pst_resolve_ex: "resolvePSTFolder ut_ex ''INBOX'' (\<lparr>pfName = ''Inbox'', pfIdentifier = i, pfIsSearch = False, pfMessageCount = 2\<rparr> # fs)
    = Some \<lparr>pfName = ''Inbox'', pfIdentifier = i, pfIsSearch = False, pfMessageCount = 2\<rparr>" if "find (\<lambda>f. pfName f = ''INBOX'') fs = None"
proof -
  have "trim_space ''INBOX'' = ''INBOX''"
    by (rule trim_space_plain) (auto simp: plain_chars_def)
  then show ?thesis
    using that by (simp add: resolvePSTFolder_def pstSpecial_def bslash_def equal_fold_ascii ascii_def ascii_lower_def)
qed

lemma itoa_ex: "itoa 7 = ''7''" "itoa 5 = ''5''"
  by code_simp+

lemma pst_select_ex: "psSelect ut_ex pstlib_ex ''INBOX'' pst_ex
    = (Inr (''Inbox'', ''pst''), pst_ex\<lparr>psFolder := ''Inbox'', psMsgs := [(''7'', pmsg_ex 7), (''5'', pmsg_ex 5)]\<rparr>)"
  by (simp add: psSelect_def pstlib_ex_def pst_ex_def pst_resolve_ex pmsg_ex_def itoa_ex)


text \<open>A folder whose name starts with a blank is listed under that name, which then does not select it.\<close>

lemma untrimmed_name_not_found:
  "resolvePSTFolder ut_ex '' Work'' [\<lparr>pfName = '' Work'', pfIdentifier = 1, pfIsSearch = False, pfMessageCount = 1\<rparr>] = None"
proof -
  have "trim_space '' Work'' = ''Work''"
    by (simp add: trim_space_def strip_by.simps space_seqs_def)
  then show ?thesis
    by (simp add: resolvePSTFolder_def pstSpecial_def bslash_def equal_fold_ascii ascii_def ascii_lower_def)
qed

end
