(* ===== verification/Csv.thy ===== *)
theory Csv
  imports State
begin

text \<open>
  Reading CSV files for \<^verbatim>\<open>db-import-csv\<close> (\<^verbatim>\<open>readCSV\<close>, \<^verbatim>\<open>importFoldersCSV\<close>, \<^verbatim>\<open>importUsersCSV\<close> and \<^verbatim>\<open>parseBool\<close> of
  \<^verbatim>\<open>cmd/imapsync/db.go\<close>) with the reader of \<^verbatim>\<open>encoding/csv\<close> as the program sets it up: fields separated by commas, leading
  space trimmed, any number of fields, no lazy quotes. Reading the file is a parameter. The positions in the texts of parse errors are left out.
\<close>

section \<open>The reader\<close>

abbreviation LF :: char where "LF \<equiv> CHR 0x0A"
abbreviation CR :: char where "CR \<equiv> CHR 0x0D"

text \<open>Lines with their line feed; \<^verbatim>\<open>readLine\<close> makes CR LF a LF and drops a CR at the end of the file.\<close>

fun raw_lines :: "string \<Rightarrow> string list" where
  "raw_lines [] = []"
| "raw_lines (c # s) = (if c = LF then [LF] # raw_lines s else case raw_lines s of [] \<Rightarrow> [[c]] | l # ls \<Rightarrow> (c # l) # ls)"

definition norm_line :: "string \<Rightarrow> string" where
  "norm_line l = (if suffix [CR, LF] l then butlast (butlast l) @ [LF] else if suffix [CR] l then butlast l else l)"

definition csv_lines :: "string \<Rightarrow> string list" where
  "csv_lines s = map norm_line (raw_lines s)"

definition chop_nl :: "string \<Rightarrow> string" where
  "chop_nl l = (if suffix [LF] l then butlast l else l)"

text \<open>The rest of a quoted field: its text, what follows on the line (\<open>None\<close> at the end of the record), and the lines after it.\<close>

definition size_left :: "string \<Rightarrow> string list \<Rightarrow> nat" where "size_left l ls = length l + length (concat ls)"

definition bare_quote :: goerr where "bare_quote = errnew (''bare '' @ [CHR 34] @ '' in non-quoted field'')"
definition bad_quote :: goerr where "bad_quote = errnew (''extraneous or missing '' @ [CHR 34] @ '' in quoted field'')"

function quoted :: "string \<Rightarrow> string list \<Rightarrow> string \<Rightarrow> (string \<times> string option \<times> string list) result" where
  "quoted line ls acc =
     (case str_index [CHR 34] line of
        Some i \<Rightarrow> (let acc' = acc @ take i line; rest = drop (Suc i) line in
          if prefix [CHR 34] rest then quoted (tl rest) ls (acc' @ [CHR 34])
          else if prefix '','' rest then Inr (acc', Some (tl rest), ls)
          else if rest = [] \<or> rest = [LF] then Inr (acc', None, ls)
          else Inl bad_quote)
      | None \<Rightarrow> if line = [] then Inl bad_quote
          else (case ls of [] \<Rightarrow> quoted [] [] (acc @ line) | l # ls' \<Rightarrow> quoted l ls' (acc @ line)))"
  by pat_completeness auto
termination
  by (relation "measure (\<lambda>(line, ls, _). size_left line ls)") (auto simp: size_left_def dest: str_index_bound)

declare quoted.simps [simp del]

lemma quoted_at:
  "str_index [CHR 34] line = Some i \<Longrightarrow> quoted line ls acc =
     (let acc' = acc @ take i line; rest = drop (Suc i) line in
      if prefix [CHR 34] rest then quoted (tl rest) ls (acc' @ [CHR 34])
      else if prefix '','' rest then Inr (acc', Some (tl rest), ls)
      else if rest = [] \<or> rest = [LF] then Inr (acc', None, ls)
      else Inl bad_quote)"
  "str_index [CHR 34] line = None \<Longrightarrow> quoted line ls acc = (if line = [] then Inl bad_quote
     else (case ls of [] \<Rightarrow> quoted [] [] (acc @ line) | l # ls' \<Rightarrow> quoted l ls' (acc @ line)))"
  by (simp_all add: quoted.simps [of line])

text \<open>A quoted field is read from the front: what is left is shorter.\<close>

lemma quoted_shorter:
  "quoted line ls acc = Inr (f, r, ls') \<Longrightarrow>
     length ls' \<le> length ls \<and> (\<forall>l. r = Some l \<longrightarrow> size_left l ls' \<le> size_left line ls)"
proof (induction line ls acc rule: quoted.induct)
  case (1 line ls acc)
  show ?case
  proof (cases "str_index [CHR 34] line")
    case (Some i)
    let ?rest = "drop (Suc i) line"
    show ?thesis
    proof (cases "prefix [CHR 34] ?rest")
      case True
      then have "quoted (tl ?rest) ls ((acc @ take i line) @ [CHR 34]) = Inr (f, r, ls')"
        using 1(4) Some by (simp add: quoted_at)
      from 1(3) [OF Some refl refl True this] show ?thesis
        by (fastforce simp: size_left_def)
    qed (use 1(4) Some in \<open>auto simp: quoted_at Let_def size_left_def split: if_splits\<close>)
  next
    case None
    show ?thesis
    proof (cases ls)
      case Nil
      then show ?thesis
        using 1(1) [OF None] 1(4) None by (auto simp: quoted_at size_left_def split: if_splits)
    next
      case (Cons l ls2)
      then show ?thesis
        using 1(2) [OF None _ Cons] 1(4) None by (fastforce simp: quoted_at size_left_def split: if_splits)
    qed
  qed
qed

lemma strip_length: "length (strip_by qs s) \<le> length s"
  by (rule suffix_length_le [OF strip_by_suffix])

text \<open>
  The fields of a record, from its first line: leading space is dropped (the line feed too), a field that starts with a quote ends
  at a single quote followed by a comma or the end of a line, another one at the next comma or the end of the line.
\<close>

function csv_fields :: "string \<Rightarrow> string list \<Rightarrow> (string list \<times> string list) result" where
  "csv_fields line0 ls =
     (let line = strip_by space_seqs line0 in
      if \<not> prefix [CHR 34] line then
        (case str_index '','' line of
           Some i \<Rightarrow> if CHR 34 \<in> set (take i line) then Inl bare_quote
             else (case csv_fields (drop (Suc i) line) ls of Inl e \<Rightarrow> Inl e | Inr (fs, r) \<Rightarrow> Inr (take i line # fs, r))
         | None \<Rightarrow> if CHR 34 \<in> set (chop_nl line) then Inl bare_quote else Inr ([chop_nl line], ls))
      else (case quoted (tl line) ls [] of
          Inl e \<Rightarrow> Inl e
        | Inr (f, None, r) \<Rightarrow> Inr ([f], r)
        | Inr (f, Some l, r) \<Rightarrow> (case csv_fields l r of Inl e \<Rightarrow> Inl e | Inr (fs, r') \<Rightarrow> Inr (f # fs, r'))))"
  by pat_completeness auto
termination
proof (relation "measure (\<lambda>(line, ls). size_left line ls)", goal_cases)
  case (2 line0 ls line i)
  then show ?case
    using str_index_bound [of "'',''" line i] strip_length [of space_seqs line0] by (simp add: size_left_def)
next
  case (3 line0 ls line a f b c r l)
  have "size_left l r \<le> size_left (tl line) ls" and "line \<noteq> []"
    using quoted_shorter [of "tl line" ls "[]" f "Some l" r] 3 by auto
  then show ?case
    using strip_length [of space_seqs line0] 3(1) less_le_trans [of "length (tl line)" "length line"]
    by (fastforce simp: size_left_def)
qed simp

declare csv_fields.simps [simp del]

lemma csv_fields_lines: "csv_fields line ls = Inr (fs, ls') \<Longrightarrow> length ls' \<le> length ls"
proof (induction line ls arbitrary: fs rule: csv_fields.induct)
  case (1 line0 ls)
  let ?line = "strip_by space_seqs line0"
  show ?case
  proof (cases "prefix [CHR 34] ?line")
    case False
    then show ?thesis
      using 1(3) 1(1) [OF refl False]
      by (subst (asm) csv_fields.simps) (auto simp: Let_def split: if_splits option.splits sum.splits)
  next
    case True
    then show ?thesis
      using 1(3) 1(2) [OF refl]
      by (subst (asm) csv_fields.simps)
        (fastforce simp: Let_def split: if_splits option.splits sum.splits dest: quoted_shorter)
  qed
qed

text \<open>\<^verbatim>\<open>Read\<close> until the end of the file or the first error: empty lines before a record are skipped.\<close>

function csv_records :: "string list \<Rightarrow> string list list result" where
  "csv_records [] = Inr []"
| "csv_records (l # ls) =
     (if l = [] \<or> l = [LF] then csv_records ls
      else case csv_fields l ls of
        Inl e \<Rightarrow> Inl e
      | Inr (fs, ls') \<Rightarrow> (case csv_records ls' of Inl e \<Rightarrow> Inl e | Inr rs \<Rightarrow> Inr (fs # rs)))"
  by pat_completeness auto
termination
  by (relation "measure length") (auto dest: csv_fields_lines)

section \<open>Importing\<close>

definition is_comment :: "string list \<Rightarrow> bool" where
  "is_comment rec = (rec = [] \<or> prefix ''#'' (trim_space (hd rec)))"

definition readCSV :: "(string \<Rightarrow> string result) \<Rightarrow> string \<Rightarrow> string list list result" where
  "readCSV file path =
     (case file path of
        Inl e \<Rightarrow> Inl (wrapf (''opening '' @ path @ '': '') e)
      | Inr text \<Rightarrow>
          (case csv_records (csv_lines text) of
             Inl e \<Rightarrow> Inl (wrapf (''parsing '' @ path @ '': '') e)
           | Inr rows \<Rightarrow> Inr (filter (\<lambda>rec. \<not> is_comment rec) rows)))"

definition at_line :: "string \<Rightarrow> nat \<Rightarrow> string" where
  "at_line path i = path @ '' line '' @ nat_str (i + 1) @ '': ''"

text \<open>The loops: the index of the record, the records left, the number saved so far; the result is the count and the error.\<close>

fun folder_rows :: "utab \<Rightarrow> faults \<Rightarrow> string \<Rightarrow> nat \<Rightarrow> string list list \<Rightarrow> nat \<Rightarrow> sdb \<Rightarrow> (nat \<times> goerr option) \<times> sdb" where
  "folder_rows ut F path i [] n s = ((n, None), s)"
| "folder_rows ut F path i (rec # rows) n s =
     (if length rec < 2 then ((n, Some (errnew (at_line path i @ ''2 fields required (folder_a,folder_b)''))), s)
      else let a = trim_space (rec ! 0); b = trim_space (rec ! 1) in
        if i = 0 \<and> equal_fold ut a ''folder_a'' then folder_rows ut F path (Suc i) rows n s
        else case UpsertFolderPair ut F \<lparr>fpA = a, fpB = b\<rparr> s of
          (Inl e, s') \<Rightarrow> ((n, Some (wrapf (at_line path i) e)), s')
        | (Inr _, s') \<Rightarrow> folder_rows ut F path (Suc i) rows (Suc n) s')"

definition importFoldersCSV :: "utab \<Rightarrow> faults \<Rightarrow> (string \<Rightarrow> string result) \<Rightarrow> string \<Rightarrow> sdb \<Rightarrow> (nat \<times> goerr option) \<times> sdb" where
  "importFoldersCSV ut F file path s =
     (case readCSV file path of Inl e \<Rightarrow> ((0, Some e), s) | Inr rows \<Rightarrow> folder_rows ut F path 0 rows 0 s)"

definition parseBool :: "utab \<Rightarrow> string \<Rightarrow> bool" where
  "parseBool ut s = (to_lower ut (trim_space s) \<notin> {''0'', ''false'', ''no'', ''n'', ''off'', []})"

definition rec_user :: "string list \<Rightarrow> User" where
  "rec_user rec = \<lparr>uName = trim_space (rec ! 0), uUserA = trim_space (rec ! 1), uUserB = trim_space (rec ! 2),
     uPathA = (if length rec \<ge> 5 then trim_space (rec ! 4) else []), uPathB = (if length rec \<ge> 6 then trim_space (rec ! 5) else [])\<rparr>"

definition rec_enabled :: "utab \<Rightarrow> string list \<Rightarrow> bool" where
  "rec_enabled ut rec = (if length rec \<ge> 4 then parseBool ut (rec ! 3) else True)"

fun user_rows :: "utab \<Rightarrow> faults \<Rightarrow> string \<Rightarrow> nat \<Rightarrow> string list list \<Rightarrow> nat \<Rightarrow> sdb \<Rightarrow> (nat \<times> goerr option) \<times> sdb" where
  "user_rows ut F path i [] n s = ((n, None), s)"
| "user_rows ut F path i (rec # rows) n s =
     (if length rec < 3 then ((n, Some (errnew (at_line path i @ ''at least 3 fields required (name,user_a,user_b)''))), s)
      else if i = 0 \<and> equal_fold ut (trim_space (rec ! 0)) ''name'' then user_rows ut F path (Suc i) rows n s
      else case UpsertUser ut F (rec_user rec) (rec_enabled ut rec) s of
          (Inl e, s') \<Rightarrow> ((n, Some (wrapf (at_line path i) e)), s')
        | (Inr _, s') \<Rightarrow> user_rows ut F path (Suc i) rows (Suc n) s')"

definition importUsersCSV :: "utab \<Rightarrow> faults \<Rightarrow> (string \<Rightarrow> string result) \<Rightarrow> string \<Rightarrow> sdb \<Rightarrow> (nat \<times> goerr option) \<times> sdb" where
  "importUsersCSV ut F file path s =
     (case readCSV file path of Inl e \<Rightarrow> ((0, Some e), s) | Inr rows \<Rightarrow> user_rows ut F path 0 rows 0 s)"

section \<open>What an import does\<close>

text \<open>
  The outcome of an import of \<open>rows\<close> that starts from \<open>d\<close> and saves a record with \<open>f\<close>: the records before the one that fails
  are saved, nothing else.
\<close>

definition saved_prefix :: "(string list \<Rightarrow> db \<Rightarrow> db) \<Rightarrow> string list list \<Rightarrow> db \<Rightarrow> nat \<Rightarrow> goerr option \<Rightarrow> db \<Rightarrow> bool" where
  "saved_prefix f rows d n eo d' =
     (d' = fold f (take n rows) d \<and> (case eo of None \<Rightarrow> n = length rows | Some _ \<Rightarrow> n < length rows))"

lemma saved_prefix_Nil: "saved_prefix f [] d n eo d' \<longleftrightarrow> n = 0 \<and> eo = None \<and> d' = d"
  by (auto simp: saved_prefix_def split: option.splits)

lemma saved_prefix_Cons: "saved_prefix f rows (f r d) n eo d' \<Longrightarrow> saved_prefix f (r # rows) d (Suc n) eo d'"
  by (auto simp: saved_prefix_def split: option.splits)

lemma saved_prefix_fail: "saved_prefix f (r # rows) d 0 (Some e) d"
  by (simp add: saved_prefix_def)

lemma saved_prefix_inv:
  assumes "saved_prefix f rows d n eo d'" and "\<And>r d. P d \<Longrightarrow> P (f r d)" and "P d"
  shows "P d'"
proof -
  have "P (fold f rs d)" for rs
    using assms(3) by (induction rs arbitrary: d) (auto intro: assms(2))
  then show ?thesis
    using assms(1) by (simp add: saved_prefix_def)
qed

text \<open>The records that hold data: all but a header in the first one.\<close>

definition data_rows :: "(string list \<Rightarrow> bool) \<Rightarrow> string list list \<Rightarrow> string list list" where
  "data_rows header rows = (case rows of [] \<Rightarrow> [] | rec # rs \<Rightarrow> if header rec then rs else rows)"

text \<open>
  The two loops have the same contract: records too short are errors, a header is skipped, the others are saved by an atomic
  operation of the store.
\<close>

locale csv_loop =
  fixes loop :: "nat \<Rightarrow> string list list \<Rightarrow> nat \<Rightarrow> sdb \<Rightarrow> (nat \<times> goerr option) \<times> sdb"
    and short :: "string list \<Rightarrow> bool"
    and header :: "string list \<Rightarrow> bool"
    and save :: "string list \<Rightarrow> unit dbm"
    and row_effect :: "string list \<Rightarrow> db \<Rightarrow> db"
  assumes loop_Nil: "loop i [] n s = ((n, None), s)"
    and loop_short: "short rec \<Longrightarrow> \<exists>e. loop i (rec # rows) n s = ((n, Some e), s)"
    and loop_header: "header rec \<Longrightarrow> loop 0 (rec # rows) n s = loop 1 rows n s"
    and loop_failed: "\<not> short rec \<Longrightarrow> i \<noteq> 0 \<or> \<not> header rec \<Longrightarrow> save rec s = (Inl e, s')
      \<Longrightarrow> \<exists>e'. loop i (rec # rows) n s = ((n, Some e'), s')"
    and loop_saved: "\<not> short rec \<Longrightarrow> i \<noteq> 0 \<or> \<not> header rec \<Longrightarrow> save rec s = (Inr (), s')
      \<Longrightarrow> loop i (rec # rows) n s = loop (Suc i) rows (Suc n) s'"
    and save_atomic: "atomic (save rec) (row_effect rec)"
begin

lemma loop_prefix_from:
  assumes "loop i rows n s = ((m, eo), s')" and "rows = [] \<or> i \<noteq> 0 \<or> \<not> header (hd rows)"
  shows "n \<le> m \<and> saved_prefix row_effect rows (sdTables s) (m - n) eo (sdTables s')"
  using assms
proof (induction rows arbitrary: i n s)
  case Nil
  then show ?case
    by (simp add: loop_Nil saved_prefix_Nil)
next
  case (Cons rec rows)
  then have data: "i \<noteq> 0 \<or> \<not> header rec"
    by simp
  show ?case
  proof (cases "short rec")
    case True
    then show ?thesis
      using loop_short [OF True, of i rows n s] Cons.prems(1) by (auto simp: saved_prefix_fail)
  next
    case False
    show ?thesis
    proof (rule atomicE [OF save_atomic, of rec s])
      fix e assume "fst (save rec s) = Inl e" "sdTables (snd (save rec s)) = sdTables s"
      then show ?thesis
        using loop_failed [OF False data, of s e "snd (save rec s)" rows n] Cons.prems(1)
        by (auto simp: saved_prefix_fail prod_eq_iff)
    next
      let ?s = "snd (save rec s)"
      assume ok: "fst (save rec s) = Inr ()" "sdTables ?s = row_effect rec (sdTables s)"
      have "loop (Suc i) rows (Suc n) ?s = ((m, eo), s')"
        using loop_saved [OF False data, of s ?s rows n] Cons.prems(1) ok(1) by (simp add: prod_eq_iff)
      then have "Suc n \<le> m \<and> saved_prefix row_effect rows (row_effect rec (sdTables s)) (m - Suc n) eo (sdTables s')"
        using Cons.IH [of "Suc i" "Suc n" ?s] ok(2) by simp
      then show ?thesis
        using saved_prefix_Cons [of row_effect rows rec "sdTables s" "m - Suc n"] by (auto simp: Suc_diff_Suc)
    qed
  qed
qed

lemma loop_prefix:
  assumes "loop 0 rows 0 s = ((n, eo), s')"
  shows "saved_prefix row_effect (data_rows header rows) (sdTables s) n eo (sdTables s')"
proof (cases "rows \<noteq> [] \<and> header (hd rows)")
  case True
  then obtain rec rs where "rows = rec # rs" "header rec"
    by (cases rows) auto
  then show ?thesis
    using loop_prefix_from [of 1 rs 0 s] assms loop_header by (simp add: data_rows_def)
next
  case False
  then have "data_rows header rows = rows"
    by (cases rows) (simp_all add: data_rows_def)
  then show ?thesis
    using loop_prefix_from [OF assms] False by simp
qed

end

definition header_row :: "utab \<Rightarrow> nat \<Rightarrow> string \<Rightarrow> string list \<Rightarrow> bool" where
  "header_row ut k title rec = (length rec \<ge> k \<and> equal_fold ut (trim_space (rec ! 0)) title)"

definition rec_pair :: "string list \<Rightarrow> FolderPair" where
  "rec_pair rec = \<lparr>fpA = trim_space (rec ! 0), fpB = trim_space (rec ! 1)\<rparr>"

interpretation users_csv: csv_loop "user_rows ut F path" "\<lambda>rec. length rec < 3" "header_row ut 3 ''name''"
    "\<lambda>rec. UpsertUser ut F (rec_user rec) (rec_enabled ut rec)" "\<lambda>rec. upsert_user_row (rec_user rec) (rec_enabled ut rec)"
  for ut F path
  by unfold_locales (auto simp: header_row_def UpsertUser_atomic)

interpretation folders_csv: csv_loop "folder_rows ut F path" "\<lambda>rec. length rec < 2" "header_row ut 2 ''folder_a''"
    "\<lambda>rec. UpsertFolderPair ut F (rec_pair rec)" "\<lambda>rec. insert_pair_row (rec_pair rec)"
  for ut F path
  by unfold_locales (auto simp: header_row_def rec_pair_def Let_def UpsertFolderPair_atomic)

lemma importUsersCSV_rows:
  assumes "importUsersCSV ut F file path s = ((n, eo), s')"
  shows "case readCSV file path of
      Inl e \<Rightarrow> n = 0 \<and> eo = Some e \<and> s' = s
    | Inr rows \<Rightarrow> saved_prefix (\<lambda>rec. upsert_user_row (rec_user rec) (rec_enabled ut rec)) (data_rows (header_row ut 3 ''name'') rows)
        (sdTables s) n eo (sdTables s')"
  using assms users_csv.loop_prefix by (auto simp: importUsersCSV_def split: sum.splits)

lemma importFoldersCSV_prefix:
  assumes "importFoldersCSV ut F file path s = ((n, eo), s')"
  shows "case readCSV file path of
      Inl e \<Rightarrow> n = 0 \<and> eo = Some e \<and> s' = s
    | Inr rows \<Rightarrow> saved_prefix (\<lambda>rec. insert_pair_row (rec_pair rec)) (data_rows (header_row ut 2 ''folder_a'') rows)
        (sdTables s) n eo (sdTables s')"
  using assms folders_csv.loop_prefix by (auto simp: importFoldersCSV_def split: sum.splits)

text \<open>C39: an import of users from a CSV file saves its records in the order of the file: the header apart, the database is changed by
  exactly the first \<open>n\<close> records, where \<open>n\<close> is the count that is returned; without an error these are all records, with one
  there is a record that was not saved, and the ones before it stay in the database. Files that cannot be read or parsed change nothing.\<close>
theorem importUsersCSV_prefix:
  assumes "importUsersCSV ut F file path s = ((n, eo), s')"
  shows "case readCSV file path of
      Inl e \<Rightarrow> n = 0 \<and> eo = Some e \<and> s' = s
    | Inr rows \<Rightarrow> saved_prefix (\<lambda>rec. upsert_user_row (rec_user rec) (rec_enabled ut rec)) (data_rows (header_row ut 3 ''name'') rows)
        (sdTables s) n eo (sdTables s')"
  by (rule importUsersCSV_rows [OF assms])

section \<open>Examples\<close>

definition users_csv_ex :: string where
  "users_csv_ex = ''Name,a,b'' @ [LF] @ ''# old'' @ [LF] @ ''ann,a@x,a@y,no'' @ [LF] @ ''bob,1''"

abbreviation import_ex :: "(nat \<times> goerr option) \<times> sdb" where
  "import_ex \<equiv> importUsersCSV ut_ex no_faults (\<lambda>_. Inr users_csv_ex) ''f'' \<lparr>sdTables = empty_db, sdTick = 0\<rparr>"

lemma rows_ex: "readCSV (\<lambda>_. Inr users_csv_ex) ''f'' = Inr [[''Name'', ''a'', ''b''], [''ann'', ''a@x'', ''a@y'', ''no''], [''bob'', ''1'']]"
  by code_simp

lemma trims_ex:
  "trim_space ''Name'' = ''Name''" "trim_space ''ann'' = ''ann''" "trim_space ''a@x'' = ''a@x''" "trim_space ''a@y'' = ''a@y''"
  "trim_space ''no'' = ''no''"
  by (simp_all add: trim_space_plain plain_chars_def)

lemma folds_ex: "equal_fold ut_ex ''Name'' ''name''"
  by (simp add: equal_fold_ascii ascii_def ascii_lower_def)

text \<open>
  The position in an error is the number of the record among those that are left after comments and empty lines were dropped: the
  short record is on line 4 of the file and the error says 3.
\<close>

lemma record_number_not_line:
  "fst import_ex = (1, Some (errnew (''f line 3: '' @ ''at least 3 fields required (name,user_a,user_b)'')))"
proof -
  have "nat_str (Suc (Suc (Suc 0))) = ''3''"
    by code_simp
  then show ?thesis
    by (simp add: importUsersCSV_def rows_ex trims_ex folds_ex rec_user_def UpsertUser_def Let_def db_defs no_faults_def at_line_def)
qed

theorem importUsersCSV_prefix_witness:
  "fst (fst import_ex) = 1 \<and>
   (case readCSV (\<lambda>_. Inr users_csv_ex) ''f'' of
      Inl e \<Rightarrow> False
    | Inr rows \<Rightarrow> saved_prefix (\<lambda>rec. upsert_user_row (rec_user rec) (rec_enabled ut_ex rec))
        (data_rows (header_row ut_ex 3 ''name'') rows) empty_db 1 (snd (fst import_ex)) (sdTables (snd import_ex)))"
  using importUsersCSV_prefix [of ut_ex no_faults "\<lambda>_. Inr users_csv_ex" "''f''" "\<lparr>sdTables = empty_db, sdTick = 0\<rparr>"
      "fst (fst import_ex)" "snd (fst import_ex)" "snd import_ex", OF prod_eqI]
  by (simp add: rows_ex record_number_not_line)

text \<open>A comment is recognised only after its line was parsed as a record, so a comment with a quote in it fails the whole file.\<close>

definition comment_ex :: string where
  "comment_ex = ''# the '' @ [CHR 34] @ ''new'' @ [CHR 34] @ '' users'' @ [LF] @ ''ann,a@x,a@y''"

lemma comment_with_quote_fails: "readCSV (\<lambda>_. Inr comment_ex) path = Inl (wrapf (''parsing '' @ path @ '': '') bare_quote)"
proof -
  have "csv_records (csv_lines comment_ex) = Inl bare_quote"
    by code_simp
  then show ?thesis
    by (simp add: readCSV_def)
qed

end
