(* ===== verification/Cli.thy ===== *)
theory Cli
  imports Csv
begin

text \<open>
  The command line (\<^verbatim>\<open>cmd/imapsync\<close>): the selection of the command in \<^verbatim>\<open>main\<close>, the \<^verbatim>\<open>db-*\<close> commands and what \<^verbatim>\<open>run\<close> does before the
  daemon works. The arguments are parsed as package \<^verbatim>\<open>flag\<close> does; \<^verbatim>\<open>strconv.ParseInt\<close> for the one integer flag, \<^verbatim>\<open>time.Format\<close>, reading
  a file and decoding YAML are parameters. Standard output is the text a command prints; what goes to standard error is left out. The
  database files are a function from the path; a file that does not exist is one without tables.
\<close>

section \<open>Flags\<close>

datatype cmd_error = ErrHelp | GoErr goerr | CfgErr cfg_error | SqliteData string cfg_error

datatype flag_val = VStr string | VBool bool | VInt int

type_synonym flags = "(string, flag_val) table"

definition ParseBool :: "string \<Rightarrow> bool option" where
  "ParseBool s = (if s \<in> {''1'', ''t'', ''T'', ''TRUE'', ''true'', ''True''} then Some True
     else if s \<in> {''0'', ''f'', ''F'', ''FALSE'', ''false'', ''False''} then Some False else None)"

definition parse_error :: string where "parse_error = ''parse error''"

definition set_flag :: "utab \<Rightarrow> (string \<Rightarrow> string + int) \<Rightarrow> string \<Rightarrow> flag_val \<Rightarrow> string \<Rightarrow> cmd_error + flag_val" where
  "set_flag ut parse_int name cur value =
     (case cur of
        VStr _ \<Rightarrow> Inr (VStr value)
      | VBool _ \<Rightarrow> (case ParseBool value of Some b \<Rightarrow> Inr (VBool b)
          | None \<Rightarrow> Inl (GoErr (errnew (''invalid boolean value '' @ quote_str ut value @ '' for -'' @ name @ '': '' @ parse_error))))
      | VInt _ \<Rightarrow> (case parse_int value of Inr i \<Rightarrow> Inr (VInt i)
          | Inl e \<Rightarrow> Inl (GoErr (errnew (''invalid value '' @ quote_str ut value @ '' for flag -'' @ name @ '': '' @ e)))))"

text \<open>\<^verbatim>\<open>FlagSet.Parse\<close>: it stops at the first argument that is not a flag, or after \<^verbatim>\<open>--\<close>.\<close>

fun parse_flags :: "utab \<Rightarrow> (string \<Rightarrow> string + int) \<Rightarrow> string list \<Rightarrow> flags \<Rightarrow> cmd_error + flags" where
  "parse_flags ut pint [] v = Inr v"
| "parse_flags ut pint (s # args) v =
     (if length s < 2 \<or> hd s \<noteq> CHR ''-'' \<or> s = ''--'' then Inr v
      else let name0 = (if s ! 1 = CHR ''-'' then drop 2 s else drop 1 s) in
      if name0 = [] \<or> hd name0 = CHR ''-'' \<or> hd name0 = CHR ''='' then Inl (GoErr (errnew (''bad flag syntax: '' @ s)))
      else let (name, value) = (case str_cut (CHR ''='') name0 of None \<Rightarrow> (name0, None) | Some (n, x) \<Rightarrow> (n, Some x)) in
      (case map_of v name of
         None \<Rightarrow> if name = ''help'' \<or> name = ''h'' then Inl ErrHelp
           else Inl (GoErr (errnew (''flag provided but not defined: -'' @ name)))
       | Some cur \<Rightarrow>
           (case (value, cur, args) of
              (Some x, _, _) \<Rightarrow> (case set_flag ut pint name cur x of Inl e \<Rightarrow> Inl e
                | Inr y \<Rightarrow> parse_flags ut pint args (AList.update name y v))
            | (None, VBool _, _) \<Rightarrow> parse_flags ut pint args (AList.update name (VBool True) v)
            | (None, _, []) \<Rightarrow> Inl (GoErr (errnew (''flag needs an argument: -'' @ name)))
            | (None, _, x # args') \<Rightarrow> (case set_flag ut pint name cur x of Inl e \<Rightarrow> Inl e
                | Inr y \<Rightarrow> parse_flags ut pint args' (AList.update name y v)))))"

definition str_flag :: "flags \<Rightarrow> string \<Rightarrow> string" where
  "str_flag v name = (case map_of v name of Some (VStr s) \<Rightarrow> s | _ \<Rightarrow> [])"

definition bool_flag :: "flags \<Rightarrow> string \<Rightarrow> bool" where
  "bool_flag v name = (case map_of v name of Some (VBool b) \<Rightarrow> b | _ \<Rightarrow> False)"

definition int_flag :: "flags \<Rightarrow> string \<Rightarrow> int" where
  "int_flag v name = (case map_of v name of Some (VInt i) \<Rightarrow> i | _ \<Rightarrow> 0)"

section \<open>Commands on the database\<close>

record 'p cli =
  liU :: utab
  liF :: faults
  liInt :: "string \<Rightarrow> string + int"
  liFmt :: "time \<Rightarrow> string"
  liFile :: "string \<Rightarrow> string result"
  liCert :: "'p certlib"
  liDecode :: "string \<Rightarrow> Config result"

type_synonym outcome = "cmd_error option \<times> string"
type_synonym dbs = "string \<Rightarrow> dbfile"

definition put_tables :: "db \<Rightarrow> dbfile \<Rightarrow> dbfile" where
  "put_tables t d = d\<lparr>dfFolders := Some (tFolders t), dfUsers := Some (True, True, tUsers t), dfEndpoint := Some (tEndpoint t),
     dfCache := Some (tCache t), dfStatus := Some (tStatus t), dfRuns := Some (tRuns t)\<rparr>"

text \<open>The command works on the open database, which is closed on every path.\<close>

definition withStore :: "'p cli \<Rightarrow> flags \<Rightarrow> (flags \<Rightarrow> sdb \<Rightarrow> outcome \<times> sdb) \<Rightarrow> string list \<Rightarrow> dbs \<Rightarrow> outcome \<times> dbs" where
  "withStore E formals fn args w =
     (case parse_flags (liU E) (liInt E) args ((''db'', VStr []) # formals) of
        Inl e \<Rightarrow> ((Some e, []), w)
      | Inr v \<Rightarrow>
          (let path = str_flag v ''db'' in
           if path = [] then ((Some (GoErr (errnew ''-db is not set'')), []), w)
           else case Open (liF E) path (w path, 0) of
             (Inl e, (d, _)) \<Rightarrow> ((Some (GoErr e), []), w(path := d))
           | (Inr s, (d, _)) \<Rightarrow> (case fn v s of (out, s') \<Rightarrow> (out, w(path := put_tables (sdTables s') d)))))"

text \<open>Run an operation of the store, stop on its error, else go on with its result.\<close>

definition store_op :: "'a dbm \<Rightarrow> ('a \<Rightarrow> sdb \<Rightarrow> outcome \<times> sdb) \<Rightarrow> sdb \<Rightarrow> outcome \<times> sdb" where
  "store_op m f s = (case m s of (Inl e, s') \<Rightarrow> ((Some (GoErr e), []), s') | (Inr x, s') \<Rightarrow> f x s')"

definition say :: "string \<Rightarrow> sdb \<Rightarrow> outcome \<times> sdb" where
  "say out s = ((None, out), s)"

definition fail_with :: "cmd_error \<Rightarrow> sdb \<Rightarrow> outcome \<times> sdb" where
  "fail_with e s = ((Some e, []), s)"

definition bool_str :: "bool \<Rightarrow> string" where "bool_str b = (if b then ''true'' else ''false'')"

definition cmdDBAddUser :: "'p cli \<Rightarrow> string list \<Rightarrow> dbs \<Rightarrow> outcome \<times> dbs" where
  "cmdDBAddUser E = withStore E
     [(''name'', VStr []), (''a'', VStr []), (''b'', VStr []), (''path-a'', VStr []), (''path-b'', VStr []), (''disabled'', VBool False)]
     (\<lambda>v. let u = \<lparr>uName = str_flag v ''name'', uUserA = str_flag v ''a'', uUserB = str_flag v ''b'',
                   uPathA = str_flag v ''path-a'', uPathB = str_flag v ''path-b''\<rparr>;
               enabled = (\<not> bool_flag v ''disabled'') in
        store_op (UpsertUser (liU E) (liF E) u enabled) (\<lambda>_.
          say (''user '' @ quote_str (liU E) (uName u) @ '' saved (enabled='' @ bool_str enabled @ '')'' @ [LF])))"

definition pair_flags :: "flags \<Rightarrow> FolderPair" where
  "pair_flags v = \<lparr>fpA = str_flag v ''a'', fpB = str_flag v ''b''\<rparr>"

definition cmdDBAddFolder :: "'p cli \<Rightarrow> string list \<Rightarrow> dbs \<Rightarrow> outcome \<times> dbs" where
  "cmdDBAddFolder E = withStore E [(''a'', VStr []), (''b'', VStr [])]
     (\<lambda>v. store_op (UpsertFolderPair (liU E) (liF E) (pair_flags v)) (\<lambda>_.
        say (''folder pair '' @ quote_str (liU E) (str_flag v ''a'') @ ''/'' @ quote_str (liU E) (str_flag v ''b'') @ '' saved'' @ [LF])))"

definition cmdDBImportYAML :: "'p cli \<Rightarrow> string list \<Rightarrow> dbs \<Rightarrow> outcome \<times> dbs" where
  "cmdDBImportYAML E = withStore E [(''config'', VStr [])]
     (\<lambda>v. let cfgPath = str_flag v ''config'' in
        if cfgPath = [] then fail_with (GoErr (errnew ''-config is not set''))
        else case LoadEntitiesOnly (liCert E) (liDecode E) cfgPath of
          Inl e \<Rightarrow> fail_with (CfgErr e)
        | Inr cfg \<Rightarrow> (\<lambda>s. case ImportConfig (liU E) (liF E) cfg s of
            ((nf, nu, Some e), s') \<Rightarrow> fail_with (GoErr e) s'
          | ((nf, nu, None), s') \<Rightarrow> say (''imported from '' @ cfgPath @ '': folder pairs='' @ nat_str nf @ '', users='' @ nat_str nu @ [LF]) s'))"

text \<open>An import step: the error ends the command, with what was printed so far.\<close>

definition csv_step :: "(sdb \<Rightarrow> (nat \<times> goerr option) \<times> sdb) \<Rightarrow> string \<Rightarrow> string \<Rightarrow> sdb \<Rightarrow> outcome \<times> sdb" where
  "csv_step imp path what s =
     (if path = [] then say [] s
      else case imp s of
        ((n, Some e), s') \<Rightarrow> fail_with (GoErr e) s'
      | ((n, None), s') \<Rightarrow> say (what @ '' imported: '' @ nat_str n @ [LF]) s')"

definition cmdDBImportCSV :: "'p cli \<Rightarrow> string list \<Rightarrow> dbs \<Rightarrow> outcome \<times> dbs" where
  "cmdDBImportCSV E = withStore E [(''users'', VStr []), (''folders'', VStr [])]
     (\<lambda>v s. let usersCSV = str_flag v ''users''; foldersCSV = str_flag v ''folders'' in
        if usersCSV = [] \<and> foldersCSV = [] then fail_with (GoErr (errnew ''at least one of -users / -folders is required'')) s
        else case csv_step (importFoldersCSV (liU E) (liF E) (liFile E) foldersCSV) foldersCSV ''folder pairs'' s of
          ((Some e, out), s1) \<Rightarrow> ((Some e, out), s1)
        | ((None, out), s1) \<Rightarrow>
            (case csv_step (importUsersCSV (liU E) (liF E) (liFile E) usersCSV) usersCSV ''users'' s1 of
               ((eo, out2), s2) \<Rightarrow> ((eo, out @ out2), s2)))"

definition cmdDBRemoveUser :: "'p cli \<Rightarrow> string list \<Rightarrow> dbs \<Rightarrow> outcome \<times> dbs" where
  "cmdDBRemoveUser E = withStore E [(''name'', VStr [])]
     (\<lambda>v. store_op (DeleteUser (liU E) (liF E) (str_flag v ''name'')) (\<lambda>_.
        store_op (ForgetUser (liU E) (liF E) (str_flag v ''name'')) (\<lambda>_.
          say (''user '' @ quote_str (liU E) (str_flag v ''name'') @ '' removed (along with its cache and history)'' @ [LF]))))"

definition cmdDBRemoveFolder :: "'p cli \<Rightarrow> string list \<Rightarrow> dbs \<Rightarrow> outcome \<times> dbs" where
  "cmdDBRemoveFolder E = withStore E [(''a'', VStr []), (''b'', VStr [])]
     (\<lambda>v. store_op (DeleteFolderPair (liU E) (liF E) (pair_flags v)) (\<lambda>_.
        say (''folder pair '' @ quote_str (liU E) (str_flag v ''a'') @ ''/'' @ quote_str (liU E) (str_flag v ''b'') @ '' removed'' @ [LF])))"

definition cmdDBResumeUser :: "'p cli \<Rightarrow> string list \<Rightarrow> dbs \<Rightarrow> outcome \<times> dbs" where
  "cmdDBResumeUser E = withStore E [(''name'', VStr [])]
     (\<lambda>v. store_op (ResumeUser (liU E) (liF E) (str_flag v ''name'')) (\<lambda>_.
        say (''error streak for user '' @ quote_str (liU E) (str_flag v ''name'') @ '' cleared, sync resumes on the next cycle'' @ [LF])))"

definition cmdDBForgetUser :: "'p cli \<Rightarrow> string list \<Rightarrow> dbs \<Rightarrow> outcome \<times> dbs" where
  "cmdDBForgetUser E = withStore E [(''name'', VStr [])]
     (\<lambda>v. store_op (ForgetUser (liU E) (liF E) (str_flag v ''name'')) (\<lambda>_.
        say (''state for user '' @ quote_str (liU E) (str_flag v ''name'')
          @ '' reset (cache, status, history); the next cycle starts syncing from scratch'' @ [LF])))"

definition cmdDBVacuum :: "'p cli \<Rightarrow> string list \<Rightarrow> dbs \<Rightarrow> outcome \<times> dbs" where
  "cmdDBVacuum E = withStore E [] (\<lambda>v. store_op (Vacuum (liF E)) (\<lambda>_. say (''VACUUM done'' @ [LF])))"

definition fmtTime :: "'p cli \<Rightarrow> time \<Rightarrow> string" where
  "fmtTime E t = (if t = zero_time then ''-'' else liFmt E t)"

text \<open>\<^verbatim>\<open>%-5s\<close>: padded on the right to a width counted in runes.\<close>

definition pad_right :: "nat \<Rightarrow> string \<Rightarrow> string" where
  "pad_right n s = s @ replicate (n - length (runes s)) (CHR '' '')"

definition counts_str :: "int \<Rightarrow> int \<Rightarrow> int \<Rightarrow> int \<Rightarrow> string" where
  "counts_str ab ba dup errs = ''A->B='' @ itoa ab @ '' B->A='' @ itoa ba @ '' dups='' @ itoa dup @ '' errors='' @ itoa errs"

definition run_line :: "'p cli \<Rightarrow> RunResult \<Rightarrow> string" where
  "run_line E r = ''  '' @ fmtTime E (rAt r) @ ''  '' @ pad_right 5 (rStatus r) @ ''  ''
     @ counts_str (rCopiedAToB r) (rCopiedBToA r) (rSkippedDup r) (rErrors r)
     @ (if rLastError r \<noteq> [] then ''  '' @ rLastError r else []) @ [LF]"

definition cmdDBHistory :: "'p cli \<Rightarrow> string list \<Rightarrow> dbs \<Rightarrow> outcome \<times> dbs" where
  "cmdDBHistory E = withStore E [(''user'', VStr []), (''limit'', VInt 20)]
     (\<lambda>v. let name = str_flag v ''user'' in
        if name = [] then fail_with (GoErr (errnew ''-user is not set''))
        else store_op (UserRuns (liF E) name (int_flag v ''limit'')) (\<lambda>runs.
          if runs = [] then say (''no runs recorded for user '' @ quote_str (liU E) name @ [LF])
          else say (''recent runs for user '' @ quote_str (liU E) name @ '' ('' @ nat_str (length runs) @ ''):'' @ [LF]
            @ concat (map (run_line E) runs))))"

definition status_lines :: "'p cli \<Rightarrow> UserStatus \<Rightarrow> string" where
  "status_lines E s = ''      status: '' @ usStatus s @ '', run: '' @ fmtTime E (usLastRun s)
     @ (if usLastOK s \<noteq> zero_time then '', ok: '' @ fmtTime E (usLastOK s) else [])
     @ [LF] @ ''      '' @ counts_str (usCopiedAToB s) (usCopiedBToA s) (usSkippedDup s) (usErrors s)
     @ (if usFailStreak s > 0
        then [LF] @ ''      consecutive errors: '' @ itoa (usFailStreak s) @ '', streak since '' @ fmtTime E (usFailSince s) else [])
     @ (if usLastError s \<noteq> [] then [LF] @ ''      last error: '' @ usLastError s else []) @ [LF]"

definition user_lines :: "'p cli \<Rightarrow> (string, UserStatus) table \<Rightarrow> User \<Rightarrow> string" where
  "user_lines E statuses u = ''  '' @ uName u @ '': '' @ uUserA u @ '' | '' @ uUserB u @ [LF]
     @ (if uPathA u \<noteq> [] \<or> uPathB u \<noteq> [] then ''      path_a: '' @ uPathA u @ '', path_b: '' @ uPathB u @ [LF] else [])
     @ (case map_of statuses (uName u) of None \<Rightarrow> [] | Some s \<Rightarrow> status_lines E s)"

definition cmdDBListRun :: "'p cli \<Rightarrow> flags \<Rightarrow> sdb \<Rightarrow> outcome \<times> sdb" where
  "cmdDBListRun E v =
     store_op (ListFolderPairs (liF E)) (\<lambda>folders.
     store_op (AllUsers (liF E)) (\<lambda>users.
     store_op (UserStatuses (liF E)) (\<lambda>statuses.
       say (''folder pairs ('' @ nat_str (length folders) @ ''):'' @ [LF]
         @ concat (map (\<lambda>fp. ''  '' @ quote_str (liU E) (fpA fp) @ '' -> '' @ quote_str (liU E) (fpB fp) @ [LF]) folders)
         @ ''users ('' @ nat_str (length users) @ '', including disabled):'' @ [LF]
         @ concat (map (user_lines E statuses) users)))))"

definition cmdDBList :: "'p cli \<Rightarrow> string list \<Rightarrow> dbs \<Rightarrow> outcome \<times> dbs" where
  "cmdDBList E = withStore E [] (cmdDBListRun E)"

section \<open>The run command\<close>

definition loadFromSQLite :: "'p cli \<Rightarrow> Config \<Rightarrow> dbs \<Rightarrow> (cmd_error + Config) \<times> dbs" where
  "loadFromSQLite E cfg w =
     (case Open (liF E) (cSQLitePath cfg) (w (cSQLitePath cfg), 0) of
        (Inl e, (d, _)) \<Rightarrow> (Inl (GoErr e), w(cSQLitePath cfg := d))
      | (Inr s, (d, _)) \<Rightarrow>
          ((case LoadInto (liF E) cfg s of
              (Inl e, _) \<Rightarrow> Inl (GoErr e)
            | (Inr cfg', _) \<Rightarrow> (case ValidateEntities cfg' of Some e \<Rightarrow> Inl (SqliteData (cSQLitePath cfg) e) | None \<Rightarrow> Inr cfg')),
           w(cSQLitePath cfg := d)))"

text \<open>\<open>daemon\<close> is \<^verbatim>\<open>runDaemon\<close>, which runs until a signal; the lines of the log are left out.\<close>

definition cmdRun :: "'p cli \<Rightarrow> (Config \<Rightarrow> dbs \<Rightarrow> cmd_error option \<times> dbs) \<Rightarrow> string list \<Rightarrow> dbs \<Rightarrow> outcome \<times> dbs" where
  "cmdRun E daemon args w =
     (case parse_flags (liU E) (liInt E) args [(''config'', VStr ''config.yaml''), (''debug'', VBool False)] of
        Inl e \<Rightarrow> ((Some e, []), w)
      | Inr v \<Rightarrow>
          (case Load (liU E) (liCert E) (liDecode E) (str_flag v ''config'') of
             Inl e \<Rightarrow> ((Some (CfgErr e), []), w)
           | Inr cfg0 \<Rightarrow>
               (let cfg = (if bool_flag v ''debug'' then cfg0\<lparr>cDebug := True\<rparr> else cfg0) in
                case (if cSource cfg = SourceSQLite then loadFromSQLite E cfg w else (Inr cfg, w)) of
                  (Inl e, w') \<Rightarrow> ((Some e, []), w')
                | (Inr cfg', w') \<Rightarrow> (case daemon cfg' w' of (eo, w'') \<Rightarrow> ((eo, []), w'')))))"

section \<open>The program\<close>

definition isFlag :: "string \<Rightarrow> bool" where "isFlag s = (s \<noteq> [] \<and> hd s = CHR ''-'')"

definition isHelpFlag :: "string \<Rightarrow> bool" where
  "isHelpFlag s = (s = ''-h'' \<or> s = ''-help'' \<or> s = ''--help'' \<or> s = ''help'')"

definition text_lines :: "string list \<Rightarrow> string" where "text_lines ls = concat (map (\<lambda>l. l @ [LF]) ls)"

definition usage :: string where
  "usage = text_lines
    [''imapsync - a two-way folder synchronizer'',
     [],
     ''Usage:'',
     ''  imapsync run -config cfg.yaml'',
     ''  imapsync db-add-user     -db x.db -name ivanov -a ivanov@a -b ivanov@b [-disabled]'',
     ''  imapsync db-add-folder   -db x.db -a Sent -b '' @ [CHR 34] @ ''Sent Items'' @ [CHR 34],
     ''  imapsync db-import-yaml   -db x.db -config cfg.yaml'',
     ''  imapsync db-import-csv    -db x.db [-users users.csv] [-folders folders.csv]'',
     ''  imapsync db-list         -db x.db'',
     ''  imapsync db-history      -db x.db -user ivanov [-limit 20]'',
     ''  imapsync db-remove-user  -db x.db -name ivanov      (removes the user + its state)'',
     ''  imapsync db-remove-folder -db x.db -a Sent -b '' @ [CHR 34] @ ''Sent Items'' @ [CHR 34],
     ''  imapsync db-forget-user  -db x.db -name ivanov      (reset cache/status, user stays)'',
     ''  imapsync db-resume-user  -db x.db -name ivanov      (reset error streak, lift the sync stop)'',
     ''  imapsync db-vacuum       -db x.db'',
     [],
     ''CSV formats:'',
     ''  users:   name,user_a,user_b[,enabled]   (enabled: 1/0, true/false; default 1)'',
     ''  folders: folder_a,folder_b'',
     ''Lines starting with '' @ [CHR 39] @ ''#'' @ [CHR 39] @ '' and the header row (name.../folder_a...) are skipped.'']"

definition commands :: "'p cli \<Rightarrow> (Config \<Rightarrow> dbs \<Rightarrow> cmd_error option \<times> dbs) \<Rightarrow> (string, string list \<Rightarrow> dbs \<Rightarrow> outcome \<times> dbs) table" where
  "commands E daemon = [(''run'', cmdRun E daemon), (''db-add-user'', cmdDBAddUser E), (''db-add-folder'', cmdDBAddFolder E),
     (''db-import-yaml'', cmdDBImportYAML E), (''db-import-csv'', cmdDBImportCSV E), (''db-list'', cmdDBList E),
     (''db-remove-user'', cmdDBRemoveUser E), (''db-remove-folder'', cmdDBRemoveFolder E), (''db-forget-user'', cmdDBForgetUser E),
     (''db-resume-user'', cmdDBResumeUser E), (''db-history'', cmdDBHistory E), (''db-vacuum'', cmdDBVacuum E)]"

text \<open>The exit code, the standard output and the databases.\<close>

definition main :: "'p cli \<Rightarrow> (Config \<Rightarrow> dbs \<Rightarrow> cmd_error option \<times> dbs) \<Rightarrow> string list \<Rightarrow> dbs \<Rightarrow> (int \<times> string) \<times> dbs" where
  "main E daemon args w =
     (if args \<noteq> [] \<and> isHelpFlag (hd args) then ((0, usage), w)
      else let (cmd, rest) = (if args \<noteq> [] \<and> \<not> isFlag (hd args) then (hd args, tl args) else (''run'', args)) in
      case map_of (commands E daemon) cmd of
        None \<Rightarrow> ((2, []), w)
      | Some c \<Rightarrow> (case c rest w of ((eo, out), w') \<Rightarrow>
          ((case eo of None \<Rightarrow> 0 | Some ErrHelp \<Rightarrow> 0 | Some _ \<Rightarrow> 1, out), w')))"

section \<open>The primary keys of the files\<close>

definition file_inv :: "dbfile \<Rightarrow> bool" where
  "file_inv d = db_inv (file_tables d)"

lemma file_exec_inv:
  "file_exec F f st = (r, st') \<Longrightarrow> (\<And>d. file_inv d \<Longrightarrow> file_inv (f d)) \<Longrightarrow> file_inv (fst st) \<Longrightarrow> file_inv (fst st')"
  by (auto simp: file_exec_def split: prod.splits option.splits)

lemma file_steps_inv:
  "file_inv d \<Longrightarrow> file_inv (d\<lparr>dfEndpoint := None, dfCache := None\<rparr>)" "file_inv d \<Longrightarrow> file_inv (d\<lparr>dfVersion := n\<rparr>)"
  "file_inv d \<Longrightarrow> file_inv (create_schema d)" "file_inv d \<Longrightarrow> file_inv (create_stateSchema d)"
  "file_inv d \<Longrightarrow> file_inv (add_path_col is_a d)"
  by (auto simp: file_inv_def file_tables_def db_inv_def create_schema_def create_stateSchema_def or_create_def add_path_col_def
      comp_def case_prod_beta split: option.splits)

lemma migrateState_inv:
  "migrateState F st = (r, st') \<Longrightarrow> file_inv (fst st) \<Longrightarrow> file_inv (fst st')"
  unfolding migrateState_def
  by (auto split: prod.splits option.splits if_splits dest!: file_exec_inv simp: file_steps_inv)

lemma ensure_col_inv: "ensure_col F is_a have st = (r, st') \<Longrightarrow> file_inv (fst st) \<Longrightarrow> file_inv (fst st')"
  unfolding ensure_col_def
  by (auto split: prod.splits option.splits if_splits dest!: file_exec_inv simp: file_steps_inv)

lemma ensureUserPathColumns_inv:
  "ensureUserPathColumns F st = (r, st') \<Longrightarrow> file_inv (fst st) \<Longrightarrow> file_inv (fst st')"
  unfolding ensureUserPathColumns_def
  by (auto split: prod.splits option.splits dest!: file_exec_inv ensure_col_inv)

lemma Open_inv:
  assumes "Open F path st = (r, (d, t))" and "file_inv (fst st)"
  shows "file_inv d \<and> (\<forall>s. r = Inr s \<longrightarrow> sdTables s = file_tables d)"
  using assms unfolding Open_def
  by (auto split: prod.splits option.splits if_splits dest!: file_exec_inv migrateState_inv ensureUserPathColumns_inv
      simp: file_steps_inv)

lemma file_tables_put [simp]: "file_tables (put_tables t d) = t"
  by (simp add: file_tables_def put_tables_def)

section \<open>Every command keeps the keys\<close>

definition op_inv :: "(sdb \<Rightarrow> 'x \<times> sdb) \<Rightarrow> bool" where
  "op_inv m = (\<forall>s. db_inv (sdTables s) \<longrightarrow> db_inv (sdTables (snd (m s))))"

named_theorems op_inv_intros \<open>operations that keep the primary keys\<close>

lemma op_inv_atomic: "atomic m f \<Longrightarrow> (\<And>d. db_inv d \<Longrightarrow> db_inv (f d)) \<Longrightarrow> op_inv m"
  unfolding op_inv_def by (blast intro: atomic_inv)

lemma row_effects_inv:
  "db_inv d \<Longrightarrow> db_inv (d\<lparr>tUsers := snd (tbl_delete k (tUsers d))\<rparr>)"
  "db_inv d \<Longrightarrow> db_inv (d\<lparr>tFolders := snd (tbl_delete k' (tFolders d))\<rparr>)"
  "db_inv d \<Longrightarrow> db_inv (d\<lparr>tStatus := snd (tbl_update k f (tStatus d))\<rparr>)"
  by (simp_all add: db_inv_def tbl_delete_def distinct_tbl_del)

lemma op_inv_store [op_inv_intros]:
  "op_inv (UpsertUser ut F u enabled)" "op_inv (UpsertFolderPair ut F fp)" "op_inv (DeleteUser ut F name)"
  "op_inv (DeleteFolderPair ut F fp)" "op_inv (ForgetUser ut F name)" "op_inv (ResumeUser ut F name)" "op_inv (Vacuum F)"
  by (rule op_inv_atomic, rule store_atomic, simp add: upsert_rows_inv state_effects_inv row_effects_inv)+

lemma op_inv_rows: "op_inv (db_rows F msg q)"
  by (auto simp: op_inv_def db_rows_def db_defs Let_def split: option.splits)

lemma op_inv_reads [op_inv_intros]:
  "op_inv (ListFolderPairs F)" "op_inv (AllUsers F)" "op_inv (UserStatuses F)" "op_inv (UserRuns F name n)"
  by (simp_all add: ListFolderPairs_def AllUsers_def queryUsers_def UserStatuses_def UserRuns_def Let_def op_inv_rows)

lemma op_inv_say [op_inv_intros]: "op_inv (say out)" "op_inv (fail_with e)"
  by (simp_all add: op_inv_def say_def fail_with_def)

lemma op_inv_store_op [op_inv_intros]: "op_inv m \<Longrightarrow> (\<And>x. op_inv (f x)) \<Longrightarrow> op_inv (store_op m f)"
  unfolding op_inv_def store_op_def by (fastforce split: prod.splits sum.splits)

lemma op_inv_csv [op_inv_intros]:
  "op_inv (importUsersCSV ut F file path)" "op_inv (importFoldersCSV ut F file path)"
proof -
  have "db_inv (sdTables s')" if "importUsersCSV ut F file path s = ((n, eo), s')" "db_inv (sdTables s)" for n eo s s'
    using importUsersCSV_rows [OF that(1)] that(2)
    by (auto split: sum.splits intro: saved_prefix_inv [where P = db_inv] upsert_rows_inv)
  then show "op_inv (importUsersCSV ut F file path)"
    unfolding op_inv_def by (metis prod.collapse)
  have "db_inv (sdTables s')" if "importFoldersCSV ut F file path s = ((n, eo), s')" "db_inv (sdTables s)" for n eo s s'
    using importFoldersCSV_prefix [OF that(1)] that(2)
    by (auto split: sum.splits intro: saved_prefix_inv [where P = db_inv] upsert_rows_inv)
  then show "op_inv (importFoldersCSV ut F file path)"
    unfolding op_inv_def by (metis prod.collapse)
qed

lemma op_inv_csv_step [op_inv_intros]: "op_inv imp \<Longrightarrow> op_inv (csv_step imp path what)"
  unfolding op_inv_def csv_step_def say_def fail_with_def by (fastforce split: prod.splits option.splits)

lemma op_inv_import [op_inv_intros]: "op_inv (import_folders ut F fps n)" "op_inv (import_users ut F us m)"
proof -
  show "op_inv (import_folders ut F fps n)"
  proof (induction fps arbitrary: n)
    case (Cons fp fps)
    then show ?case
      using op_inv_store(2) [of ut F fp] unfolding op_inv_def by (fastforce split: prod.splits sum.splits)
  qed (simp add: op_inv_def)
  show "op_inv (import_users ut F us m)"
  proof (induction us arbitrary: m)
    case (Cons u us)
    then show ?case
      using op_inv_store(1) [of ut F u True] unfolding op_inv_def by (fastforce split: prod.splits sum.splits)
  qed (simp add: op_inv_def)
qed

lemma op_inv_ImportConfig [op_inv_intros]: "op_inv (ImportConfig ut F cfg)"
  using op_inv_import(1) [of ut F "cFolders cfg" 0] op_inv_import(2) [of ut F "cUsers cfg" 0]
  unfolding op_inv_def ImportConfig_def by (fastforce split: prod.splits option.splits)

lemma withStore_cases:
  obtains e where "withStore E formals fn args w = ((Some e, []), w)"
  | v path e d t where "path = str_flag v ''db''" "Open (liF E) path (w path, 0) = (Inl e, (d, t))"
      "withStore E formals fn args w = ((Some (GoErr e), []), w(path := d))"
  | v path s d t where "parse_flags (liU E) (liInt E) args ((''db'', VStr []) # formals) = Inr v" "path = str_flag v ''db''"
      "path \<noteq> []" "Open (liF E) path (w path, 0) = (Inr s, (d, t))"
      "withStore E formals fn args w = (fst (fn v s), w(path := put_tables (sdTables (snd (fn v s))) d))"
proof (cases "parse_flags (liU E) (liInt E) args ((''db'', VStr []) # formals)")
  case (Inl e)
  then show ?thesis
    using that(1) by (simp add: withStore_def)
next
  case (Inr v)
  let ?path = "str_flag v ''db''"
  obtain r d t where o: "Open (liF E) ?path (w ?path, 0) = (r, (d, t))"
    by (metis prod.exhaust)
  show ?thesis
  proof (cases "?path = []")
    case True
    then show ?thesis
      using that(1) Inr by (simp add: withStore_def)
  next
    case False
    then show ?thesis
      using that(2) [OF refl] that(3) [OF Inr refl] Inr o
      by (cases r) (simp_all add: withStore_def split_beta)
  qed
qed

lemma withStore_inv:
  assumes "\<And>v. op_inv (fn v)" and "\<forall>p. file_inv (w p)"
  shows "\<forall>p. file_inv (snd (withStore E formals fn args w) p)"
proof (rule withStore_cases [of E formals fn args w])
  fix v path s d t
  assume o: "Open (liF E) path (w path, 0) = (Inr s, (d, t))"
    and run: "withStore E formals fn args w = (fst (fn v s), w(path := put_tables (sdTables (snd (fn v s))) d))"
  have "db_inv (sdTables s)"
    using Open_inv [OF o] assms(2) by (simp add: file_inv_def)
  then show ?thesis
    using run assms by (simp add: op_inv_def file_inv_def)
qed (use assms(2) in \<open>auto dest: Open_inv\<close>)

text \<open>A command on the store: its flags and a function that keeps the keys.\<close>

definition store_cmd :: "'p cli \<Rightarrow> (string list \<Rightarrow> dbs \<Rightarrow> outcome \<times> dbs) \<Rightarrow> bool" where
  "store_cmd E cmd = (\<exists>formals fn. cmd = withStore E formals fn \<and> (\<forall>v. op_inv (fn v)))"

lemma store_cmdI: "(\<And>v. op_inv (fn v)) \<Longrightarrow> store_cmd E (withStore E formals fn)"
  unfolding store_cmd_def by blast

lemma op_inv_ImportCSV [op_inv_intros]:
  "op_inv f \<Longrightarrow> op_inv g \<Longrightarrow> op_inv (\<lambda>s. case f s of ((Some e, out), s1) \<Rightarrow> ((Some e, out), s1)
     | ((None, out), s1) \<Rightarrow> (case g s1 of ((eo, out2), s2) \<Rightarrow> ((eo, h out out2), s2)))"
  unfolding op_inv_def by (fastforce split: prod.splits option.splits)

lemma op_inv_run_import [op_inv_intros]:
  "op_inv m \<Longrightarrow> (\<And>e. op_inv (f e)) \<Longrightarrow> (\<And>nf nu. op_inv (g nf nu)) \<Longrightarrow>
     op_inv (\<lambda>s. case m s of ((nf, nu, Some e), s') \<Rightarrow> f e s' | ((nf, nu, None), s') \<Rightarrow> g nf nu s')"
  unfolding op_inv_def by (fastforce split: prod.splits option.splits)

lemma store_cmds:
  "store_cmd E (cmdDBAddUser E)" "store_cmd E (cmdDBAddFolder E)" "store_cmd E (cmdDBRemoveUser E)" "store_cmd E (cmdDBRemoveFolder E)"
  "store_cmd E (cmdDBResumeUser E)" "store_cmd E (cmdDBForgetUser E)" "store_cmd E (cmdDBVacuum E)" "store_cmd E (cmdDBHistory E)"
  "store_cmd E (cmdDBList E)" "store_cmd E (cmdDBImportYAML E)" "store_cmd E (cmdDBImportCSV E)"
proof -
  show "store_cmd E (cmdDBAddUser E)" "store_cmd E (cmdDBAddFolder E)" "store_cmd E (cmdDBRemoveUser E)" "store_cmd E (cmdDBRemoveFolder E)"
    "store_cmd E (cmdDBResumeUser E)" "store_cmd E (cmdDBForgetUser E)" "store_cmd E (cmdDBVacuum E)" "store_cmd E (cmdDBList E)"
    unfolding cmdDBAddUser_def cmdDBAddFolder_def cmdDBRemoveUser_def cmdDBRemoveFolder_def cmdDBResumeUser_def cmdDBForgetUser_def
      cmdDBVacuum_def cmdDBList_def cmdDBListRun_def Let_def
    by (intro store_cmdI op_inv_intros)+
  have runs: "op_inv (\<lambda>s. if c then m s else m' s)" if "op_inv m" "op_inv m'" for c and m m' :: "sdb \<Rightarrow> outcome \<times> sdb"
    using that by (simp add: op_inv_def)
  show "store_cmd E (cmdDBHistory E)"
    unfolding cmdDBHistory_def Let_def
    by (rule store_cmdI) (auto intro!: op_inv_intros)
  show "store_cmd E (cmdDBImportYAML E)"
    unfolding cmdDBImportYAML_def Let_def
    by (rule store_cmdI) (auto intro!: op_inv_intros split: sum.splits)
  show "store_cmd E (cmdDBImportCSV E)"
    unfolding cmdDBImportCSV_def Let_def
    by (intro store_cmdI runs op_inv_intros)
qed


section \<open>Removing a user\<close>

lemma Open_ok_tables: "Open F path st = (Inr s, (d, t)) \<Longrightarrow> sdTables s = file_tables d"
  unfolding Open_def by (auto split: prod.splits option.splits if_splits)

text \<open>\<^verbatim>\<open>db-remove-user\<close> that succeeds leaves no row of the user in any table and every row of the others.\<close>

theorem remove_user_complete:
  assumes "cmdDBRemoveUser E args w = ((None, out), w')"
  shows "\<exists>v path n d. parse_flags (liU E) (liInt E) args [(''db'', VStr []), (''name'', VStr [])] = Inr v
     \<and> path = str_flag v ''db'' \<and> n = trim_space (str_flag v ''name'') \<and> (\<forall>p. p \<noteq> path \<longrightarrow> w' p = w p)
     \<and> (\<exists>r t. Open (liF E) path (w path, 0) = (r, (d, t)))
     \<and> file_tables (w' path) = forget_user n ((file_tables d)\<lparr>tUsers := tbl_del (\<lambda>k. k = n) (tUsers (file_tables d))\<rparr>)"
proof -
  let ?fn = "\<lambda>v. store_op (DeleteUser (liU E) (liF E) (str_flag v ''name'')) (\<lambda>_.
        store_op (ForgetUser (liU E) (liF E) (str_flag v ''name'')) (\<lambda>_.
          say (''user '' @ quote_str (liU E) (str_flag v ''name'') @ '' removed (along with its cache and history)'' @ [LF])))"
  have run: "withStore E [(''name'', VStr [])] ?fn args w = ((None, out), w')"
    using assms by (simp add: cmdDBRemoveUser_def)
  show ?thesis
  proof (rule withStore_cases [of E "[(''name'', VStr [])]" ?fn args w])
    fix v path s d t
    assume v: "parse_flags (liU E) (liInt E) args [(''db'', VStr []), (''name'', VStr [])] = Inr v" "path = str_flag v ''db''"
      and o: "Open (liF E) path (w path, 0) = (Inr s, (d, t))"
      and step: "withStore E [(''name'', VStr [])] ?fn args w = (fst (?fn v s), w(path := put_tables (sdTables (snd (?fn v s))) d))"
    let ?n = "trim_space (str_flag v ''name'')"
    have ok: "fst (?fn v s) = (None, out)" and w': "w' = w(path := put_tables (sdTables (snd (?fn v s))) d)"
      using run step by simp_all
    obtain r1 s1 where d1: "DeleteUser (liU E) (liF E) (str_flag v ''name'') s = (r1, s1)"
      by (cases "DeleteUser (liU E) (liF E) (str_flag v ''name'') s")
    obtain r2 s2 where d2: "ForgetUser (liU E) (liF E) (str_flag v ''name'') s1 = (r2, s2)"
      by (cases "ForgetUser (liU E) (liF E) (str_flag v ''name'') s1")
    have r: "r1 = Inr ()" "r2 = Inr ()" and s2: "sdTables (snd (?fn v s)) = sdTables s2"
      using ok d1 d2 by (auto simp: store_op_def say_def split: sum.splits)
    have "sdTables s1 = (file_tables d)\<lparr>tUsers := tbl_del (\<lambda>k. k = ?n) (tUsers (file_tables d))\<rparr>"
      using atomicE [OF DeleteUser_atomic, of "liU E" "liF E" "str_flag v ''name''" s] d1 r(1) Open_ok_tables [OF o]
      by (auto simp: tbl_delete_def)
    moreover have "sdTables s2 = forget_user ?n (sdTables s1)"
      using atomicE [OF ForgetUser_atomic, of "liU E" "liF E" "str_flag v ''name''" s1] d2 r(2) by auto
    ultimately have "file_tables (w' path) = forget_user ?n ((file_tables d)\<lparr>tUsers := tbl_del (\<lambda>k. k = ?n) (tUsers (file_tables d))\<rparr>)"
      using w' s2 by simp
    then show ?thesis
      using v o w' by (intro exI [of _ v] exI [of _ path] exI [of _ ?n] exI [of _ d]) auto
  qed (use run in auto)
qed

text \<open>
  The removal is not atomic: when the user is deleted and clearing the state fails, the state stays, and trying again fails because the
  user is not found any more.
\<close>

lemma remove_user_partial:
  assumes "DeleteUser ut F name s = (Inr (), s1)" and "ForgetUser ut F name s1 = (Inl e, s2)" and "sdTables s3 = sdTables s2"
  shows "tStatus (sdTables s2) = tStatus (sdTables s) \<and> tCache (sdTables s2) = tCache (sdTables s)
    \<and> fst (DeleteUser ut no_faults name s3) = Inl (errnew (''user '' @ quote_str ut name @ '' not found''))"
proof -
  let ?n = "trim_space name"
  have s1: "sdTables s1 = (sdTables s)\<lparr>tUsers := snd (tbl_delete ?n (tUsers (sdTables s)))\<rparr>"
    using atomicE [OF DeleteUser_atomic, of ut F name s] assms(1) by auto
  have s2: "sdTables s2 = sdTables s1"
    using atomicE [OF ForgetUser_atomic, of ut F name s1] assms(2) by auto
  have "tbl_delete ?n (snd (tbl_delete ?n t)) = (0, snd (tbl_delete ?n t))" for t :: "(string, UserRow) table"
    by (induction t) (auto simp: tbl_delete_def tbl_del_def)
  then have "fst (DeleteUser ut no_faults name s3) = Inl (errnew (''user '' @ quote_str ut name @ '' not found''))"
    using s1 s2 assms(3) by (simp add: DeleteUser_def db_defs no_faults_def)
  then show ?thesis
    using s1 s2 by simp
qed

section \<open>What the daemon is started with\<close>

lemma ValidateEntities_debug: "ValidateEntities (cfg\<lparr>cDebug := b\<rparr>) = ValidateEntities cfg"
proof -
  have "check_users (cfg\<lparr>cDebug := b\<rparr>) i seen us = check_users cfg i seen us" for i seen us
    by (induction cfg i seen us rule: check_users.induct) simp_all
  then show ?thesis
    by (simp add: ValidateEntities_def cong: option.case_cong)
qed

definition valid_config :: "'p cli \<Rightarrow> Config \<Rightarrow> bool" where
  "valid_config E cfg = (validateBase (liU E) (liCert E) cfg = None \<and> ValidateEntities cfg = None \<and> applyDefaults cfg = cfg
     \<and> cWorkers cfg \<ge> 1 \<and> cFetchBatchSize cfg \<ge> 1 \<and> cHashHeader cfg \<noteq> [])"

lemma validateBase_lists: "validateBase ut cl (cfg\<lparr>cDebug := b, cUsers := us, cFolders := fs\<rparr>) = validateBase ut cl cfg"
  by (simp add: validateBase_def split del: if_split cong: option.case_cong if_cong)

lemma applyDefaults_lists:
  "applyDefaults (cfg\<lparr>cDebug := b, cUsers := us, cFolders := fs\<rparr>) = (applyDefaults cfg)\<lparr>cDebug := b, cUsers := us, cFolders := fs\<rparr>"
  by (simp add: applyDefaults_def)

lemma LoadInto_config: "LoadInto F cfg s = (Inr cfg', s') \<Longrightarrow> \<exists>us fs. cfg' = cfg\<lparr>cUsers := us, cFolders := fs\<rparr>"
  by (auto simp: LoadInto_def db_bind_def db_ret_def split: prod.splits sum.splits)

lemma valid_from:
  assumes "Load (liU E) (liCert E) (liDecode E) path = Inr cfg0" and "cfg = cfg0\<lparr>cDebug := b\<rparr>"
    and "ValidateEntities (cfg\<lparr>cUsers := us, cFolders := fs\<rparr>) = None"
  shows "valid_config E (cfg\<lparr>cUsers := us, cFolders := fs\<rparr>)"
  using Load_ok [OF assms(1)] assms(2,3) by (simp add: valid_config_def validateBase_lists applyDefaults_lists)

text \<open>C40: the daemon runs only on a valid configuration: \<^verbatim>\<open>run\<close> either fails before it is started, or it starts it once on a
  configuration with its defaults in place that passes both validations, whether the lists of users and folders come from the
  YAML file or from the database, and with at least one worker, a positive batch size and a header name for the hash.\<close>
theorem run_starts_valid:
  "\<exists>R. \<forall>daemon. case R of
      Inl (e, w') \<Rightarrow> cmdRun E daemon args w = ((Some e, []), w')
    | Inr (cfg, w') \<Rightarrow> valid_config E cfg \<and> cmdRun E daemon args w = (case daemon cfg w' of (eo, w'') \<Rightarrow> ((eo, []), w''))"
proof (cases "parse_flags (liU E) (liInt E) args [(''config'', VStr ''config.yaml''), (''debug'', VBool False)]")
  case (Inl e)
  then show ?thesis
    by (intro exI [of _ "Inl (e, w)"]) (simp add: cmdRun_def)
next
  case v: (Inr v)
  show ?thesis
  proof (cases "Load (liU E) (liCert E) (liDecode E) (str_flag v ''config'')")
    case (Inl e)
    then show ?thesis
      using v by (intro exI [of _ "Inl (CfgErr e, w)"]) (simp add: cmdRun_def)
  next
    case l: (Inr cfg0)
    define cfg where "cfg = (if bool_flag v ''debug'' then cfg0\<lparr>cDebug := True\<rparr> else cfg0)"
    then have cfg: "cfg = cfg0\<lparr>cDebug := bool_flag v ''debug'' \<or> cDebug cfg0\<rparr>"
      by simp
    define R where "R = (if cSource cfg = SourceSQLite then loadFromSQLite E cfg w else (Inr cfg, w))"
    have run: "cmdRun E daemon args w = (case R of (Inl e, w') \<Rightarrow> ((Some e, []), w')
        | (Inr cfg', w') \<Rightarrow> (case daemon cfg' w' of (eo, w'') \<Rightarrow> ((eo, []), w'')))" for daemon
      using v l by (simp add: cmdRun_def cfg_def R_def Let_def)
    have valid: "valid_config E cfg'" if res: "R = (Inr cfg', w')" for cfg' w'
    proof (cases "cSource cfg = SourceSQLite")
      case True
      then obtain us fs where "ValidateEntities cfg' = None" "cfg' = cfg\<lparr>cUsers := us, cFolders := fs\<rparr>"
        using res by (auto simp: R_def loadFromSQLite_def dest!: LoadInto_config split: prod.splits sum.splits option.splits)
      then show ?thesis
        using valid_from [OF l cfg, where us = us and fs = fs] by simp
    next
      case False
      then have "ValidateEntities (cfg\<lparr>cUsers := cUsers cfg, cFolders := cFolders cfg\<rparr>) = None"
        using Load_ok [OF l] cfg by (auto simp: ValidateEntities_debug)
      then show ?thesis
        using valid_from [OF l cfg, where us = "cUsers cfg" and fs = "cFolders cfg"] False res by (simp add: R_def)
    qed
    show ?thesis
    proof (cases R)
      case (Pair r w')
      then show ?thesis
        using run valid
        by (intro exI [of _ "case r of Inl e \<Rightarrow> Inl (e, w') | Inr cfg' \<Rightarrow> Inr (cfg', w')"]) (auto split: sum.splits)
    qed
  qed
qed

section \<open>Examples\<close>

definition cli_ex :: "nat cli" where
  "cli_ex = \<lparr>liU = ut_ex, liF = no_faults, liInt = (\<lambda>_. Inl parse_error), liFmt = (\<lambda>_. []), liFile = (\<lambda>_. Inr users_csv_ex),
     liCert = certs_ex, liDecode = (\<lambda>_. Inr cfg_ex)\<rparr>"

definition new_file :: dbfile where
  "new_file = \<lparr>dfVersion = 0, dfFolders = None, dfUsers = None, dfEndpoint = None, dfCache = None, dfStatus = None, dfRuns = None\<rparr>"


end
