(* ===== verification/SyncRun.thy ===== *)
theory SyncRun
  imports SyncSafety
begin

text \<open>
  The outcome of processing a user: the locale \<open>session_inv\<close> carries any predicate of the world that the
  primitive effects of a session keep through the whole session. Its instance counts errors: the status
  row written at the end says \<^verbatim>\<open>error\<close> exactly when something was recorded, so a user who only fails is
  stopped after \<^verbatim>\<open>max_fail_streak\<close> cycles. The last sections are on \<^verbatim>\<open>dial\<close> and on discovered folder pairs.
\<close>

section \<open>Statements of a session\<close>

text \<open>What a session does to the database: only the message cache and the endpoint rows change.\<close>

definition records :: "db \<Rightarrow> (string \<times> string, unit) table \<times> (string, UserRow) table \<times> (string, StatusRow) table \<times> (string \<times> int, RunRow) table" where
  "records d = (tFolders d, tUsers d, tStatus d, tRuns d)"

definition cache_step :: "sdb \<Rightarrow> sdb \<Rightarrow> bool" where
  "cache_step s s' = (records (sdTables s') = records (sdTables s))"

lemma cache_updates [simp]:
  "records (put_cached k msgs d) = records d" "records (del_cached k ids d) = records d"
  "records (reset_endpoint k d) = records d" "records (save_endpoint k r d) = records d"
  by (simp_all add: records_def put_cached_def del_cached_def reset_endpoint_def save_endpoint_def)

lemma cache_step_atomic: "atomic m f \<Longrightarrow> (\<And>d. records (f d) = records d) \<Longrightarrow> m s = (r, s') \<Longrightarrow> cache_step s s'"
  by (erule atomicE [where s = s]) (auto simp: cache_step_def)

lemma session_statements:
  "LoadEndpoint F user pair side s = (r0, s') \<Longrightarrow> cache_step s s'"
  "PutCachedMsgs F user pair side msgs s = (r1, s') \<Longrightarrow> cache_step s s'"
  "ResetEndpoint F user pair side s = (r2, s') \<Longrightarrow> cache_step s s'"
  "SaveEndpoint F now user pair side v t s = (r3, s') \<Longrightarrow> cache_step s s'"
  "DeleteCachedMsgs F user pair side ids s = (r4, s') \<Longrightarrow> cache_step s s'"
proof -
  show "LoadEndpoint F user pair side s = (r0, s') \<Longrightarrow> cache_step s s'"
    unfolding cache_step_def by (rule arg_cong [where f = records]) (auto simp: LoadEndpoint_def db_rows_def db_defs split: option.splits if_splits)
  show "PutCachedMsgs F user pair side msgs s = (r1, s') \<Longrightarrow> cache_step s s'"
    by (rule cache_step_atomic [OF PutCachedMsgs_atomic cache_updates(1)])
  show "ResetEndpoint F user pair side s = (r2, s') \<Longrightarrow> cache_step s s'"
    by (rule cache_step_atomic [OF ResetEndpoint_atomic cache_updates(3)])
  show "SaveEndpoint F now user pair side v t s = (r3, s') \<Longrightarrow> cache_step s s'"
    by (rule cache_step_atomic [OF SaveEndpoint_atomic cache_updates(4)])
  show "DeleteCachedMsgs F user pair side ids s = (r4, s') \<Longrightarrow> cache_step s s'"
    using DeleteCachedMsgs_outcome [where F = F and user = user and pair = pair and side = side and ids = ids and s = s]
    by (auto simp: cache_step_def split: sum.splits)
qed

section \<open>Invariants of a session\<close>

locale session_inv =
  fixes I :: "'e world \<Rightarrow> bool" and us :: sref
  assumes keep_A: "I w \<Longrightarrow> I (w\<lparr>wA := a\<rparr>)" and keep_B: "I w \<Longrightarrow> I (w\<lparr>wB := a\<rparr>)" and keep_tick: "I w \<Longrightarrow> I (w\<lparr>wTick := k\<rparr>)"
    and keep_db: "I w \<Longrightarrow> cache_step (wDB w) d \<Longrightarrow> I (w\<lparr>wDB := d\<rparr>)"
    and keep_inc: "I w \<Longrightarrow> f \<in> {IncCopiedAToB us n, IncCopiedBToA us n, IncSkippedDup us n} \<Longrightarrow> I (w\<lparr>wCol := f (wCol w)\<rparr>)"
    and keep_err: "I w \<Longrightarrow> I (w\<lparr>wCol := AddError us e (wCol w), wErrs := wErrs w @ [e]\<rparr>)"
begin

lemma keeps_prims [keeps_intros]:
  "keeps I (on_A f)" "keeps I (on_B g)" "keeps I (on_side side h)" "keeps I (ask a)" "keeps I (recordErr us e)"
  "keeps I (on_stats (IncCopiedAToB us n))" "keeps I (on_stats (IncCopiedBToA us n))" "keeps I (on_stats (IncSkippedDup us n))"
  by (auto intro!: hoareI keep_inc simp: on_A_def on_B_def on_side_def ask_def recordErr_def on_stats_def keep_A keep_B keep_tick keep_err
      split: prod.splits if_splits)

lemma keeps_db [keeps_intros]:
  "keeps I (on_db (LoadEndpoint F user pair side))" "keeps I (on_db (PutCachedMsgs F user pair side msgs))"
  "keeps I (on_db (ResetEndpoint F user pair side))" "keeps I (on_db (SaveEndpoint F now user pair side v t))"
  "keeps I (on_db (DeleteCachedMsgs F user pair side ids))"
  by (auto intro!: hoareI keep_db simp: on_db_def dest: session_statements split: prod.splits)

lemma keeps_recs [keeps_intros]: "keeps I (recordErrs us es)" "keeps I (record_failure us p r)"
proof -
  show "keeps I (recordErrs us es)"
    by (induction es) (auto intro!: keeps_intros)
  show "keeps I (record_failure us p r)"
    unfolding record_failure_def by (intro keeps_intros)
qed

lemma keeps_loops [keeps_intros]:
  assumes "ssUs sess = us"
  shows "keeps I (parse_fresh sess p ms fresh cached)" "keeps I (copy_loop sess src dst dir sF dF i ents n cache)"
proof -
  show "keeps I (parse_fresh sess p ms fresh cached)"
    by (induction ms arbitrary: fresh cached) (auto intro!: keeps_intros simp: assms split: sum.splits)
  show "keeps I (copy_loop sess src dst dir sF dF i ents n cache)"
    by (induction ents arbitrary: i n cache) (auto intro!: keeps_intros simp: copyOne_def assms)
qed

lemma keeps_syncPair [keeps_intros]: "ssUs sess = us \<Longrightarrow> keeps I (syncPair sess fp)"
  unfolding syncPair_def indexFolder_def indexFolderFull_def indexFolderIncremental_def finish_incremental_def
    copy_deltas_def copyMissing_def put_back_def
  by (simp only: Let_def, intro keeps_intros; assumption)

lemma keeps_resolveFolders [keeps_intros]: "keeps I (resolveFolders sess)"
proof -
  have "keeps I (create_missing side cf fs ps)" for side cf fs ps
    by (induction fs arbitrary: ps) (auto intro!: keeps_intros)
  then show ?thesis
    unfolding resolveFolders_def pairFolders_def by (intro keeps_intros)
qed

text \<open>The session that connecting and closing return reports to the same statistics.\<close>

lemma keeps_dial [keeps_intros]: "keeps I (dial S ctx side bk u)"
proof -
  have "keeps I (dial_loop S ctx side bk u i n e)" for i n e
    by (induction n arbitrary: i e) (auto intro!: keeps_intros)
  then show ?thesis by (simp add: dial_def)
qed

lemma close_us: "ssUs sess = us \<Longrightarrow> hoare I (close sess) (\<lambda>sess' w. ssUs sess' = us \<and> I w)"
  unfolding close_def by (intro hoare_bind [where R = "\<lambda>_. I"] keeps_intros hoare_ret) simp_all

lemma connect_us: "ssUs sess = us \<Longrightarrow> hoare I (connect sess) (\<lambda>r w. ssUs (snd r) = us \<and> I w)"
  unfolding connect_def Let_def
  by (simp, intro hoare_bind [OF keeps_dial] hoare_sum hoare_bind [OF keeps_prims(5)] hoare_bind [OF keeps_prims(1)] hoare_ret) simp_all

lemma reconnect_us: "ssUs sess = us \<Longrightarrow> hoare I (reconnect sess) (\<lambda>r w. ssUs (snd r) = us \<and> I w)"
  unfolding reconnect_def by (intro hoare_bind [OF close_us] hoare_fact connect_us)

lemma sync_pairs_us: "ssUs sess = us \<Longrightarrow> hoare I (sync_pairs sess fps) (\<lambda>sess' w. ssUs sess' = us \<and> I w)"
proof (induction fps arbitrary: sess)
  case (Cons fp fps)
  show ?case
    unfolding sync_pairs.simps Cons.prems
    by (intro hoare_bind [OF keeps_prims(4)] hoare_bind [OF keeps_prims(5)] hoare_cases hoare_bind [OF keeps_syncPair]
        hoare_bind [OF reconnect_us] hoare_fact hoare_ret Cons.IH)
      (auto simp: Cons.prems)
qed (simp add: hoare_ret)

lemma record_us: "ssUs sess = us \<Longrightarrow> hoare I (do { recordErr us e; ret sess }) (\<lambda>sess' w. ssUs sess' = us \<and> I w)"
  by (intro hoare_bind [OF keeps_prims(5)] hoare_ret) simp

lemma keeps_sync_session:
  assumes "ssUs sess0 = us"
  shows "keeps I (sync_session sess0)"
  unfolding sync_session_def
  by (intro hoare_bind [OF connect_us] hoare_fact hoare_if hoare_prod keeps_ret hoare_bind [OF keeps_resolveFolders]
      hoare_bind [where R = "\<lambda>sess' w. ssUs sess' = us \<and> I w", OF hoare_sum] hoare_bind [OF close_us]
      sync_pairs_us hoare_ret assms)
    (simp_all add: record_us)

end

section \<open>Counting errors\<close>

text \<open>Since the errors \<open>es\<close>, the counter of \<open>us\<close> has counted every recorded one, and the status rows are as they were.\<close>

definition counts :: "sref \<Rightarrow> goerr list \<Rightarrow> (string, StatusRow) table \<Rightarrow> 'e world \<Rightarrow> bool" where
  "counts us es st w = (us < length (colHeap (wCol w)) \<and> prefix es (wErrs w)
     \<and> kErrors (suC (colHeap (wCol w) ! us)) = of_nat (length (wErrs w) - length es) \<and> tStatus (sdTables (wDB w)) = st)"

interpretation counting: session_inv "counts us es st" us for us es st
  by unfold_locales
    (auto simp: counts_def cache_step_def records_def IncCopiedAToB_def IncCopiedBToA_def IncSkippedDup_def AddError_def upd_user_def of_nat_Suc Suc_diff_le dest: prefix_length_le)

lemma sint_of_nat_pos: "k < 2 ^ 63 \<Longrightarrow> sint (of_nat k :: 64 word) = int k"
  by (simp add: signed_of_nat signed_take_bit_int_eq_self)

lemma BeginUser_fresh:
  assumes "map_of (colByName c) name = None" "BeginUser t name c = (us, c')"
  shows "us < length (colHeap c') \<and> kErrors (suC (colHeap c' ! us)) = 0"
  using assms by (auto simp: BeginUser_def upd_user_def new_user_def zero_counters_def Let_def)

lemma EndUser_errors: "kErrors (suC (colHeap (EndUser t p c) ! us)) = kErrors (suC (colHeap c ! us))"
  by (cases "us < length (colHeap c)"; cases "us = p") (auto simp: EndUser_def upd_user_def list_update_beyond)

lemma RecordRun_ok: "\<exists>s'. RecordRun (\<lambda>_. None) user r s = (Inr (), s') \<and> sdTables s' = record_run user r (sdTables s)"
proof -
  have "fst (RecordRun (\<lambda>_. None) user r s) = Inr ()"
    by (simp add: RecordRun_def db_tx_def db_defs)
  then obtain s' where "RecordRun (\<lambda>_. None) user r s = (Inr (), s')"
    by (metis prod.collapse)
  then show ?thesis
    using RecordRun_atomic [of "\<lambda>_. None" user r] by (auto elim!: atomicE [where s = s])
qed

section \<open>The recorded outcome\<close>

text \<open>The error streak of a user in the status table.\<close>

definition streak :: "string \<Rightarrow> db \<Rightarrow> int" where
  "streak name d = (case map_of (tStatus d) name of None \<Rightarrow> 0 | Some r \<Rightarrow> srFailStreak r)"

definition stopped :: "'e Syncer \<Rightarrow> string \<Rightarrow> db \<Rightarrow> bool" where
  "stopped S name d = (yState S \<and> cMaxFailStreak (yCfg S) > 0 \<and> streak name d \<ge> cMaxFailStreak (yCfg S))"

lemma userStopped_run:
  assumes "run_state (userStopped S name) w = (b, v)" "evFaults (yEnv S) = (\<lambda>_. None)"
  shows "b = stopped S name (sdTables (wDB w)) \<and> sdTables (wDB v) = sdTables (wDB w) \<and> wA v = wA w \<and> wB v = wB w
    \<and> wCol v = wCol w \<and> wErrs v = wErrs w"
  using assms
  by (auto simp: userStopped_def stopped_def streak_def UserStatusOf_def scanUserStatus_def on_db_def db_defs split: if_splits option.splits)

lemma tStatus_record_run:
  "tStatus (record_run user r d) = AList.update user (case map_of (tStatus d) user of None \<Rightarrow> first_status r | Some old \<Rightarrow> next_status r old) (tStatus d)"
  by (simp add: record_run_def trim_runs_def put_status_def put_run_def)

lemma streak_record_run:
  assumes "rStatus r \<noteq> []"
  shows "streak name (record_run user r d) = (if name \<noteq> user then streak name d else if rStatus r = ''error'' then streak user d + 1 else 0)"
  using assms by (auto simp: streak_def tStatus_record_run update_conv' first_status_def next_status_def run_failed_def run_status_def Let_def split: option.splits)

lemma persist_errs: "run_state (persistStatus S name us) w = (x, w') \<Longrightarrow> wErrs w' = wErrs w"
  by (auto simp: persistStatus_def get_stats_def on_db_def ask_def split: if_splits prod.splits)

lemma persistStatus_run:
  assumes "run_state (persistStatus S name us) w = ((), w')" "evFaults (yEnv S) = (\<lambda>_. None)" "yState S"
    "kErrors (suC (colHeap (wCol w) ! us)) = of_nat k" "k < 2 ^ 63"
  shows "streak n (sdTables (wDB w')) = (if n \<noteq> name then streak n (sdTables (wDB w)) else if k = 0 then 0 else streak name (sdTables (wDB w)) + 1)
    \<and> wErrs w' = wErrs w \<and> wCol w' = wCol w"
proof -
  let ?r = "ReportOf us (wCol w)"
  define run where "run at = \<lparr>rAt = at, rStatus = (if sint (repErrors ?r) > 0 then ''error'' else ''ok''),
     rCopiedAToB = sint (repCopiedAToB ?r), rCopiedBToA = sint (repCopiedBToA ?r),
     rSkippedDup = sint (repSkippedDup ?r), rErrors = sint (repErrors ?r), rLastError = repLastErr ?r\<rparr>" for at
  obtain at v where v: "run_state (clock S) w = (at, v)"
    by (cases "run_state (clock S) w")
  obtain d where d: "RecordRun (\<lambda>_. None) name (run at) (wDB w) = (Inr (), d)" "sdTables d = record_run name (run at) (sdTables (wDB w))"
    using RecordRun_ok by blast
  have "wDB v = wDB w" "wErrs v = wErrs w" "wCol v = wCol w"
    using v by (auto simp: ask_def)
  then have "w' = v\<lparr>wDB := d\<rparr>"
    using assms(1-3) v d(1) by (simp add: persistStatus_def get_stats_def on_db_def run_def)
  moreover have "rStatus (run at) = (if k = 0 then ''ok'' else ''error'')"
    using assms(4) sint_of_nat_pos [OF assms(5)] by (simp add: run_def ReportOf_def user_snapshot_def)
  ultimately show ?thesis
    using d(2) streak_record_run [of "run at" n name] \<open>wErrs v = wErrs w\<close> \<open>wCol v = wCol w\<close> by simp
qed

text \<open>The session of a run counts its errors and leaves the status rows alone.\<close>

lemma session_counts:
  assumes "run_state (sync_session sess) w = (x, w')" "ssUs sess = us" "us < length (colHeap (wCol w))" "kErrors (suC (colHeap (wCol w) ! us)) = 0"
  shows "kErrors (suC (colHeap (wCol w') ! us)) = of_nat (length (wErrs w') - length (wErrs w))
    \<and> prefix (wErrs w) (wErrs w') \<and> tStatus (sdTables (wDB w')) = tStatus (sdTables (wDB w))"
  using hoareD [OF counting.keeps_sync_session [OF assms(2)] _ assms(1), of "wErrs w" "tStatus (sdTables (wDB w))"] assms(3,4)
  by (simp add: counts_def)

lemma SyncUser_outcome:
  assumes run: "run_state (SyncUser S ctx u) w = ((), w')" and st: "yState S" "evFaults (yEnv S) = (\<lambda>_. None)"
    and go: "\<not> stopped S (uName u) (sdTables (wDB w))" and new: "map_of (colByName (wCol w)) (uName u) = None"
    and bound: "length (wErrs w') < 2 ^ 63"
  shows "streak n (sdTables (wDB w')) = (if n \<noteq> uName u then streak n (sdTables (wDB w))
      else if wErrs w' = wErrs w then 0 else streak (uName u) (sdTables (wDB w)) + 1)"
proof -
  obtain b w1 where 1: "run_state (userStopped S (uName u)) w = (b, w1)"
    by (cases "run_state (userStopped S (uName u)) w")
  note s1 = userStopped_run [OF 1 st(2)]
  obtain t0 w2 where 2: "run_state (clock S) w1 = (t0, w2)"
    by (cases "run_state (clock S) w1")
  obtain us c where 3: "BeginUser t0 (uName u) (wCol w2) = (us, c)"
    by (cases "BeginUser t0 (uName u) (wCol w2)")
  let ?sess = "\<lparr>ssS = S, ssCtx = ctx, ssU = u, ssUs = us, ssA = None, ssB = None\<rparr>"
  obtain x w4 where 4: "run_state (sync_session ?sess) (w2\<lparr>wCol := c\<rparr>) = (x, w4)"
    by (cases "run_state (sync_session ?sess) (w2\<lparr>wCol := c\<rparr>)")
  obtain t1 w5 where 5: "run_state (clock S) w4 = (t1, w5)"
    by (cases "run_state (clock S) w4")
  have 6: "run_state (persistStatus S (uName u) us) (w5\<lparr>wCol := EndUser t1 us (wCol w5)\<rparr>) = ((), w')"
    using run s1 go 1 2 3 4 5 by (simp add: SyncUser_def on_stats_def)
  have w2: "wDB w2 = wDB w1" "wErrs w2 = wErrs w1" "wCol w2 = wCol w1" and w5: "wDB w5 = wDB w4" "wErrs w5 = wErrs w4" "wCol w5 = wCol w4"
    using 2 5 by (auto simp: ask_def)
  have "us < length (colHeap c) \<and> kErrors (suC (colHeap c ! us)) = 0"
    using BeginUser_fresh [OF _ 3] new s1 w2 by simp
  then have c: "kErrors (suC (colHeap (wCol w4) ! us)) = of_nat (length (wErrs w4) - length (wErrs w))" "prefix (wErrs w) (wErrs w4)"
    "tStatus (sdTables (wDB w4)) = tStatus (sdTables (wDB w))"
    using session_counts [OF 4] s1 w2 by simp_all
  have k: "kErrors (suC (colHeap (wCol (w5\<lparr>wCol := EndUser t1 us (wCol w5)\<rparr>)) ! us)) = of_nat (length (wErrs w4) - length (wErrs w))"
    using c(1) w5 by (simp add: EndUser_errors)
  have e4: "wErrs w' = wErrs w4"
    using persist_errs [OF 6] w5 by simp
  then have "length (wErrs w4) - length (wErrs w) < 2 ^ 63"
    using bound by simp
  note p = persistStatus_run [OF 6 st(2,1) k this, of n]
  have "(length (wErrs w4) - length (wErrs w) = 0) = (wErrs w' = wErrs w)"
    using e4 c(2) by (auto simp: prefix_def)
  then show ?thesis
    using p c(3) w5 by (simp add: streak_def)
qed

text \<open>A stopped user is left alone.\<close>

lemma stopped_noop:
  assumes "run_state (SyncUser S ctx u) w = ((), w')" "evFaults (yEnv S) = (\<lambda>_. None)" "stopped S (uName u) (sdTables (wDB w))"
  shows "wA w' = wA w \<and> wB w' = wB w \<and> sdTables (wDB w') = sdTables (wDB w) \<and> wCol w' = wCol w \<and> wErrs w' = wErrs w"
proof -
  obtain b w1 where 1: "run_state (userStopped S (uName u)) w = (b, w1)"
    by (cases "run_state (userStopped S (uName u)) w")
  note s1 = userStopped_run [OF 1 assms(2)]
  then have "w' = w1"
    using assms(1,3) 1 by (simp add: SyncUser_def)
  with s1 show ?thesis by blast
qed

text \<open>A user's part of a cycle: \<^verbatim>\<open>RunCycle\<close> begins by clearing the statistics.\<close>

definition user_cycle :: "time \<Rightarrow> 'e Syncer \<Rightarrow> gctx \<Rightarrow> User \<Rightarrow> ('e, unit) sync" where
  "user_cycle t S ctx u = do { on_stats (BeginCycle t); SyncUser S ctx u }"

lemma failing_cycle:
  assumes run: "run_state (user_cycle t S ctx u) w = ((), w')" and st: "yState S" "evFaults (yEnv S) = (\<lambda>_. None)"
    and fail: "wErrs w' \<noteq> wErrs w" and bound: "length (wErrs w') < 2 ^ 63"
  shows "streak (uName u) (sdTables (wDB w')) = streak (uName u) (sdTables (wDB w)) + 1"
proof -
  let ?v = "w\<lparr>wCol := BeginCycle t (wCol w)\<rparr>"
  have r: "run_state (SyncUser S ctx u) ?v = ((), w')"
    using run by (simp add: user_cycle_def on_stats_def)
  have "\<not> stopped S (uName u) (sdTables (wDB ?v))"
    using stopped_noop [OF r st(2)] fail by auto
  moreover have "map_of (colByName (wCol ?v)) (uName u) = None"
    by (simp add: BeginCycle_def)
  ultimately show ?thesis
    using SyncUser_outcome [OF r st, of "uName u"] fail bound by simp
qed

text \<open>C9: a user who only fails is stopped: with a limit on the error streak and a working database, after as many failing
  cycles as the limit says, processing the user does nothing at all: no connection, no message, no statistics,
  no write to the database.\<close>
theorem failing_user_is_stopped:
  assumes "yState S" and "evFaults (yEnv S) = (\<lambda>_. None)" and "0 < cMaxFailStreak (yCfg S)"
    and "0 \<le> streak (uName u) (sdTables (wDB (ws 0)))"
    and "\<forall>i < nat (cMaxFailStreak (yCfg S)). run_state (user_cycle (t i) S (ctx i) u) (ws i) = ((), ws (Suc i))
      \<and> wErrs (ws (Suc i)) \<noteq> wErrs (ws i) \<and> length (wErrs (ws (Suc i))) < 2 ^ 63"
    and "w = ws (nat (cMaxFailStreak (yCfg S)))" and "run_state (SyncUser S cx u) w = ((), w')"
  shows "wA w' = wA w \<and> wB w' = wB w \<and> wCol w' = wCol w \<and> wErrs w' = wErrs w \<and> sdTables (wDB w') = sdTables (wDB w)"
proof -
  have "int i \<le> streak (uName u) (sdTables (wDB (ws i)))" if "i \<le> nat (cMaxFailStreak (yCfg S))" for i
    using that
  proof (induction i)
    case 0
    then show ?case using assms(4) by simp
  next
    case (Suc i)
    then show ?case
      using failing_cycle [OF _ assms(1,2), of "t i" "ctx i" u "ws i" "ws (Suc i)"] assms(5) by simp
  qed
  then have "stopped S (uName u) (sdTables (wDB w))"
    using assms(1,3,6) by (fastforce simp: stopped_def)
  then show ?thesis
    using stopped_noop [OF assms(7,2)] by simp
qed

definition down_ex :: "unit Backend" where
  "down_ex = \<lparr>bConnect = (\<lambda>_ s. (Inl (errnew ''login failed''), s)), bAddr = ''h:993''\<rparr>"

definition down_syncer_ex :: "unit Syncer" where
  "down_syncer_ex = \<lparr>yCfg = cfg_ex\<lparr>cMaxFailStreak := 1, cConnectRetries := 0\<rparr>, yState = True, yBackendA = down_ex, yBackendB = down_ex,
     yDirAToB = True, yDirBToA = True, yEnv = senv_ex\<rparr>"

definition down_world_ex :: "unit world" where
  "down_world_ex = \<lparr>wA = (), wB = (), wDB = \<lparr>sdTables = empty_db, sdTick = 0\<rparr>, wCol = NewCollector, wErrs = [], wTick = 0\<rparr>"

lemma down_cycle_ex:
  "\<exists>w'. run_state (user_cycle 5 down_syncer_ex ctx_ex (usr_ex ''u'')) down_world_ex = ((), w') \<and> length (wErrs w') = 1"
proof -
  have "run_state (dial down_syncer_ex ctx_ex ''a'' down_ex user) w = (Inl (errnew ''login failed''), w)" for w user
    by (simp add: dial_def attempts_def down_syncer_ex_def int64_def down_ex_def on_side_def on_A_def isConnErr_def errnew_def
        connErrTexts_def str_contains_def)
  then have d: "run_state (dial down_syncer_ex ctx_ex ''a'' (yBackendA down_syncer_ex) user) w = (Inl (errnew ''login failed''), w)" for w user
    by (simp add: down_syncer_ex_def)
  have sel: "yState down_syncer_ex" "evFaults (yEnv down_syncer_ex) = (\<lambda>_. None)" "cMaxFailStreak (yCfg down_syncer_ex) = 1"
    by (simp_all add: down_syncer_ex_def senv_ex_def)
  let ?v = "down_world_ex\<lparr>wCol := BeginCycle 5 (wCol down_world_ex)\<rparr>" and ?u = "usr_ex ''u''"
  obtain b v1 where 1: "run_state (userStopped down_syncer_ex (uName ?u)) ?v = (b, v1)"
    by (cases "run_state (userStopped down_syncer_ex (uName ?u)) ?v")
  have b: "\<not> b" "wErrs v1 = []"
    using userStopped_run [OF 1 sel(2)] sel(3) by (auto simp: stopped_def streak_def down_world_ex_def empty_db_def)
  obtain us c where 2: "BeginUser (evNow (yEnv down_syncer_ex) (wTick v1)) (uName ?u) (wCol v1) = (us, c)"
    by (cases "BeginUser (evNow (yEnv down_syncer_ex) (wTick v1)) (uName ?u) (wCol v1)")
  let ?sess = "\<lparr>ssS = down_syncer_ex, ssCtx = ctx_ex, ssU = ?u, ssUs = us, ssA = None, ssB = None\<rparr>"
  have sess: "\<exists>e c'. run_state (sync_session ?sess) x = ((), x\<lparr>wCol := c', wErrs := wErrs x @ [e]\<rparr>)" for x
    by (simp add: sync_session_def connect_def Let_def d recordErr_def) blast
  obtain e c' where 3: "run_state (sync_session ?sess) (v1\<lparr>wTick := Suc (wTick v1), wCol := c\<rparr>)
      = ((), v1\<lparr>wTick := Suc (wTick v1), wCol := c', wErrs := [e]\<rparr>)"
    using sess [of "v1\<lparr>wTick := Suc (wTick v1), wCol := c\<rparr>"] b(2) by auto
  obtain w' where w': "run_state (user_cycle 5 down_syncer_ex ctx_ex ?u) down_world_ex = ((), w')"
    by (metis old.unit.exhaust surj_pair)
  then have "\<exists>x. run_state (persistStatus down_syncer_ex (uName ?u) us) x = ((), w') \<and> wErrs x = [e]"
    using 1 b 2 3 by (auto simp: user_cycle_def SyncUser_def on_stats_def ask_def)
  then show ?thesis
    using w' persist_errs by fastforce
qed

theorem failing_user_is_stopped_witness:
  "\<exists>w w'. run_state (user_cycle 5 down_syncer_ex ctx_ex (usr_ex ''u'')) down_world_ex = ((), w) \<and> wErrs w \<noteq> []
     \<and> run_state (SyncUser down_syncer_ex ctx_ex (usr_ex ''u'')) w = ((), w') \<and> wErrs w' = wErrs w \<and> sdTables (wDB w') = sdTables (wDB w)"
proof -
  obtain w where w: "run_state (user_cycle 5 down_syncer_ex ctx_ex (usr_ex ''u'')) down_world_ex = ((), w)" "length (wErrs w) = 1"
    using down_cycle_ex by blast
  obtain w' where w': "run_state (SyncUser down_syncer_ex ctx_ex (usr_ex ''u'')) w = ((), w')"
    by (metis old.unit.exhaust surj_pair)
  define ws where "ws i = (if i = 0 then down_world_ex else w)" for i :: nat
  have n: "nat (cMaxFailStreak (yCfg down_syncer_ex)) = 1"
    by (simp add: down_syncer_ex_def)
  have "wErrs down_world_ex = []" "0 \<le> streak (uName (usr_ex ''u'')) (sdTables (wDB down_world_ex))"
    by (simp_all add: down_world_ex_def streak_def empty_db_def)
  then have "wA w' = wA w \<and> wB w' = wB w \<and> wCol w' = wCol w \<and> wErrs w' = wErrs w \<and> sdTables (wDB w') = sdTables (wDB w)"
    using w n by (intro failing_user_is_stopped [where ws = ws and t = "\<lambda>_. 5" and ctx = "\<lambda>_. ctx_ex", OF _ _ _ _ _ _ w'])
      (auto simp: ws_def down_syncer_ex_def senv_ex_def)
  then show ?thesis
    using w w' by auto
qed

section \<open>Connection attempts\<close>

text \<open>The state of a side after \<open>j\<close> attempts to connect, and whether the next attempt fails with a transient error.\<close>

definition after_attempts :: "'e Backend \<Rightarrow> string \<Rightarrow> nat \<Rightarrow> 'e \<Rightarrow> 'e" where
  "after_attempts bk user j s = ((\<lambda>s. snd (bConnect bk user s)) ^^ j) s"

lemma after_Suc: "after_attempts bk user j (snd (bConnect bk user s)) = after_attempts bk user (Suc j) s"
  by (simp add: after_attempts_def funpow_Suc_right del: funpow.simps)

definition transient :: "'e Backend \<Rightarrow> string \<Rightarrow> 'e \<Rightarrow> bool" where
  "transient bk user s = (case fst (bConnect bk user s) of Inl e \<Rightarrow> isConnErr (Some e) | Inr _ \<Rightarrow> False)"

abbreviation side_of :: "string \<Rightarrow> 'e world \<Rightarrow> 'e" where
  "side_of side w \<equiv> (if side = ''b'' then wB w else wA w)"

lemma run_attempt: "\<exists>w'. run_state (on_side side f) w = (fst (f (side_of side w)), w') \<and> side_of side w' = snd (f (side_of side w))"
  by (simp add: on_side_def on_A_def on_B_def case_prod_beta)

lemma dial_loop_outcome:
  assumes ctx: "\<And>d t. cxWait ctx d t = None"
  shows "k < n \<Longrightarrow> \<forall>j<k. transient bk user (after_attempts bk user j (side_of side w)) \<Longrightarrow>
      k = n - 1 \<or> \<not> transient bk user (after_attempts bk user k (side_of side w)) \<Longrightarrow>
    \<exists>w'. run_state (dial_loop S ctx side bk user i n e) w = (fst (bConnect bk user (after_attempts bk user k (side_of side w))), w')
      \<and> side_of side w' = after_attempts bk user (Suc k) (side_of side w)"
proof (induction n arbitrary: i e k w)
  case (Suc n)
  obtain v where v: "run_state (if i > 0 then ask (cxWait ctx (backoff S i)) else ret None) w = (None, v)" "side_of side v = side_of side w"
    by (cases "i > 0") (auto simp: ask_def ctx intro!: that)
  obtain v' where v': "run_state (on_side side (bConnect bk user)) v = (fst (bConnect bk user (side_of side w)), v')"
    "side_of side v' = snd (bConnect bk user (side_of side w))"
    using run_attempt [of side "bConnect bk user" v] v(2) by auto
  have step: "after_attempts bk user j (side_of side v') = after_attempts bk user (Suc j) (side_of side w)" for j
    unfolding v'(2) by (rule after_Suc)
  have run: "run_state (dial_loop S ctx side bk user i (Suc n) e) w = run_state (case fst (bConnect bk user (side_of side w)) of
      Inr ep \<Rightarrow> ret (Inr ep) | Inl e \<Rightarrow> if isConnErr (Some e) then dial_loop S ctx side bk user (Suc i) n e else ret (Inl e)) v'"
    using v v' by simp
  show ?case
  proof (cases "k = 0")
    case True
    show ?thesis
      using Suc.prems(3) True run v'(2)
      by (auto simp: after_attempts_def transient_def split: sum.splits)
  next
    case False
    then obtain k' where k: "k = Suc k'"
      by (cases k) auto
    obtain e' where e': "fst (bConnect bk user (side_of side w)) = Inl e'" "isConnErr (Some e')"
      using Suc.prems(2) [rule_format, of 0] k by (auto simp: transient_def after_attempts_def split: sum.splits)
    have "\<exists>w'. run_state (dial_loop S ctx side bk user (Suc i) n e') v' = (fst (bConnect bk user (after_attempts bk user k' (side_of side v'))), w')
      \<and> side_of side w' = after_attempts bk user (Suc k') (side_of side v')"
      using Suc.prems k by (intro Suc.IH) (auto simp: step)
    then show ?thesis
      using run e' by (simp add: step k)
  qed
qed simp

text \<open>C10: connecting is retried exactly while it makes sense: unless the context is cancelled, \<open>dial\<close> answers with the first
  attempt that does not fail with a transient error, or with the last of the allowed
  \<open>connect_retries + 1\<close> attempts when all of them do, and makes no attempt after that one.\<close>
theorem dial_outcome:
  assumes "\<forall>d t. cxWait ctx d t = None" and "k < attempts S"
    and "\<forall>j<k. transient bk user (after_attempts bk user j (side_of side w))"
    and "k = attempts S - 1 \<or> \<not> transient bk user (after_attempts bk user k (side_of side w))"
  shows "\<exists>w'. run_state (dial S ctx side bk user) w = (fst (bConnect bk user (after_attempts bk user k (side_of side w))), w')
    \<and> side_of side w' = after_attempts bk user (Suc k) (side_of side w)"
  unfolding dial_def using dial_loop_outcome [OF _ assms(2-4)] assms(1) by blast

text \<open>A backend that is refused twice and then rejects the login; its state counts the attempts.\<close>

definition flaky_ex :: "nat Backend" where
  "flaky_ex = \<lparr>bConnect = (\<lambda>_ s. (if s < 2 then Inl (errnew ''dial tcp: connection refused'') else Inl (errnew ''login failed''), Suc s)), bAddr = ''h:993''\<rparr>"

definition flaky_syncer_ex :: "nat Syncer" where
  "flaky_syncer_ex = \<lparr>yCfg = cfg_ex\<lparr>cConnectRetries := 3\<rparr>, yState = False, yBackendA = flaky_ex, yBackendB = flaky_ex,
     yDirAToB = True, yDirBToA = True, yEnv = senv_ex\<rparr>"

definition flaky_world_ex :: "nat world" where
  "flaky_world_ex = \<lparr>wA = 0, wB = 0, wDB = \<lparr>sdTables = empty_db, sdTick = 0\<rparr>, wCol = NewCollector, wErrs = [], wTick = 0\<rparr>"

theorem dial_outcome_witness:
  "\<exists>w'. run_state (dial flaky_syncer_ex ctx_ex ''a'' flaky_ex ''u'') flaky_world_ex = (Inl (errnew ''login failed''), w') \<and> wA w' = 3"
proof -
  have after: "after_attempts flaky_ex ''u'' j s = s + j" for j s
    by (induction j) (simp_all add: after_attempts_def flaky_ex_def)
  have t: "transient flaky_ex ''u'' s = (s < 2)" for s
    by (simp add: transient_def flaky_ex_def isConnErr_def errnew_def connErrTexts_def str_contains_def)
  have "attempts flaky_syncer_ex = 4"
    by (simp add: attempts_def flaky_syncer_ex_def int64_def)
  then show ?thesis
    using dial_outcome [of ctx_ex 2 flaky_syncer_ex flaky_ex "''u''" "''a''" flaky_world_ex]
    by (simp add: after t flaky_world_ex_def ctx_ex_def) (simp add: flaky_ex_def)
qed

section \<open>Discovered pairs\<close>

text \<open>An endpoint whose \<^verbatim>\<open>CreateFolder\<close> succeeds on a folder that exists, as the Maildir's does.\<close>

definition creating_ex :: "unit Endpoint" where
  "creating_ex = \<lparr>epSelect = (\<lambda>n s. (Inr (n, []), s)), epListIDs = Pair (Inr []), epFetchMeta = (\<lambda>_. Pair (Inr [])),
     epOpen = (\<lambda>_. Pair (Inl (errnew []))), epAppend = (\<lambda>_ _ _. Pair (Inl (errnew []))), epReadOnly = False, epClose = id,
     epListFolders = None, epCreateFolder = Some (\<lambda>_. Pair None)\<rparr>"

definition creating_sess_ex :: "unit session" where
  "creating_sess_ex = \<lparr>ssS = down_syncer_ex, ssCtx = ctx_ex, ssU = usr_ex ''u'', ssUs = 0, ssA = Some creating_ex, ssB = Some creating_ex\<rparr>"

lemma sent_folders_ex:
  "matchFolders ut_ex (filterFolders ut_ex [fld ''Sent Items'' (bslash ''Sent''), fld ''Sent'' []] []) (filterFolders ut_ex [fld ''Sent'' (bslash ''Sent'')] [])
     = ([\<lparr>fpA = ''Sent Items'', fpB = ''Sent''\<rparr>], [fld ''Sent'' []], [])"
  by (simp add: filterFolders_def fld_def matchFolders_def match_indices_def special_match_def name_match_def bslash_def upt_rec)

lemma creating_sess_ex_sel:
  "fiName (fld n sp) = n"
  "yUT (ssS creating_sess_ex) = ut_ex" "cFolderExclude (yCfg (ssS creating_sess_ex)) = []" "allowAToB creating_sess_ex" "allowBToA creating_sess_ex"
  "epCreateFolder (the (ssA creating_sess_ex)) = Some (\<lambda>_. Pair None)" "epCreateFolder (the (ssB creating_sess_ex)) = Some (\<lambda>_. Pair None)"
  by (simp_all add: fld_def creating_sess_ex_def creating_ex_def down_syncer_ex_def cfg_ex_def senv_ex_def lib_ex_def allowAToB_def allowBToA_def)

text \<open>Discovery can pair one folder twice: \<^verbatim>\<open>matchFolders\<close> uses every folder at most once, but for a folder left over on A
  \<^verbatim>\<open>pairFolders\<close> creates the folder of the same name on B without looking whether B already has
  it in a pair. With \<^verbatim>\<open>Sent Items\<close> (the SPECIAL-USE \<^verbatim>\<open>Sent\<close> folder) and a plain folder \<^verbatim>\<open>Sent\<close> on A, and a SPECIAL-USE folder
  \<^verbatim>\<open>Sent\<close> on B, both folders of A are synchronized with the same folder of B.\<close>
theorem pairFolders_reuses_folder:
  "\<exists>ps w. run_state (pairFolders creating_sess_ex [fld ''Sent Items'' (bslash ''Sent''), fld ''Sent'' []] [fld ''Sent'' (bslash ''Sent'')]) down_world_ex = (ps, w)
     \<and> map fpA ps = [''Sent Items'', ''Sent''] \<and> map fpB ps = [''Sent'', ''Sent'']"
  by (simp add: pairFolders_def Let_def creating_sess_ex_sel sent_folders_ex on_side_def on_B_def)

end
