(* ===== verification/Pool.thy ===== *)
theory Pool
  imports SyncRun "HOL-Library.Multiset"
begin

text \<open>
  The worker pool (\<^verbatim>\<open>internal/syncer/pool.go\<close>). A cycle is a step relation on the state of the feeder, the
  unbuffered channel and the workers, so that every scheduling of the goroutines and every moment of a
  cancellation is covered; the loop over cycles is a big-step relation. A worker takes a user in one step
  and finishes it in another; the work itself is one atomic step on the world, as the users of a cycle
  share only their rows of the database and the counters of the statistics. The effect of the work is a
  parameter of the relation, as \<^verbatim>\<open>userSyncer\<close> is an interface.
\<close>

section \<open>The pool\<close>

record 'e Pool =
  pCfg :: Config
  pSync :: "'e Syncer"
  pReload :: bool               \<comment> \<open>reloadSrc != nil\<close>

definition NewPool :: "env \<Rightarrow> (Server \<Rightarrow> 'e Backend result) \<Rightarrow> Config \<Rightarrow> bool \<Rightarrow> 'e Pool result" where
  "NewPool env mk cfg st =
     (case NewWithState env mk cfg st of Inl e \<Rightarrow> Inl e
      | Inr S \<Rightarrow> Inr \<lparr>pCfg = cfg, pSync = S, pReload = (cSource cfg = SourceSQLite \<and> st)\<rparr>)"

text \<open>The synchronizer and the pool share the configuration object, so the synchronizer sees reloaded lists.\<close>

definition pool_syncer :: "'e Pool \<Rightarrow> 'e Syncer" where
  "pool_syncer p = (pSync p)\<lparr>yCfg := pCfg p\<rparr>"

definition reload :: "'e Pool \<Rightarrow> ('e, 'e Pool) sync" where
  "reload p =
     (if \<not> pReload p then ret p
      else do {
        ru \<leftarrow> on_db (ListUsers (evFaults (yEnv (pSync p))));
        case ru of
          Inl _ \<Rightarrow> ret p
        | Inr users \<Rightarrow> do {
            rf \<leftarrow> on_db (ListFolderPairs (evFaults (yEnv (pSync p))));
            case rf of
              Inl _ \<Rightarrow> ret p
            | Inr folders \<Rightarrow> ret (p\<lparr>pCfg := (pCfg p)\<lparr>cUsers := users, cFolders := folders\<rparr>\<rparr>) } })"

definition workers :: "Config \<Rightarrow> int" where
  "workers cfg =
     (let w = cWorkers cfg; w1 = (if w > int (length (cUsers cfg)) then int (length (cUsers cfg)) else w)
      in if w1 < 1 then 1 else w1)"

section \<open>A cycle\<close>

datatype wstate = Idle | Busy User | Exited

record 'w cycle =
  cyFeed :: "User list"         \<comment> \<open>users the feeder has not sent yet\<close>
  cyOpen :: bool                \<comment> \<open>the channel is open\<close>
  cyWorkers :: "wstate list"
  cyDone :: bool                \<comment> \<open>ctx.Done() is closed\<close>
  cyStarted :: "User list"
  cyFinished :: "User list"
  cyWorld :: 'w

definition start_cycle :: "Config \<Rightarrow> bool \<Rightarrow> 'w \<Rightarrow> 'w cycle" where
  "start_cycle cfg done w = \<lparr>cyFeed = cUsers cfg, cyOpen = True, cyWorkers = replicate (nat (workers cfg)) Idle, cyDone = done,
     cyStarted = [], cyFinished = [], cyWorld = w\<rparr>"

text \<open>
  \<open>send\<close> is the rendezvous of the feeder with a waiting worker, \<open>stop\<close> the branch of the \<^verbatim>\<open>select\<close> that
  breaks the feed loop, \<open>fed\<close> its end; after both the channel is closed. \<open>exit\<close> is the end of a worker's
  range loop on the closed channel. \<open>cancel\<close> is the environment.
\<close>

inductive cycle_step :: "(User \<Rightarrow> 'w \<Rightarrow> 'w) \<Rightarrow> 'w cycle \<Rightarrow> 'w cycle \<Rightarrow> bool" for sync :: "User \<Rightarrow> 'w \<Rightarrow> 'w" where
  send: "cyOpen c \<Longrightarrow> cyFeed c = u # us \<Longrightarrow> i < length (cyWorkers c) \<Longrightarrow> cyWorkers c ! i = Idle \<Longrightarrow>
    cycle_step sync c (c\<lparr>cyFeed := us, cyWorkers := (cyWorkers c)[i := Busy u], cyStarted := cyStarted c @ [u]\<rparr>)"
| stop: "cyOpen c \<Longrightarrow> cyFeed c \<noteq> [] \<Longrightarrow> cyDone c \<Longrightarrow> cycle_step sync c (c\<lparr>cyOpen := False\<rparr>)"
| fed: "cyOpen c \<Longrightarrow> cyFeed c = [] \<Longrightarrow> cycle_step sync c (c\<lparr>cyOpen := False\<rparr>)"
| work: "i < length (cyWorkers c) \<Longrightarrow> cyWorkers c ! i = Busy u \<Longrightarrow>
    cycle_step sync c (c\<lparr>cyWorld := sync u (cyWorld c), cyWorkers := (cyWorkers c)[i := Idle], cyFinished := cyFinished c @ [u]\<rparr>)"
| exit: "\<not> cyOpen c \<Longrightarrow> i < length (cyWorkers c) \<Longrightarrow> cyWorkers c ! i = Idle \<Longrightarrow>
    cycle_step sync c (c\<lparr>cyWorkers := (cyWorkers c)[i := Exited]\<rparr>)"
| cancel: "\<not> cyDone c \<Longrightarrow> cycle_step sync c (c\<lparr>cyDone := True\<rparr>)"

inductive_cases cycle_stepE: "cycle_step sync c c'"

text \<open>\<^verbatim>\<open>wg.Wait()\<close> returns.\<close>

definition over :: "'w cycle \<Rightarrow> bool" where
  "over c = (\<not> cyOpen c \<and> (\<forall>x\<in>set (cyWorkers c). x = Exited))"

abbreviation cycle_steps :: "(User \<Rightarrow> 'w \<Rightarrow> 'w) \<Rightarrow> 'w cycle \<Rightarrow> 'w cycle \<Rightarrow> bool" where
  "cycle_steps sync \<equiv> (cycle_step sync)\<^sup>*\<^sup>*"

section \<open>Termination\<close>

fun wsize :: "wstate \<Rightarrow> nat" where
  "wsize Idle = 1"
| "wsize (Busy u) = 2"
| "wsize Exited = 0"

definition remaining :: "'w cycle \<Rightarrow> nat" where
  "remaining c = 2 * length (cyFeed c) + (if cyOpen c then 1 else 0) + (if cyDone c then 0 else 1) + sum_list (map wsize (cyWorkers c))"

lemma sum_list_set_worker:
  "i < length ws \<Longrightarrow> sum_list (map wsize (ws[i := x])) + wsize (ws ! i) = sum_list (map wsize ws) + wsize x"
  by (induction ws arbitrary: i) (auto split: nat.splits simp: nth_Cons)

lemma step_decreases: "cycle_step sync c c' \<Longrightarrow> remaining c' < remaining c"
proof (induction rule: cycle_step.induct)
  case (send c u us i)
  then show ?case
    using sum_list_set_worker [of i "cyWorkers c" "Busy u"] by (simp add: remaining_def)
next
  case (work i c u)
  then show ?case
    using sum_list_set_worker [of i "cyWorkers c" Idle] by (simp add: remaining_def)
next
  case (exit c i)
  then show ?case
    using sum_list_set_worker [of i "cyWorkers c" Exited] by (simp add: remaining_def)
qed (auto simp: remaining_def)

section \<open>The invariant of a cycle\<close>

definition busy :: "wstate list \<Rightarrow> User list" where
  "busy ws = List.map_filter (\<lambda>x. case x of Busy u \<Rightarrow> Some u | _ \<Rightarrow> None) ws"

lemma busy_simps [simp]: "busy [] = []" "busy (Idle # ws) = busy ws" "busy (Busy u # ws) = u # busy ws" "busy (Exited # ws) = busy ws"
  by (simp_all add: busy_def List.map_filter_simps)

lemma busy_none: "(\<forall>x\<in>set ws. \<forall>u. x \<noteq> Busy u) \<Longrightarrow> busy ws = []"
proof (induction ws)
  case (Cons x ws)
  then show ?case by (cases x) auto
qed simp

lemma busy_set_worker:
  "i < length ws \<Longrightarrow> ws ! i \<in> {Idle, Exited} \<Longrightarrow> mset (busy (ws[i := Busy u])) = mset (busy ws) + {#u#}"
  "i < length ws \<Longrightarrow> ws ! i = Busy u \<Longrightarrow> x \<in> {Idle, Exited} \<Longrightarrow> mset (busy (ws[i := x])) + {#u#} = mset (busy ws)"
  "i < length ws \<Longrightarrow> ws ! i = Idle \<Longrightarrow> busy (ws[i := Exited]) = busy ws"
proof -
  show "i < length ws \<Longrightarrow> ws ! i \<in> {Idle, Exited} \<Longrightarrow> mset (busy (ws[i := Busy u])) = mset (busy ws) + {#u#}"
  proof (induction ws arbitrary: i)
    case (Cons x ws) then show ?case by (cases x; cases i) auto
  qed simp
  show "i < length ws \<Longrightarrow> ws ! i = Busy u \<Longrightarrow> x \<in> {Idle, Exited} \<Longrightarrow> mset (busy (ws[i := x])) + {#u#} = mset (busy ws)"
  proof (induction ws arbitrary: i)
    case (Cons y ws) then show ?case by (cases y; cases i) auto
  qed simp
  show "i < length ws \<Longrightarrow> ws ! i = Idle \<Longrightarrow> busy (ws[i := Exited]) = busy ws"
  proof (induction ws arbitrary: i)
    case (Cons y ws) then show ?case by (cases y; cases i) auto
  qed simp
qed

text \<open>
  Users are sent in the order of the list; those sent are finished or being worked on; the world is the
  result of the finished ones in the order they finished; workers exit only once the channel is closed, and
  unless the context is cancelled the channel is closed only after every user was sent.
\<close>

definition cycle_inv :: "(User \<Rightarrow> 'w \<Rightarrow> 'w) \<Rightarrow> User list \<Rightarrow> 'w \<Rightarrow> nat \<Rightarrow> 'w cycle \<Rightarrow> bool" where
  "cycle_inv sync us w n c = (cyStarted c @ cyFeed c = us \<and> mset (cyStarted c) = mset (cyFinished c) + mset (busy (cyWorkers c))
     \<and> cyWorld c = fold sync (cyFinished c) w \<and> length (cyWorkers c) = n \<and> (cyOpen c \<longrightarrow> Exited \<notin> set (cyWorkers c))
     \<and> (\<not> cyOpen c \<longrightarrow> cyDone c \<or> cyFeed c = []))"

lemma cycle_inv_start: "cycle_inv sync (cUsers cfg) w (nat (workers cfg)) (start_cycle cfg d w)"
proof -
  have "busy (replicate n Idle) = []" for n
    by (rule busy_none) simp
  then show ?thesis
    by (simp add: cycle_inv_def start_cycle_def)
qed

lemma cycle_inv_step: "cycle_step sync c c' \<Longrightarrow> cycle_inv sync us w n c \<Longrightarrow> cycle_inv sync us w n c'"
proof (induction rule: cycle_step.induct)
  case (send c u us' i)
  then show ?case
    using busy_set_worker(1) [of i "cyWorkers c" u] by (auto simp: cycle_inv_def dest: set_update_subset_insert [THEN subsetD])
next
  case (work i c u)
  then show ?case
    using busy_set_worker(2) [of i "cyWorkers c" u Idle]
    by (auto simp: cycle_inv_def dest: set_update_subset_insert [THEN subsetD])
next
  case (exit c i)
  then show ?case
    using busy_set_worker(3) [of i "cyWorkers c"] by (simp add: cycle_inv_def)
qed (auto simp: cycle_inv_def)

lemma cycle_inv_steps: "cycle_steps sync c c' \<Longrightarrow> cycle_inv sync us w n c \<Longrightarrow> cycle_inv sync us w n c'"
  by (induction rule: rtranclp_induct) (auto intro: cycle_inv_step)

lemma workers_pos: "0 < nat (workers cfg)"
  by (simp add: workers_def Let_def)

text \<open>Some goroutine can always run, whatever the environment does.\<close>

lemma cycle_progress:
  assumes inv: "cycle_inv sync us w n c" and n: "0 < n" and go: "\<not> over c"
  shows "\<exists>c'. cycle_step sync c c' \<and> cyDone c' = cyDone c"
proof (cases "\<exists>u. Busy u \<in> set (cyWorkers c)")
  case True
  then obtain i u where "i < length (cyWorkers c)" "cyWorkers c ! i = Busy u"
    by (auto simp: in_set_conv_nth)
  from cycle_step.work [OF this] show ?thesis
    by fastforce
next
  case False
  show ?thesis
  proof (cases "cyOpen c")
    case True
    have "cyWorkers c ! 0 = Idle" "0 < length (cyWorkers c)"
    proof -
      show l: "0 < length (cyWorkers c)" using inv n by (simp add: cycle_inv_def)
      have "cyWorkers c ! 0 \<in> set (cyWorkers c)" "Exited \<notin> set (cyWorkers c)"
        using nth_mem [OF l] inv True by (simp_all add: cycle_inv_def)
      then show "cyWorkers c ! 0 = Idle"
        using False by (metis wstate.exhaust)
    qed
    then show ?thesis
      using cycle_step.send [OF True] cycle_step.fed [OF True] by (cases "cyFeed c") (force, force)
  next
    case closed: False
    then obtain x where x: "x \<in> set (cyWorkers c)" "x \<noteq> Exited"
      using go by (auto simp: over_def)
    then have "x = Idle"
      using False by (metis wstate.exhaust)
    with x(1) obtain i where i: "i < length (cyWorkers c)" "cyWorkers c ! i = Idle"
      by (auto simp: in_set_conv_nth)
    from cycle_step.exit [OF closed i] show ?thesis
      by fastforce
  qed
qed

lemma reached: "cycle_steps sync (start_cycle cfg d w) c \<Longrightarrow> cycle_inv sync (cUsers cfg) w (nat (workers cfg)) c"
  by (rule cycle_inv_steps [OF _ cycle_inv_start])

lemma over_busy: "over c \<Longrightarrow> busy (cyWorkers c) = []"
  by (rule busy_none) (auto simp: over_def)

section \<open>Properties of a cycle\<close>

text \<open>C8: a cycle always comes to an end: no schedule of the feeder and the workers runs forever, and as long as the
  cycle is not over one of them can take a step, also when nobody cancels it, so no deadlock on the
  channel is possible.\<close>
theorem RunCycle_finishes:
  "(\<nexists>f. f 0 = start_cycle cfg d w \<and> (\<forall>i. cycle_step sync (f i) (f (Suc i))))
   \<and> (\<forall>c. cycle_steps sync (start_cycle cfg d w) c \<longrightarrow> over c \<or> (\<exists>c'. cycle_step sync c c' \<and> cyDone c' = cyDone c))"
proof (intro conjI allI impI notI)
  assume "\<exists>f. f 0 = start_cycle cfg d w \<and> (\<forall>i. cycle_step sync (f i) (f (Suc i)))"
  then obtain f where f: "\<And>i. cycle_step sync (f i) (f (Suc i))"
    by blast
  obtain i where "(f (Suc i), f i) \<notin> measure remaining"
    using wf_no_infinite_down_chainE [OF wf_measure] by blast
  then show False
    using step_decreases [OF f] by simp
next
  fix c assume "cycle_steps sync (start_cycle cfg d w) c"
  from cycle_progress [OF reached [OF this] workers_pos]
  show "over c \<or> (\<exists>c'. cycle_step sync c c' \<and> cyDone c' = cyDone c)"
    by blast
qed

text \<open>C7: a cycle processes every user exactly once: when it is over, the users that were started are a prefix of the
  list and each of them was finished exactly as often as it is in that prefix; unless the context was
  cancelled these are all users. The world is the result of processing them one after the other.\<close>
theorem RunCycle_exactly_once:
  assumes "cycle_steps sync (start_cycle cfg d w) c" and "over c"
  shows "prefix (cyStarted c) (cUsers cfg) \<and> mset (cyFinished c) = mset (cyStarted c) \<and> cyWorld c = fold sync (cyFinished c) w
    \<and> (\<not> cyDone c \<longrightarrow> mset (cyFinished c) = mset (cUsers cfg))"
  using reached [OF assms(1)] over_busy [OF assms(2)] assms(2)
  by (auto simp: cycle_inv_def over_def intro: prefixI [OF sym])

section \<open>Refinement of a sequential loop\<close>

text \<open>
  The specification of a cycle knows no goroutines: a multiset of users that are still to do and the world; a step takes one of them
  and does its work. The cycle implements it: sending, closing, exiting and cancelling are steps that it does not see.
\<close>

inductive todo_step :: "(User \<Rightarrow> 'w \<Rightarrow> 'w) \<Rightarrow> User multiset \<times> 'w \<Rightarrow> User multiset \<times> 'w \<Rightarrow> bool" for sync :: "User \<Rightarrow> 'w \<Rightarrow> 'w" where
  take: "u \<in># M \<Longrightarrow> todo_step sync (M, w) (M - {#u#}, sync u w)"

definition todo_of :: "'w cycle \<Rightarrow> User multiset \<times> 'w" where
  "todo_of c = (mset (cyFeed c) + mset (busy (cyWorkers c)), cyWorld c)"

locale simulation =
  fixes cstep :: "'c \<Rightarrow> 'c \<Rightarrow> bool" and astep :: "'a \<Rightarrow> 'a \<Rightarrow> bool" and abs_of :: "'c \<Rightarrow> 'a"
  assumes sim: "cstep c c' \<Longrightarrow> abs_of c' = abs_of c \<or> astep (abs_of c) (abs_of c')"
begin

lemma steps: "cstep\<^sup>*\<^sup>* c c' \<Longrightarrow> astep\<^sup>*\<^sup>* (abs_of c) (abs_of c')"
proof (induction rule: rtranclp_induct)
  case (step c1 c2)
  then show ?case
    using sim [OF step(2)] by (metis rtranclp.rtrancl_into_rtrancl)
qed simp

end

lemma todo_step_busy:
  assumes "i < length ws" and "ws ! i = Busy u"
  shows "todo_step sync (F + mset (busy ws), w) (F + mset (busy (ws[i := Idle])), sync u w)"
proof -
  have ws: "mset (busy ws) = mset (busy (ws[i := Idle])) + {#u#}"
    using busy_set_worker(2) [OF assms, of Idle] by simp
  show ?thesis
    using todo_step.take [of u "F + mset (busy ws)" sync w] by (simp add: ws)
qed

interpretation cyc: simulation "cycle_step sync" "todo_step sync" todo_of for sync
proof (unfold_locales, erule cycle_stepE, goal_cases)
  case (1 c c' u us i)
  then show ?case
    using busy_set_worker(1) [of i "cyWorkers c" u] by (simp add: todo_of_def)
next
  case (4 c c' i u)
  then show ?case
    using todo_step_busy [of i "cyWorkers c" u sync "mset (cyFeed c)" "cyWorld c"] by (simp add: todo_of_def)
next
  case (5 c c' i)
  then show ?case
    using busy_set_worker(3) [of i "cyWorkers c"] by (simp add: todo_of_def)
qed (simp_all add: todo_of_def)


text \<open>At every moment of a cycle at most \<^verbatim>\<open>workers\<close> users are being processed, and never more workers are started
  than there are users, nor fewer than one.\<close>
theorem workers_bound:
  assumes "cycle_steps sync (start_cycle cfg d w) c" and "1 \<le> cWorkers cfg" and "cUsers cfg \<noteq> []"
  shows "int (length (busy (cyWorkers c))) \<le> min (cWorkers cfg) (int (length (cUsers cfg))) \<and> 0 < length (cyWorkers c)"
proof -
  have "length (busy ws) \<le> length ws" for ws
    unfolding busy_def List.map_filter_def by (simp add: le_trans [OF length_filter_le])
  moreover have "length (cyWorkers c) = nat (workers cfg)"
    using reached [OF assms(1)] by (simp add: cycle_inv_def)
  moreover have "workers cfg = min (cWorkers cfg) (int (length (cUsers cfg)))"
    using assms(2,3) by (cases "cUsers cfg") (auto simp: workers_def Let_def)
  ultimately show ?thesis
    using workers_pos [of cfg] by (metis of_nat_le_iff nat_0_le less_imp_le zero_less_nat_eq)
qed

section \<open>The loop over cycles\<close>

text \<open>
  \<open>wt\<close> is \<^verbatim>\<open>context.WithTimeout\<close>, about which nothing is assumed. Time stamps and lines that only go to the
  log, and the reporter goroutine, are left out.
\<close>

definition processUser :: "(gctx \<Rightarrow> duration \<Rightarrow> gctx) \<Rightarrow> 'e Pool \<Rightarrow> gctx \<Rightarrow> User \<Rightarrow> 'e world \<Rightarrow> 'e world" where
  "processUser wt p ctx u w = snd (run_state (SyncUser (pool_syncer p) (wt ctx (cPerUserTimeout (pCfg p))) u) w)"

definition begin_cycle :: "'e Pool \<Rightarrow> ('e, unit) sync" where
  "begin_cycle p = do { t \<leftarrow> clock (pSync p); on_stats (BeginCycle t) }"

inductive RunCycle :: "(gctx \<Rightarrow> duration \<Rightarrow> gctx) \<Rightarrow> 'e Pool \<Rightarrow> gctx \<Rightarrow> 'e world \<Rightarrow> 'e world \<Rightarrow> bool" for wt p ctx where
  cycle: "run_state (begin_cycle p) w = ((), w1) \<Longrightarrow> cycle_steps (processUser wt p ctx) (start_cycle (pCfg p) d w1) c \<Longrightarrow> over c
    \<Longrightarrow> RunCycle wt p ctx w (cyWorld c)"

text \<open>The end of a cycle: whether the context is cancelled, before or during the pause.\<close>

definition pause :: "'e Pool \<Rightarrow> gctx \<Rightarrow> ('e, bool) sync" where
  "pause p ctx = do {
     e \<leftarrow> ctx_err ctx;
     if e \<noteq> None then ret True
     else do { e2 \<leftarrow> ask (cxWait ctx (cSyncInterval (pCfg p))); ret (e2 \<noteq> None) } }"

inductive Run :: "(gctx \<Rightarrow> duration \<Rightarrow> gctx) \<Rightarrow> gctx \<Rightarrow> 'e Pool \<Rightarrow> 'e world \<Rightarrow> 'e Pool \<Rightarrow> 'e world \<Rightarrow> bool" for wt ctx where
  last: "run_state (reload p) w = (p1, w1) \<Longrightarrow> RunCycle wt p1 ctx w1 w2 \<Longrightarrow> run_state (pause p1 ctx) w2 = (True, w3)
    \<Longrightarrow> Run wt ctx p w p1 w3"
| more: "run_state (reload p) w = (p1, w1) \<Longrightarrow> RunCycle wt p1 ctx w1 w2 \<Longrightarrow> run_state (pause p1 ctx) w2 = (False, w3)
    \<Longrightarrow> Run wt ctx p1 w3 p' w' \<Longrightarrow> Run wt ctx p w p' w'"

section \<open>Reloading\<close>

lemma db_rows_run: "db_rows F m q s = (r, s') \<Longrightarrow> sdTables s' = sdTables s \<and> (\<forall>x. r = Inr x \<longrightarrow> x = q (sdTables s))"
  by (auto simp: db_rows_def db_defs Let_def split: option.splits)

lemma reload_run:
  assumes "run_state (reload p) w = (p', w')"
  shows "sdTables (wDB w') = sdTables (wDB w) \<and> wA w' = wA w \<and> wB w' = wB w \<and> (p' = p \<or> pReload p \<and>
    p' = p\<lparr>pCfg := (pCfg p)\<lparr>cUsers := select_users True (sdTables (wDB w)), cFolders := select_pairs (sdTables (wDB w))\<rparr>\<rparr>)"
  using assms unfolding reload_def ListUsers_def ListFolderPairs_def queryUsers_def
  by (auto simp: on_db_def split: if_splits sum.splits prod.splits dest!: db_rows_run)

text \<open>C12: reloading is all or nothing: the pool and its synchronizer go on either with the lists they had or with both lists
  as they are in the database, never with one old and one new list; nothing else of the configuration
  changes, and without a fault of the database the new lists are taken.\<close>
theorem reload_all_or_nothing:
  assumes "run_state (reload p) w = (p', w')" and "d = sdTables (wDB w)"
  shows "(pool_syncer p' = pool_syncer p \<and> pCfg p' = pCfg p
      \<or> pCfg p' = (pCfg p)\<lparr>cUsers := select_users True d, cFolders := select_pairs d\<rparr> \<and> pool_syncer p' = (pool_syncer p)\<lparr>yCfg := pCfg p'\<rparr>)
    \<and> (pReload p \<and> evFaults (yEnv (pSync p)) = (\<lambda>_. None) \<longrightarrow> cUsers (pCfg p') = select_users True d \<and> cFolders (pCfg p') = select_pairs d)
    \<and> sdTables (wDB w') = d"
proof -
  have "pReload p \<Longrightarrow> evFaults (yEnv (pSync p)) = (\<lambda>_. None) \<Longrightarrow> cUsers (pCfg p') = select_users True d \<and> cFolders (pCfg p') = select_pairs d"
    using assms unfolding reload_def ListUsers_def ListFolderPairs_def queryUsers_def
    by (auto simp: on_db_def db_rows_def db_defs)
  then show ?thesis
    using reload_run [OF assms(1)] assms(2) by (auto simp: pool_syncer_def)
qed

section \<open>Mail over cycles\<close>

text \<open>A relation that every user's work respects is respected by cycles and by the whole loop.\<close>

lemma cycle_steps_rel:
  assumes steps: "cycle_steps sync c c'" and refl: "R (cyWorld c) (cyWorld c)"
    and sync: "\<And>w u. R (cyWorld c) w \<Longrightarrow> R (cyWorld c) (sync u w)"
  shows "R (cyWorld c) (cyWorld c')"
  using steps
proof (induction rule: rtranclp_induct)
  case base
  then show ?case by (rule refl)
next
  case (step c1 c2)
  from step(2,3) show ?case by cases (auto intro: sync)
qed

locale world_relation =
  fixes P :: "'e Pool \<Rightarrow> bool" and R :: "'e world \<Rightarrow> 'e world \<Rightarrow> bool"
  assumes user: "P p \<Longrightarrow> R w0 w \<Longrightarrow> R w0 (snd (run_state (SyncUser (pool_syncer p) cx u) w))"
    and same_sides: "R w0 w \<Longrightarrow> wA w' = wA w \<Longrightarrow> wB w' = wB w \<Longrightarrow> R w0 w'"
    and lists: "P p \<Longrightarrow> P (p\<lparr>pCfg := (pCfg p)\<lparr>cUsers := us, cFolders := fs\<rparr>\<rparr>)"
begin

lemma iteration:
  assumes "run_state (reload p) w = (p1, w1)" "RunCycle wt p1 ctx w1 w2" "run_state (pause p1 ctx) w2 = (b, w3)" and "P p" "R w0 w"
  shows "P p1 \<and> R w0 w3"
proof -
  have 1: "P p1" "R w0 w1"
    using reload_run [OF assms(1)] assms(4,5) lists same_sides by (metis, metis)
  have "R w0 w2"
    using assms(2)
  proof cases
    case (cycle v d c)
    have "R w0 v"
      using cycle(2) same_sides [OF 1(2)] by (auto simp: begin_cycle_def on_stats_def ask_def)
    then show ?thesis
      using cycle_steps_rel [OF cycle(3), of "\<lambda>_. R w0"] user [OF 1(1)] cycle(1)
      by (simp add: processUser_def start_cycle_def)
  qed
  then show ?thesis
    using 1(1) assms(3) same_sides [of w0 w2 w3] by (auto simp: pause_def ask_def split: if_splits)
qed

lemma whole_run: "Run wt ctx p w p' w' \<Longrightarrow> P p \<Longrightarrow> R w0 w \<Longrightarrow> R w0 w'"
  by (induction rule: Run.induct) (use iteration in blast)+

end

section \<open>Two Maildirs\<close>

definition md_pool :: "mdenv \<Rightarrow> mdenv \<Rightarrow> env \<Rightarrow> Config \<Rightarrow> bool \<Rightarrow> maildir Pool" where
  "md_pool EA EB env cfg st = \<lparr>pCfg = cfg, pSync = md_syncer EA EB env cfg st, pReload = (cSource cfg = SourceSQLite \<and> st)\<rparr>"

text \<open>Mail that is kept, and not added to on a side the direction does not write to.\<close>

definition mail_kept :: "mdenv \<Rightarrow> mdenv \<Rightarrow> string \<Rightarrow> maildir world \<Rightarrow> maildir world \<Rightarrow> bool" where
  "mail_kept EA EB dir w w' = (md_inv EA (wA w') \<and> md_inv EB (wB w') \<and> md_mail (wA w) \<subseteq>\<^sub>m md_mail (wA w') \<and> md_mail (wB w) \<subseteq>\<^sub>m md_mail (wB w')
     \<and> (dir = DirectionAToB \<longrightarrow> md_mail (wA w') = md_mail (wA w)) \<and> (dir = DirectionBToA \<longrightarrow> md_mail (wB w') = md_mail (wB w)))"

interpretation mdp: world_relation
  "\<lambda>p. pSync p = md_syncer EA EB env cfg st \<and> (\<exists>us fs. pCfg p = cfg\<lparr>cUsers := us, cFolders := fs\<rparr>)" "mail_kept EA EB (cDirection cfg)"
  for EA EB env cfg st
proof (unfold_locales, goal_cases)
  case (1 p w0 w cx u)
  then obtain us fs where p: "pSync p = md_syncer EA EB env cfg st" "pCfg p = cfg\<lparr>cUsers := us, cFolders := fs\<rparr>"
    by blast
  let ?cfg = "cfg\<lparr>cUsers := us, cFolders := fs\<rparr>"
  have S: "pool_syncer p = md_syncer EA EB env ?cfg st"
    by (simp add: pool_syncer_def p md_syncer_def)
  have "mds.grown EA EB env ?cfg st w (snd (run_state (SyncUser (md_syncer EA EB env ?cfg st) cx u) w))"
    by (rule mds.SyncUser_grown [where x = "()"]) (use 1(2) in \<open>simp_all add: mail_kept_def prod_eq_iff\<close>)
  then show ?case
    using 1(2) unfolding S mds.grown_def mail_kept_def by (auto intro: map_le_trans)
next
  case (2 w0 w w')
  then show ?case by (simp add: mail_kept_def)
next
  case (3 p us fs)
  then show ?case by (clarsimp, blast)
qed

text \<open>C11: the daemon never loses mail: however long the pool runs over two Maildir accounts, whatever the schedule of its
  workers, the faults, the reloaded lists and the moment of cancellation, when it returns every message is
  still there unchanged, and a side that the direction does not write to has exactly its messages.\<close>
theorem Run_append_only:
  assumes "Run wt ctx (md_pool EA EB env cfg st) w p' w'" and "md_inv EA (wA w)" and "md_inv EB (wB w)"
  shows "mail_kept EA EB (cDirection cfg) w w'"
proof -
  have "\<exists>us fs. cfg = cfg\<lparr>cUsers := us, cFolders := fs\<rparr>"
    by (intro exI [of _ "cUsers cfg"] exI [of _ "cFolders cfg"]) simp
  then show ?thesis
    using assms by (intro mdp.whole_run [OF assms(1)]) (auto simp: md_pool_def mail_kept_def)
qed

section \<open>Examples\<close>

definition pool_cfg_ex :: Config where
  "pool_cfg_ex = cfg_ex\<lparr>cUsers := [usr_ex ''u''], cWorkers := 3\<rparr>"

lemma one_user_cycle:
  "cycle_steps sync (start_cycle pool_cfg_ex d w) \<lparr>cyFeed = [], cyOpen = False, cyWorkers = [Exited], cyDone = d,
     cyStarted = [usr_ex ''u''], cyFinished = [usr_ex ''u''], cyWorld = sync (usr_ex ''u'') w\<rparr>" (is "cycle_steps sync _ ?c")
proof -
  let ?u = "usr_ex ''u''"
  define c0 c1 c2 c3 where c: "c0 = start_cycle pool_cfg_ex d w" "c1 = c0\<lparr>cyFeed := [], cyWorkers := [Busy ?u], cyStarted := [?u]\<rparr>"
    "c2 = c1\<lparr>cyWorld := sync ?u (cyWorld c1), cyWorkers := [Idle], cyFinished := [?u]\<rparr>" "c3 = c2\<lparr>cyOpen := False\<rparr>"
  note sel = start_cycle_def pool_cfg_ex_def workers_def
  have "cycle_step sync c0 c1"
    using cycle_step.send [of c0 ?u "[]" 0 sync] by (simp add: c sel)
  moreover have "cycle_step sync c1 c2"
    using cycle_step.work [of 0 c1 ?u sync] by (simp add: c sel)
  moreover have "cycle_step sync c2 c3"
    using cycle_step.fed [of c2 sync] by (simp add: c sel)
  moreover have "cycle_step sync c3 ?c"
    using cycle_step.exit [of c3 0 sync] by (simp add: c sel)
  ultimately show ?thesis
    unfolding c(1) [symmetric] by (meson converse_rtranclp_into_rtranclp rtranclp.rtrancl_refl)
qed

theorem RunCycle_finishes_witness:
  "\<not> over (start_cycle pool_cfg_ex False (0::nat)) \<and> (\<exists>c'. cycle_step (\<lambda>u. Suc) (start_cycle pool_cfg_ex False 0) c')"
proof -
  have "\<not> over (start_cycle pool_cfg_ex False (0::nat))"
    by (simp add: over_def start_cycle_def)
  then show ?thesis
    using RunCycle_finishes [of pool_cfg_ex False "0::nat" "\<lambda>u. Suc"] by blast
qed


theorem RunCycle_exactly_once_witness:
  "\<exists>c. cycle_steps (\<lambda>u. Suc) (start_cycle pool_cfg_ex False (0::nat)) c \<and> over c \<and> mset (cyFinished c) = {#usr_ex ''u''#} \<and> cyWorld c = 1"
proof -
  let ?c = "\<lparr>cyFeed = [], cyOpen = False, cyWorkers = [Exited], cyDone = False,
     cyStarted = [usr_ex ''u''], cyFinished = [usr_ex ''u''], cyWorld = Suc 0\<rparr>"
  have o: "over ?c"
    by (simp add: over_def)
  have "mset (cyFinished ?c) = mset (cUsers pool_cfg_ex) \<and> cyWorld ?c = fold (\<lambda>u. Suc) (cyFinished ?c) (0::nat)"
    using RunCycle_exactly_once [OF one_user_cycle [where sync = "\<lambda>u. Suc" and d = False and w = "0::nat"] o] by simp
  then show ?thesis
    using one_user_cycle [of "\<lambda>u. Suc" False 0] o by (intro exI [of _ ?c]) simp
qed

theorem reload_all_or_nothing_witness:
  "\<exists>p' w'. run_state (reload (md_pool env_ex env_ex senv_ex (pool_cfg_ex\<lparr>cSource := SourceSQLite\<rparr>) True)) (wld_ex (mdir_ex mbox_ex) (mdir_ex dirs_ex)) = (p', w')
     \<and> cUsers (pCfg p') = []"
proof -
  let ?p = "md_pool env_ex env_ex senv_ex (pool_cfg_ex\<lparr>cSource := SourceSQLite\<rparr>) True"
  obtain p' w' where r: "run_state (reload ?p) (wld_ex (mdir_ex mbox_ex) (mdir_ex dirs_ex)) = (p', w')"
    by (cases "run_state (reload ?p) (wld_ex (mdir_ex mbox_ex) (mdir_ex dirs_ex))")
  have "pReload ?p" "evFaults (yEnv (pSync ?p)) = (\<lambda>_. None)" "select_users True (sdTables (wDB (wld_ex (mdir_ex mbox_ex) (mdir_ex dirs_ex)))) = []"
    by (simp_all add: md_pool_def senv_ex_def wld_ex_def select_users_def empty_db_def)
  then show ?thesis
    using reload_all_or_nothing [OF r refl] r by auto
qed

theorem Run_append_only_witness:
  "\<exists>p' w'. Run (\<lambda>c _. c) (ctx_ex\<lparr>cxErr := \<lambda>_. Some (errnew ''context canceled'')\<rparr>) (md_pool env_ex env_ex senv_ex pool_cfg_ex False)
       (wld_ex (mdir_ex mbox_ex) (mdir_ex dirs_ex)) p' w'
     \<and> md_mail (mdir_ex mbox_ex) \<subseteq>\<^sub>m md_mail (wA w')"
proof -
  let ?ctx = "ctx_ex\<lparr>cxErr := \<lambda>_. Some (errnew ''context canceled'')\<rparr>" and ?p = "md_pool env_ex env_ex senv_ex pool_cfg_ex False"
  let ?w = "wld_ex (mdir_ex mbox_ex) (mdir_ex dirs_ex)" and ?sync = "processUser (\<lambda>c _. c) (md_pool env_ex env_ex senv_ex pool_cfg_ex False)
    (ctx_ex\<lparr>cxErr := \<lambda>_. Some (errnew ''context canceled'')\<rparr>)"
  obtain w1 where w1: "run_state (begin_cycle ?p) ?w = ((), w1)"
    by (metis old.unit.exhaust surj_pair)
  let ?c = "\<lparr>cyFeed = [], cyOpen = False, cyWorkers = [Exited], cyDone = False,
     cyStarted = [usr_ex ''u''], cyFinished = [usr_ex ''u''], cyWorld = ?sync (usr_ex ''u'') w1\<rparr>"
  have "over ?c"
    by (simp add: over_def)
  then have "RunCycle (\<lambda>c _. c) ?p ?ctx ?w (cyWorld ?c)"
    using one_user_cycle [of ?sync False w1] by (intro RunCycle.cycle [OF w1, of _ _ False]) (simp_all add: md_pool_def)
  moreover have "run_state (reload ?p) ?w = (?p, ?w)"
    by (simp add: reload_def md_pool_def)
  moreover have "\<exists>w3. run_state (pause ?p ?ctx) (cyWorld ?c) = (True, w3)"
    by (simp add: pause_def ask_def)
  ultimately obtain w3 where r: "Run (\<lambda>c _. c) ?ctx ?p ?w ?p w3"
    using Run.last by blast
  then show ?thesis
    using Run_append_only [OF r] mbox_ex_inv mdir_ex_inv by (auto simp: wld_ex_def mail_kept_def)
qed

end
