(* ===== verification/Daemon.thy ===== *)
theory Daemon
  imports Cli Pool
begin

text \<open>
  The daemon (\<^verbatim>\<open>cmd/imapsync/daemon.go\<close>): when the database is needed, opening it with the lock, and the pool on it until the context
  is cancelled. The lines of the log are left out. As the pool is a relation, so is the daemon.
\<close>

definition needDB :: "Config \<Rightarrow> bool" where
  "needDB cfg = (cStateCache cfg \<or> cSource cfg = SourceSQLite \<or> cMaxFailStreak cfg > 0 \<and> cSQLitePath cfg \<noteq> [])"

text \<open>The store of the daemon: none, the one opened exclusively, or the error that ends the program.\<close>

definition open_store :: "faults \<Rightarrow> goerr option \<Rightarrow> goerr \<Rightarrow> Config \<Rightarrow> lock_world \<Rightarrow> Store option result \<times> lock_world" where
  "open_store F create_fault wouldblock cfg lw =
     (if needDB cfg
      then case OpenExclusive F create_fault wouldblock (cSQLitePath cfg) lw of (Inl e, lw') \<Rightarrow> (Inl e, lw') | (Inr st, lw') \<Rightarrow> (Inr (Some st), lw')
      else (Inr None, lw))"

definition store_world :: "Store option \<Rightarrow> 'e world \<Rightarrow> 'e world" where
  "store_world so w = (case so of None \<Rightarrow> w | Some st \<Rightarrow> w\<lparr>wDB := stDB st\<rparr>)"

text \<open>The deferred \<^verbatim>\<open>Close\<close>: what the pool wrote is in the file, and the lock is released.\<close>

definition close_store :: "goerr option \<Rightarrow> Store option \<Rightarrow> 'e world \<Rightarrow> lock_world \<Rightarrow> lock_world" where
  "close_store close_fault so w lw =
     (case so of None \<Rightarrow> lw
      | Some st \<Rightarrow> snd (snd (Close close_fault st (lw\<lparr>lwFile := (put_tables (sdTables (wDB w)) (fst (lwFile lw)), sdTick (wDB w))\<rparr>))))"

inductive runDaemon :: "faults \<Rightarrow> goerr option \<Rightarrow> goerr \<Rightarrow> goerr option \<Rightarrow> env \<Rightarrow> (Server \<Rightarrow> 'e Backend result)
    \<Rightarrow> (gctx \<Rightarrow> duration \<Rightarrow> gctx) \<Rightarrow> gctx \<Rightarrow> Config \<Rightarrow> lock_world \<times> 'e world \<Rightarrow> goerr option \<times> lock_world \<times> 'e world \<Rightarrow> bool"
  for F create_fault wouldblock close_fault env mk wt ctx cfg where
  no_store: "open_store F create_fault wouldblock cfg lw = (Inl e, lw')
    \<Longrightarrow> runDaemon F create_fault wouldblock close_fault env mk wt ctx cfg (lw, w) (Some e, lw', w)"
| stopped: "open_store F create_fault wouldblock cfg lw = (Inr so, lw') \<Longrightarrow> NewPool env mk cfg (so \<noteq> None) = Inr p
    \<Longrightarrow> Run wt ctx p (store_world so w\<lparr>wCol := NewCollector\<rparr>) p' w'
    \<Longrightarrow> runDaemon F create_fault wouldblock close_fault env mk wt ctx cfg (lw, w) (None, close_store close_fault so w' lw', w')"

inductive_cases runDaemonE: "runDaemon F cf wb clf env mk wt ctx cfg (lw, w) (eo, lw', w')"

text \<open>The lock after the daemon is as it was, and a daemon that needs a database another process holds does nothing.\<close>

lemma runDaemon_lock:
  assumes "runDaemon F cf wb clf env mk wt ctx cfg (lw, w) (eo, lw', w')"
  shows "lwHeld lw' = lwHeld lw \<and> (needDB cfg \<and> lwHeld lw \<longrightarrow> eo \<noteq> None \<and> w' = w \<and> lw' = lw)"
  using assms
  by (rule runDaemonE)
    (auto simp: open_store_def OpenExclusive_def close_store_def Close_def split: if_splits option.splits prod.splits sum.splits)

text \<open>Without a database path the error streaks are not kept, so \<^verbatim>\<open>max_fail_streak\<close> has no effect, as the warning says.\<close>

lemma no_database_no_store:
  "cSource cfg \<noteq> SourceSQLite \<Longrightarrow> \<not> cStateCache cfg \<Longrightarrow> cSQLitePath cfg = [] \<Longrightarrow> open_store F cf wb cfg lw = (Inr None, lw)"
  by (simp add: open_store_def needDB_def)

end
