(* ===== verification/Spec2Isabelle.thy ===== *)
theory Spec2Isabelle
  imports SyncIncremental SyncImap SyncEws EwsTest Pst Daemon
begin

text \<open>
  A verification development of imapsync, a daemon that copies mail between two accounts of every configured user until both sides
  have the same messages, over IMAP, Maildir, Exchange Web Services and (read-only) PST archives.

  \<^bold>\<open>The program.\<close> \<^verbatim>\<open>cmd/imapsync\<close> reads the configuration (\<^verbatim>\<open>config\<close>), optionally the users and folder pairs from a SQLite database
  (\<^verbatim>\<open>internal/store\<close>), and starts the worker pool (\<^verbatim>\<open>internal/syncer/pool.go\<close>). In every cycle the pool hands each user to a worker, which
  runs the synchronizer (\<^verbatim>\<open>syncer.go\<close>, \<^verbatim>\<open>discover.go\<close>): it connects to both sides through the interface of \<^verbatim>\<open>internal/endpoint\<close>, and for
  every folder pair it builds an index of both folders by match keys (\<^verbatim>\<open>internal/dedup\<close>, keys from \<^verbatim>\<open>internal/mailbox/message.go\<close>), takes the
  two differences and appends what is missing, tagged with a hash header. A cache in the database makes later passes incremental; counters
  (\<^verbatim>\<open>internal/stats\<close>) and the result of the run are recorded, and a user who fails too often in a row is stopped.

  \<^bold>\<open>Conventions.\<close> A Go string is a list of bytes, an \<^verbatim>\<open>error\<close> a record of its text and what \<^verbatim>\<open>errors.Is\<close> finds in it, a fallible function has a
  result of a sum type. Counters of the statistics and UIDs have their machine width; times are nanoseconds. Code outside the repository is
  a parameter: a record of the functions the program calls, on an abstract state, about which a theorem assumes only what it names. Every
  statement of the database and every system call may fail, as a fault function decides. Go maps are tables whose iteration order is a
  parameter where the program depends on it.

  \<^bold>\<open>The theories\<close>, with the sources they model under \<^verbatim>\<open>src/\<close>.

  \<^item> \<^verbatim>\<open>GoLib\<close>: what is used of the standard library (strings, UTF-8, quoting, numbers, times, tables) and the facts shared by all
    components, with the collections \<open>go_simps\<close> and \<open>frame_simps\<close>.
  \<^item> \<^verbatim>\<open>Message\<close> (\<^verbatim>\<open>internal/mailbox/message.go\<close>): reading a header block, the surrogate hash, the match keys, the tag. Tagging keeps every field
    the keys are made of, and a copy matches its original even after a server gave it a Message-ID.
  \<^item> \<^verbatim>\<open>Config\<close> (\<^verbatim>\<open>config/config.go\<close>): defaults, both validations, TLS settings. The validation of the lists is characterised exactly.
  \<^item> \<^verbatim>\<open>Endpoint\<close> (\<^verbatim>\<open>internal/endpoint/endpoint.go\<close>): the interfaces as records of operations, the literals, and the contract of an endpoint as the
    locales \<open>mail_endpoint\<close> (nothing is changed or removed, an append adds exactly the message) and \<open>exact_endpoint\<close> (a listing is
    exact). The streaming tagger equals the buffered one.
  \<^item> \<^verbatim>\<open>Dedup\<close> (\<^verbatim>\<open>internal/dedup/index.go\<close>): the index and its differences; what is left of them after copying.
  \<^item> \<^verbatim>\<open>Store\<close>, \<^verbatim>\<open>State\<close> (\<^verbatim>\<open>internal/store/store.go\<close>, \<^verbatim>\<open>lock.go\<close>, \<^verbatim>\<open>state.go\<close>): tables over the locale \<open>keyed_table\<close>, statements and transactions,
    schema migration, entities, the message cache, run history and error streak. Failed operations change nothing, round trips, the bound of the
    history, the meaning of the streak, migration keeps the data, one process at a time.
  \<^item> \<^verbatim>\<open>Stats\<close> (\<^verbatim>\<open>internal/stats/stats.go\<close>): counters in a heap shared by the workers, exact under every interleaving.
  \<^item> \<^verbatim>\<open>Discover\<close>, \<^verbatim>\<open>Syncer\<close> (\<^verbatim>\<open>internal/syncer/discover.go\<close>, \<^verbatim>\<open>syncer.go\<close>): pairing of folder lists (a maximal matching) and the synchronizer as programs
    of a state monad over both sides, the database, the statistics and the recorded errors.
  \<^item> \<^verbatim>\<open>SyncSafety\<close> (a Hoare logic; the locale \<open>sync_sides\<close>: no message is ever changed or removed), \<^verbatim>\<open>SyncComplete\<close> (the locale
    \<open>exact_session\<close>: a clean pass is complete and a second one copies nothing), \<^verbatim>\<open>SyncIncremental\<close> (the same from the cache, which stays
    coherent), \<^verbatim>\<open>SyncRun\<close> (the locale \<open>session_inv\<close>: status rows, stopping of a failing user, retries of \<^verbatim>\<open>dial\<close>).
  \<^item> \<^verbatim>\<open>Pool\<close> (\<^verbatim>\<open>internal/syncer/pool.go\<close>): a cycle as a step relation on feeder, channel and workers. It ends, has no deadlock, processes every user
    exactly once and refines a sequential loop (the locale \<open>simulation\<close>); reloading is all or nothing; mail is kept over any number of
    cycles (the locale \<open>world_relation\<close>).
  \<^item> \<^verbatim>\<open>Maildir\<close> (\<^verbatim>\<open>internal/endpoint/maildir.go\<close>): over a file system with faults; it interprets \<open>exact_endpoint\<close>.
  \<^item> \<^verbatim>\<open>Imap\<close>, \<^verbatim>\<open>SyncImap\<close> (\<^verbatim>\<open>internal/mailbox/client.go\<close>, \<^verbatim>\<open>internal/endpoint/imap.go\<close>): the client over \<^verbatim>\<open>go-imap\<close> as a parameter; folder names round trip,
    batched fetching is complete, and synchronizing two IMAP servers is safe.
  \<^item> \<^verbatim>\<open>Encoding\<close>, \<^verbatim>\<open>Soap\<close>, \<^verbatim>\<open>Ews\<close>, \<^verbatim>\<open>EwsWire\<close>, \<^verbatim>\<open>EwsServer\<close>, \<^verbatim>\<open>SyncEws\<close> (\<^verbatim>\<open>internal/endpoint/ews.go\<close>, \<^verbatim>\<open>ews_auth.go\<close>): text encodings, authorization with the token
    cache and its single retry, the requests (every request reads back as the operation that was meant, on the mailbox of the user), paging
    and batches, and the safety of synchronizing two Exchange servers.
  \<^item> \<^verbatim>\<open>EwsTest\<close> (\<^verbatim>\<open>internal/endpoint/ewstest\<close>): the in-memory Exchange server of the tests, with NTLMv2 and its MD4 on 32-bit words. Authentication needs a
    proof for a challenge sent on the same connection, refused requests change nothing, stored messages stay.
  \<^item> \<^verbatim>\<open>Pst\<close> (\<^verbatim>\<open>internal/endpoint/pst.go\<close>): rendering messages from MAPI properties; the metadata identifies the rendered message.
  \<^item> \<^verbatim>\<open>Csv\<close>, \<^verbatim>\<open>Cli\<close>, \<^verbatim>\<open>Daemon\<close> (\<^verbatim>\<open>cmd/imapsync/*.go\<close>): flags, every command with its output and exit code, the CSV imports (the locale \<open>csv_loop\<close>),
    what \<^verbatim>\<open>run\<close> checks before the daemon starts, and the daemon around the pool with the lock of the database.

  \<^bold>\<open>Loops.\<close> Every function is total by a termination proof or by structural recursion, so no fuel is used, with two exceptions. Fetching
  headers in batches counts in 32 bits as the code does: the loop may wrap and not return, which is the value \<open>None\<close>, and it is proved to
  return every message once for the sizes that the configuration allows. The paged listing of an Exchange folder depends on the server to say that
  a page is the last one: it is a \<open>partial_function\<close> that is \<open>None\<close> when it never does, and it is proved to end on a server that pages
  through a finite folder. The cycle of the pool is a relation, and the absence of infinite runs and of deadlocks is proved.

  \<^bold>\<open>Parameters.\<close> SHA-256, the MIME word, address and date parsers, the Unicode tables outside ASCII, \<^verbatim>\<open>go-imap\<close>, \<^verbatim>\<open>go-pst\<close> and its text decoders, HTTP with
  NTLM, the parsers of XML, JSON and YAML, the file system calls for certificates and CSV files, SQLite as a store of tables, the clock
  and the context.

  \<^bold>\<open>Not modelled.\<close> Starting the server of the tests (\<^verbatim>\<open>httptest\<close>). Lines of the log other than recorded errors, the summary and the user line, the debug log of an IMAP connection, standard error, the handling of signals (a context may be
  cancelled at any moment), and the connection string of the database are output or configuration of libraries only. The work of a worker on a
  user is one atomic step of a cycle: users share nothing but their own rows and their own counters.
\<close>

end
